(* ===== verification/NF_Prelude.thy ===== *)
theory NF_Prelude
  imports Main "HOL-Library.Word" "HOL-Library.Monad_Syntax"
begin

text \<open>
  Shared vocabulary of the development: machine integers and byte buffers at the widths of the
  64-bit Windows build, checked memory reads and writes (a read or write outside its object is
  \<open>None\<close>), the little-endian layout of the packed integers, and \<open>std::map\<close> as a key-sorted
  association list behind the locale \<open>std_map\<close>.
\<close>

unbundle bit_operations_syntax

named_theorems mem_simps \<open>evaluation of checked memory reads and writes\<close>
named_theorems size_simps \<open>sizes of the packed structures\<close>

section \<open>Machine integers and bytes\<close>

type_synonym byte = "8 word"
type_synonym bytes = "byte list"
type_synonym u16 = "16 word"
type_synonym u32 = "32 word"
type_synonym u64 = "64 word"

section \<open>Little-endian integers\<close>

definition le16 :: "u16 \<Rightarrow> bytes" where
  "le16 w = [ucast w, ucast (drop_bit 8 w)]"

definition of_le16 :: "byte \<Rightarrow> byte \<Rightarrow> u16" where
  "of_le16 a b = ucast a OR push_bit 8 (ucast b)"

definition le32 :: "u32 \<Rightarrow> bytes" where
  "le32 w = [ucast w, ucast (drop_bit 8 w), ucast (drop_bit 16 w), ucast (drop_bit 24 w)]"

definition of_le32 :: "byte \<Rightarrow> byte \<Rightarrow> byte \<Rightarrow> byte \<Rightarrow> u32" where
  "of_le32 a b c d =
     ucast a OR push_bit 8 (ucast b) OR push_bit 16 (ucast c) OR push_bit 24 (ucast d)"

lemma length_le16 [simp, size_simps]: "length (le16 w) = 2"
  by (simp add: le16_def)

lemma length_le32 [simp, size_simps]: "length (le32 w) = 4"
  by (simp add: le32_def)

lemma of_le16_le16 [simp]: "of_le16 (ucast w) (ucast (drop_bit 8 w)) = w"
  by (rule bit_word_eqI)
    (auto simp: of_le16_def bit_simps)

lemma of_le32_le32 [simp]:
  "of_le32 (ucast w) (ucast (drop_bit 8 w)) (ucast (drop_bit 16 w)) (ucast (drop_bit 24 w)) = w"
proof (rule bit_word_eqI)
  fix n assume "n < LENGTH(32)"
  then consider "n < 8" | "8 \<le> n" "n < 16" | "16 \<le> n" "n < 24" | "24 \<le> n" "n < 32"
    by fastforce
  then show "bit (of_le32 (ucast w) (ucast (drop_bit 8 w)) (ucast (drop_bit 16 w))
      (ucast (drop_bit 24 w))) n = bit w n"
    by cases (auto simp: of_le32_def bit_simps)
qed

section \<open>Checked memory accesses\<close>

definition rd8 :: "nat \<Rightarrow> bytes \<Rightarrow> byte option" where
  "rd8 off buf = (if off < length buf then Some (buf ! off) else None)"

definition rd16 :: "nat \<Rightarrow> bytes \<Rightarrow> u16 option" where
  "rd16 off buf =
     (if off + 2 \<le> length buf then Some (of_le16 (buf ! off) (buf ! (off + 1))) else None)"

definition rd32 :: "nat \<Rightarrow> bytes \<Rightarrow> u32 option" where
  "rd32 off buf =
     (if off + 4 \<le> length buf
      then Some (of_le32 (buf ! off) (buf ! (off + 1)) (buf ! (off + 2)) (buf ! (off + 3)))
      else None)"

definition rdn :: "nat \<Rightarrow> nat \<Rightarrow> bytes \<Rightarrow> bytes option" where
  "rdn off n buf = (if off + n \<le> length buf then Some (take n (drop off buf)) else None)"

definition wrn :: "nat \<Rightarrow> bytes \<Rightarrow> bytes \<Rightarrow> bytes option" where
  "wrn off src buf =
     (if off + length src \<le> length buf
      then Some (take off buf @ src @ drop (off + length src) buf) else None)"

lemma rd8_eq_None [simp]: "rd8 off buf = None \<longleftrightarrow> length buf \<le> off"
  by (auto simp: rd8_def)

lemma rd16_eq_None [simp]: "rd16 off buf = None \<longleftrightarrow> length buf < off + 2"
  by (auto simp: rd16_def)

lemma rd32_eq_None [simp]: "rd32 off buf = None \<longleftrightarrow> length buf < off + 4"
  by (auto simp: rd32_def)

lemma rdn_eq_None [simp]: "rdn off n buf = None \<longleftrightarrow> length buf < off + n"
  by (auto simp: rdn_def)

lemma wrn_eq_None [simp]: "wrn off src buf = None \<longleftrightarrow> length buf < off + length src"
  by (auto simp: wrn_def)

lemma wrn_length: "wrn off src buf = Some buf' \<Longrightarrow> length buf' = length buf"
  by (auto simp: wrn_def split: if_splits)

lemma rdn_length: "rdn off n buf = Some x \<Longrightarrow> length x = n"
  by (auto simp: rdn_def split: if_splits)

lemma rd_append [mem_simps]:
  "off < length xs \<Longrightarrow> rd8 off (xs @ ys) = rd8 off xs"
  "off + 2 \<le> length xs \<Longrightarrow> rd16 off (xs @ ys) = rd16 off xs"
  "off + 4 \<le> length xs \<Longrightarrow> rd32 off (xs @ ys) = rd32 off xs"
  "off + n \<le> length xs \<Longrightarrow> rdn off n (xs @ ys) = rdn off n xs"
  by (auto simp: rd8_def rd16_def rd32_def rdn_def nth_append)

lemma rdn_zero_all [mem_simps]: "rdn 0 (length xs) xs = Some xs"
  by (simp add: rdn_def)

section \<open>\<open>std::map\<close> as a key-sorted association list\<close>

text \<open>
  \<open>m_insert\<close> is \<open>m[k] = v\<close>, \<open>m_erase\<close> is \<open>m.erase\<close>, \<open>map_of m k\<close> is \<open>m.find (k)\<close>; iteration
  from \<open>m.begin ()\<close> is the list order.
\<close>

fun m_insert :: "'k::linorder \<Rightarrow> 'v \<Rightarrow> ('k \<times> 'v) list \<Rightarrow> ('k \<times> 'v) list" where
  "m_insert k v [] = [(k, v)]"
| "m_insert k v ((k', v') # m) =
     (if k < k' then (k, v) # (k', v') # m
      else if k = k' then (k, v) # m
      else (k', v') # m_insert k v m)"

definition m_erase :: "'k \<Rightarrow> ('k \<times> 'v) list \<Rightarrow> ('k \<times> 'v) list" where
  "m_erase k m = filter (\<lambda>(k', v). k' \<noteq> k) m"

definition m_sorted :: "('k::linorder \<times> 'v) list \<Rightarrow> bool" where
  "m_sorted m = sorted_wrt (<) (map fst m)"

lemma set_m_insert_fst [simp]: "fst ` set (m_insert k v m) = insert k (fst ` set m)"
  by (induction k v m rule: m_insert.induct) auto

lemma m_sorted_insert: "m_sorted m \<Longrightarrow> m_sorted (m_insert k v m)"
proof (induction k v m rule: m_insert.induct)
  case (2 k v k' v' m)
  then have IH: "k > k' \<Longrightarrow> sorted_wrt (<) (map fst (m_insert k v m))"
    and lt: "\<forall>x \<in> fst ` set m. k' < x" "sorted_wrt (<) (map fst m)"
    by (auto simp: m_sorted_def)
  have "k > k' \<Longrightarrow> \<forall>x \<in> fst ` set (m_insert k v m). k' < x"
    using lt by auto
  with IH lt show ?case
    by (auto simp: m_sorted_def not_less order.strict_iff_order)
qed (simp add: m_sorted_def)

lemma m_sorted_erase: "m_sorted m \<Longrightarrow> m_sorted (m_erase k m)"
  by (induction m) (auto simp: m_sorted_def m_erase_def)

lemma m_find_insert: "map_of (m_insert k v m) j = (if j = k then Some v else map_of m j)"
  by (induction k v m rule: m_insert.induct) auto

lemma m_find_erase: "map_of (m_erase k m) j = (if j = k then None else map_of m j)"
  by (induction m) (auto simp: m_erase_def)

locale std_map =
  fixes find :: "'m \<Rightarrow> 'k \<Rightarrow> 'v option"
    and insert_or_assign :: "'k \<Rightarrow> 'v \<Rightarrow> 'm \<Rightarrow> 'm"
    and erase :: "'k \<Rightarrow> 'm \<Rightarrow> 'm"
  assumes find_insert: "find (insert_or_assign k v m) j = (if j = k then Some v else find m j)"
    and find_erase: "find (erase k m) j = (if j = k then None else find m j)"
begin

lemma dom_insert: "dom (find (insert_or_assign k v m)) = insert k (dom (find m))"
  by (auto simp: find_insert split: if_splits)

lemma dom_erase: "dom (find (erase k m)) = dom (find m) - {k}"
  by (auto simp: find_erase split: if_splits)

lemma insert_fun: "find (insert_or_assign k v m) = (find m)(k \<mapsto> v)"
  by (auto simp: find_insert)

lemma erase_fun: "find (erase k m) = (find m)(k := None)"
  by (auto simp: find_erase)

lemma erase_insert: "find (erase k (insert_or_assign k v m)) = find (erase k m)"
  by (auto simp: find_insert find_erase)

lemma insert_insert: "find (insert_or_assign k v (insert_or_assign k u m)) = find (insert_or_assign k v m)"
  by (auto simp: find_insert)

end

interpretation smap: std_map map_of m_insert m_erase
  by unfold_locales (simp_all add: m_find_insert m_find_erase)

lemmas std_map_simps [simp] = smap.insert_fun smap.erase_fun

lemma m_erase_notin [simp]: "k \<notin> fst ` set m \<Longrightarrow> m_erase k m = m"
  unfolding m_erase_def by (rule filter_True) force

end
