(* ===== verification/Utf8.thy ===== *)
theory Utf8
  imports NF_Prelude
begin

text \<open>
  \<open>src/netfilter/UTF-8.h\<close>: the UTF-8 encoder and decoder for \<open>std::wstring\<close>. The type variable
  \<open>'w\<close> is \<open>wchar_t\<close>; the code branches on \<open>sizeof (wchar_t)\<close>, which is \<open>LENGTH('w) div 8\<close>:
  16 bits in the Windows build, 32 on other compilers. A \<open>std::string\<close> is a byte list, indices
  are below \<open>2 ^ 31\<close> as the code's own \<open>(int) source.length ()\<close> needs. Reading
  \<open>source[source.length ()]\<close> gives the terminating zero, as the C++ standard says; reading further
  is \<open>None\<close>.
\<close>

definition sizeof_wchar :: "'w::len itself \<Rightarrow> nat" where
  "sizeof_wchar _ = LENGTH('w) div 8"

definition REPLACEMENT_CHAR :: "'w::len word" where
  "REPLACEMENT_CHAR = 0xFFFD"

section \<open>The encoder\<close>

definition invalid_char :: "u32 \<Rightarrow> bool" where
  "invalid_char c \<longleftrightarrow>
     (0xD800 \<le> c \<and> c \<le> 0xDFFF) \<or> c = 0xFFFF \<or> c = 0xFFFE \<or> 0x80000000 \<le> c"

definition encodeUTF8Char :: "bytes \<Rightarrow> 'w::len word \<Rightarrow> bytes" where
  "encodeUTF8Char str character =
     (let c = (ucast character :: u32);
          c = (if invalid_char c then 0xFFFD else c)
      in if c < 0x80 then str @ [ucast c]
         else if c < 0x800 then
           str @ [ucast (0xC0 + drop_bit 6 c), ucast (0x80 + (c AND 0x3F))]
         else if sizeof_wchar TYPE('w) = 2 \<or> c < 0x10000 then
           str @ [ucast (0xE0 + drop_bit 12 c), ucast (0x80 + (drop_bit 6 c AND 0x3F)),
                  ucast (0x80 + (c AND 0x3F))]
         else if c < 0x200000 then
           str @ [ucast (0xF0 + drop_bit 18 c), ucast (0x80 + (drop_bit 12 c AND 0x3F)),
                  ucast (0x80 + (drop_bit 6 c AND 0x3F)), ucast (0x80 + (c AND 0x3F))]
         else if c < 0x4000000 then
           str @ [ucast (0xF8 + drop_bit 24 c), ucast (0x80 + (drop_bit 18 c AND 0x3F)),
                  ucast (0x80 + (drop_bit 12 c AND 0x3F)), ucast (0x80 + (drop_bit 6 c AND 0x3F)),
                  ucast (0x80 + (c AND 0x3F))]
         else
           str @ [ucast (0xFC + drop_bit 30 c), ucast (0x80 + (drop_bit 24 c AND 0x3F)),
                  ucast (0x80 + (drop_bit 18 c AND 0x3F)), ucast (0x80 + (drop_bit 12 c AND 0x3F)),
                  ucast (0x80 + (drop_bit 6 c AND 0x3F)), ucast (0x80 + (c AND 0x3F))])"

fun encodeUTF8_loop :: "bytes \<Rightarrow> 'w::len word list \<Rightarrow> bytes" where
  "encodeUTF8_loop result [] = result"
| "encodeUTF8_loop result (w # ws) = encodeUTF8_loop (encodeUTF8Char result w) ws"

definition encodeUTF8 :: "'w::len word list \<Rightarrow> bytes" where
  "encodeUTF8 source = encodeUTF8_loop [] source"

section \<open>The decoder\<close>

definition str_at :: "bytes \<Rightarrow> nat \<Rightarrow> byte option" where
  "str_at s i = (if i < length s then Some (s ! i) else if i = length s then Some 0 else None)"

text \<open>The loop that counts the leading one bits: \<open>d\<close>, \<open>dataMask\<close>, \<open>extraBytesForChar\<close>.\<close>

lemma bits_shift_less:
  fixes d :: byte
  assumes "bit d 7"
  shows "card {i. bit (push_bit 1 d) i} < card {i. bit d i}"
proof -
  have fin: "finite {i. bit d i}"
    by (rule finite_subset [of _ "{..<8}"]) (auto dest: bit_imp_le_length)
  have sub: "{i. bit (push_bit 1 d) i} \<subseteq> Suc ` ({i. bit d i} - {7})"
  proof
    fix i assume "i \<in> {i. bit (push_bit 1 d) i}"
    then have "1 \<le> i" "i < 8" "bit d (i - 1)"
      by (simp_all only: mem_Collect_eq bit_push_bit_iff possible_bit_word) simp
    then show "i \<in> Suc ` ({i. bit d i} - {7})"
      by (intro image_eqI [of _ _ "i - 1"]) auto
  qed
  have "card {i. bit (push_bit 1 d) i} \<le> card (Suc ` ({i. bit d i} - {7}))"
    by (rule card_mono [OF _ sub]) (use fin in simp)
  also have "\<dots> = card ({i. bit d i} - {7})"
    by (simp add: card_image)
  also have "\<dots> < card {i. bit d i}"
    using fin assms by (intro psubset_card_mono) auto
  finally show ?thesis .
qed

lemma and_0x80: "((d::byte) AND 0x80 \<noteq> 0) = bit d 7"
  by (simp add: bit_iff_and_push_bit_not_eq_0)

function count_lead :: "byte \<Rightarrow> int \<Rightarrow> int \<Rightarrow> int \<times> int" where
  "count_lead d dataMask extra =
     (if d AND 0x80 \<noteq> 0 then count_lead (push_bit 1 d) (drop_bit 1 dataMask) (extra + 1)
      else (dataMask, extra))"
  by pat_completeness auto
termination
  by (relation "measure (\<lambda>(d, m, e). card {i. bit d i})") (auto simp only: and_0x80 in_measure split_def fst_conv snd_conv intro: bits_shift_less wf_measure)

declare count_lead.simps [simp del]

text \<open>The loop over the continuation bytes: \<open>k\<close> iterations are left, \<open>i\<close> is the read index.\<close>

fun decode_cont :: "bytes \<Rightarrow> nat \<Rightarrow> nat \<Rightarrow> 'w::len word \<Rightarrow> ('w word \<times> nat) option" where
  "decode_cont source 0 i n = Some (n, i)"
| "decode_cont source (Suc k) i n = do {
     c \<leftarrow> str_at source (i + 1);
     if c = 0xFF \<or> c = 0xFE then Some (REPLACEMENT_CHAR, i + 1)
     else if drop_bit 6 c = 2 then
       decode_cont source k (i + 1) (push_bit 6 n + ucast (c AND 0x3F))
     else Some (REPLACEMENT_CHAR, i)
   }"

text \<open>One iteration of the main loop: the character and the index it leaves in \<open>i\<close>.\<close>

definition decode_char :: "bytes \<Rightarrow> nat \<Rightarrow> ('w::len word \<times> nat) option" where
  "decode_char source i = do {
     c \<leftarrow> str_at source i;
     if c \<noteq> 0xFF \<and> c \<noteq> 0xFE then do {
       let remainingBytes = int (length source) - int i;
       (n, i', extraBytesForChar) \<leftarrow>
         (if drop_bit 6 c \<noteq> 2 then do {
            let (dataMask, extraBytesForChar) = count_lead c 0x7F (-1);
            let n = word_of_int (uint c AND dataMask);
            if extraBytesForChar > remainingBytes
            then Some (REPLACEMENT_CHAR, i, extraBytesForChar)
            else do {
              (n, i') \<leftarrow> decode_cont source (nat extraBytesForChar) i n;
              Some (n, i', extraBytesForChar)
            }
          }
          else Some (REPLACEMENT_CHAR, i, -1));
       if sizeof_wchar TYPE('w) = 2 \<and> extraBytesForChar > 2 then Some (REPLACEMENT_CHAR, i')
       else if sizeof_wchar TYPE('w) = 4 \<and> extraBytesForChar > 5 then Some (REPLACEMENT_CHAR, i')
       else Some (n, i')
     }
     else Some (REPLACEMENT_CHAR, i)
   }"


lemma decode_cont_index: "decode_cont source k i n = Some (m, i') \<Longrightarrow> i \<le> i' \<and> i' \<le> i + k"
proof (induction source k i n rule: decode_cont.induct)
  case (2 source k i n)
  then show ?case
    by (auto simp: bind_eq_Some_conv split: if_splits)
qed simp

lemma decode_char_index: "decode_char source i = Some (n, i') \<Longrightarrow> i \<le> i'"
  by (auto simp: decode_char_def bind_eq_Some_conv Let_def
      split: if_splits prod.splits dest: decode_cont_index)

function decode_loop :: "bytes \<Rightarrow> nat \<Rightarrow> 'w::len word list \<Rightarrow> 'w word list option" where
  "decode_loop source i result =
     (if i < length source then do {
        (n, i') \<leftarrow> decode_char source i;
        decode_loop source (i' + 1) (result @ [n])
      }
      else Some result)"
  by pat_completeness auto
termination
  by (relation "measure (\<lambda>(s, i, r). length s - i)") (auto dest!: decode_char_index)

declare decode_loop.simps [simp del]

definition decodeUTF8 :: "bytes \<Rightarrow> 'w::len word list option" where
  "decodeUTF8 source = decode_loop source 0 []"


section \<open>The decoder is total and stays inside the string\<close>

lemma decode_cont_total: "i + k \<le> length source \<Longrightarrow> decode_cont source k i n \<noteq> None"
  by (induction source k i n rule: decode_cont.induct) (auto simp: str_at_def)

lemma decode_char_total:
  assumes le: "i \<le> length source"
  shows "\<exists>n i'. decode_char source i = Some (n :: 'w::len word, i')"
proof -
  obtain c where c: "str_at source i = Some c"
    using le by (cases "i = length source") (simp_all add: str_at_def)
  obtain m e where me: "count_lead c 0x7F (-1) = (m, e)"
    by (cases "count_lead c 0x7F (-1)")
  show ?thesis
  proof (cases "e > int (length source) - int i")
    case True
    with c me show ?thesis by (simp add: decode_char_def)
  next
    case False
    then have "i + nat e \<le> length source" using le by linarith
    then obtain n :: "'w word" and i'
      where "decode_cont source (nat e) i (word_of_int (uint c AND m)) = Some (n, i')"
      using decode_cont_total by fastforce
    with c me False show ?thesis by (simp add: decode_char_def)
  qed
qed

lemma decode_loop_total: "\<exists>ws. decode_loop source i r = Some ws \<and> length ws \<le> length r + (length source - i)"
proof (induction source i r rule: decode_loop.induct)
  case (1 source i r)
  show ?case
  proof (cases "i < length source")
    case True
    then obtain n :: "'a word" and i' where d: "decode_char source i = Some (n, i')"
      using decode_char_total [of i source] by auto
    then have "i \<le> i'" by (rule decode_char_index)
    with True d "1.IH" [OF True d refl] show ?thesis
      by (subst decode_loop.simps) (auto intro: le_trans)
  qed (simp add: decode_loop.simps)
qed

section \<open>Reading the bit tricks as arithmetic\<close>

lemma unat_and_3F: "unat (w AND 0x3F :: 'a::len word) = unat w mod 64" if "6 \<le> LENGTH('a)"
proof -
  have "(0x3F :: 'a word) = mask 6"
    by (simp add: mask_eq_exp_minus_1)
  then have "unat (w AND 0x3F) = unat (take_bit 6 w)"
    by (simp only: take_bit_eq_mask)
  also have "\<dots> = take_bit 6 (unat w)"
    by (rule unsigned_take_bit_eq)
  also have "\<dots> = unat w mod 64"
    by (simp add: take_bit_eq_mod)
  finally show ?thesis .
qed

lemma unat_ucast_byte: "unat (ucast (c :: u32) :: byte) = unat c mod 256"
  by (simp add: unsigned_ucast_eq take_bit_eq_mod)

lemma unat_drop: "unat (drop_bit n (w :: 'a::len word)) = unat w div 2 ^ n"
  by (simp only: unat_drop_bit_eq) (simp add: drop_bit_eq_div)

lemma byte_class: "drop_bit 6 (c :: byte) = 2 \<longleftrightarrow> 128 \<le> unat c \<and> unat c < 192"
proof -
  have "drop_bit 6 c = 2 \<longleftrightarrow> unat c div 64 = 2"
    by (simp add: word_unat_eq_iff unat_drop)
  then show ?thesis by auto
qed

lemma bit_byte: "bit (d :: byte) n \<longleftrightarrow> odd (unat d div 2 ^ n)"
  using bit_unsigned_iff [where ?'a = nat, of d n] by (auto simp: bit_iff_odd [where ?'a = nat] dest: bit_imp_le_length)



lemma unat_double: "unat ((2 :: byte) * d) = 2 * unat d mod 256"
  by (simp add: unat_word_ariths)

lemma unat_byte_less: "unat (d :: byte) < 256"
  using unsigned_less [of d] by simp

lemma high_bit_byte: "bit (d :: byte) 7 \<longleftrightarrow> 128 \<le> unat d"
proof (cases "128 \<le> unat d")
  case True
  with unat_byte_less [of d] have "unat d div 128 = 1" by simp
  with True show ?thesis by (simp add: bit_byte)
next
  case False
  then have "unat d div 128 = 0" by simp
  with False show ?thesis by (simp add: bit_byte)
qed

lemma count_lead_stop: "unat d < 128 \<Longrightarrow> count_lead d m e = (m, e)"
  by (subst count_lead.simps) (simp only: and_0x80 high_bit_byte, simp)

lemma count_lead_go:
  assumes "128 \<le> unat d"
  shows "count_lead d m e = count_lead (2 * d) (drop_bit 1 m) (e + 1)"
proof -
  have "push_bit 1 d = 2 * d" by simp
  with assms show ?thesis
    by (subst count_lead.simps) (simp only: and_0x80 high_bit_byte if_True)
qed

lemma unat_double_high: "128 \<le> unat (d :: byte) \<Longrightarrow> unat (2 * d) = 2 * unat d - 256"
  using unat_byte_less [of d] by (simp add: unat_double mod_if)

lemma count_lead_2:
  assumes "192 \<le> unat d" "unat d < 224"
  shows "count_lead d 0x7F (-1) = (0x1F, 1)"
proof -
  have 1: "unat (2 * d) = 2 * unat d - 256"
    using assms by (intro unat_double_high) simp
  have 2: "unat (2 * (2 * d)) = 2 * unat (2 * d) - 256"
    using assms 1 by (intro unat_double_high) simp
  have ds: "128 \<le> unat d" "128 \<le> unat (2 * d)" "unat (2 * (2 * d)) < 128"
    using assms 1 2 by linarith+
  show ?thesis
    by (simp only: count_lead_go [OF ds(1)] count_lead_go [OF ds(2)] count_lead_stop [OF ds(3)])
      simp
qed

lemma count_lead_3:
  assumes "224 \<le> unat d" "unat d < 240"
  shows "count_lead d 0x7F (-1) = (0x0F, 2)"
proof -
  have 1: "unat (2 * d) = 2 * unat d - 256"
    using assms by (intro unat_double_high) simp
  have 2: "unat (2 * (2 * d)) = 2 * unat (2 * d) - 256"
    using assms 1 by (intro unat_double_high) simp
  have 3: "unat (2 * (2 * (2 * d))) = 2 * unat (2 * (2 * d)) - 256"
    using assms 1 2 by (intro unat_double_high) simp
  have ds: "128 \<le> unat d" "128 \<le> unat (2 * d)" "128 \<le> unat (2 * (2 * d))"
      "unat (2 * (2 * (2 * d))) < 128"
    using assms 1 2 3 by linarith+
  show ?thesis
    by (simp only: count_lead_go [OF ds(1)] count_lead_go [OF ds(2)] count_lead_go [OF ds(3)]
        count_lead_stop [OF ds(4)]) simp
qed

section \<open>Round trip\<close>

definition sanitize :: "'w::len word \<Rightarrow> 'w word" where
  "sanitize w = (if invalid_char (ucast w) then REPLACEMENT_CHAR else w)"

lemma int_and_mask: "(x :: int) AND mask k = x mod 2 ^ k"
  by (simp only: take_bit_eq_mask [symmetric] take_bit_eq_mod)

lemma lead_data:
  "(word_of_int (uint (c :: byte) AND 0x7F) :: 'w::len word) = word_of_nat (unat c mod 128)"
  "(word_of_int (uint (c :: byte) AND 0x1F) :: 'w::len word) = word_of_nat (unat c mod 32)"
  "(word_of_int (uint (c :: byte) AND 0x0F) :: 'w::len word) = word_of_nat (unat c mod 16)"
proof -
  have m: "(0x7F :: int) = mask 7" "(0x1F :: int) = mask 5" "(0x0F :: int) = mask 4"
    by (simp_all add: mask_eq_exp_minus_1)
  have "uint c AND mask k = int (unat c mod 2 ^ k)" for k
    by (simp only: int_and_mask uint_nat of_nat_mod of_nat_power of_nat_numeral)
  then show "(word_of_int (uint c AND 0x7F) :: 'w word) = word_of_nat (unat c mod 128)"
    "(word_of_int (uint c AND 0x1F) :: 'w word) = word_of_nat (unat c mod 32)"
    "(word_of_int (uint c AND 0x0F) :: 'w word) = word_of_nat (unat c mod 16)"
    unfolding m by (simp_all only: of_int_of_nat_eq) simp_all
qed

lemma cont_data: "(ucast (d AND 0x3F :: byte) :: 'w::len word) = word_of_nat (unat d mod 64)"
proof -
  have "(ucast (d AND 0x3F) :: 'w word) = word_of_nat (unat (d AND 0x3F))"
    by simp
  then show ?thesis by (simp only: unat_and_3F) (simp add: unat_and_3F)
qed

lemma ne_FF: "unat (c :: byte) < 254 \<Longrightarrow> c \<noteq> 0xFF \<and> c \<noteq> 0xFE"
  by auto

lemma decode_char_1:
  assumes "i < length s" "unat (s ! i) < 128"
  shows "decode_char s i = Some (word_of_nat (unat (s ! i)) :: 'w::len word, i)"
proof -
  have "s ! i \<noteq> 0xFF \<and> s ! i \<noteq> 0xFE" using assms by (intro ne_FF) simp
  moreover have "drop_bit 6 (s ! i) \<noteq> 2" using assms by (simp add: byte_class)
  moreover have "\<not> (-1 > int (length s) - int i)" using assms by simp
  moreover have "(word_of_int (uint (s ! i) AND 0x7F) :: 'w word) = word_of_nat (unat (s ! i))"
    using assms(2) by (simp only: lead_data) simp
  ultimately show ?thesis
    using assms count_lead_stop [of "s ! i" "0x7F" "-1"]
    by (simp add: decode_char_def str_at_def)
qed

lemma decode_char_cont:
  assumes "i < length s" "s ! i \<noteq> 0xFF \<and> s ! i \<noteq> 0xFE" "drop_bit 6 (s ! i) \<noteq> 2"
    "count_lead (s ! i) 0x7F (-1) = (m, e)" "e \<le> 2" "i + nat e < length s"
    "decode_cont s (nat e) i (word_of_int (uint (s ! i) AND m)) = Some (n :: 'w::len word, i')"
  shows "decode_char s i = Some (n, i')"
proof -
  have "\<not> (e > int (length s) - int i)" using assms by linarith
  then show ?thesis
    using assms by (simp add: decode_char_def str_at_def)
qed

declare decode_cont.simps(2) [simp del]

lemma mod_split: "x < (k :: nat) \<Longrightarrow> (k * q + x) mod k = x"
  by simp

lemma decode_cont_next:
  assumes "i + 1 < length s" "unat (s ! (i + 1)) = 128 + x" "x < 64"
  shows "decode_cont s (Suc k) i (word_of_nat n) =
    decode_cont s k (i + 1) (word_of_nat (n * 64 + x) :: 'w::len word)"
proof -
  have "s ! (i + 1) \<noteq> 0xFF \<and> s ! (i + 1) \<noteq> 0xFE" using assms by (intro ne_FF) simp
  moreover have "drop_bit 6 (s ! (i + 1)) = 2" using assms by (simp add: byte_class)
  moreover have "unat (s ! (i + 1)) mod 64 = x"
    using assms mod_split [of x 64 2] by simp
  then have "push_bit 6 (word_of_nat n :: 'w word) + ucast (s ! (i + 1) AND 0x3F) = word_of_nat (n * 64 + x)"
    by (simp add: cont_data push_bit_eq_mult mult.commute)
  ultimately show ?thesis
    using assms(1) by (simp add: str_at_def decode_cont.simps(2))
qed

lemma decode_char_2:
  assumes "i + 1 < length s" "unat (s ! i) = 192 + a" "a < 32" "unat (s ! (i + 1)) = 128 + b" "b < 64"
  shows "decode_char s i = Some (word_of_nat (a * 64 + b) :: 'w::len word, i + 1)"
proof (rule decode_char_cont)
  have m: "unat (s ! i) mod 32 = a" using assms mod_split [of a 32 6] by simp
  show "count_lead (s ! i) 0x7F (-1) = (0x1F, 1)"
    using assms by (intro count_lead_2) simp_all
  show "decode_cont s (nat 1) i (word_of_int (uint (s ! i) AND 0x1F))
      = Some (word_of_nat (a * 64 + b) :: 'w word, i + 1)"
    using assms decode_cont_next [of i s b 0 a] m by (simp only: lead_data) simp
  show "s ! i \<noteq> 0xFF \<and> s ! i \<noteq> 0xFE" using assms by (intro ne_FF) simp
qed (use assms in \<open>simp_all add: byte_class\<close>)

lemma decode_char_3:
  assumes "i + 2 < length s" "unat (s ! i) = 224 + a" "a < 16" "unat (s ! (i + 1)) = 128 + b" "b < 64"
    "unat (s ! (i + 2)) = 128 + c" "c < 64"
  shows "decode_char s i = Some (word_of_nat ((a * 64 + b) * 64 + c) :: 'w::len word, i + 2)"
proof (rule decode_char_cont)
  have m: "unat (s ! i) mod 16 = a" using assms mod_split [of a 16 14] by simp
  show "count_lead (s ! i) 0x7F (-1) = (0x0F, 2)"
    using assms by (intro count_lead_3) simp_all
  have "decode_cont s (nat 2) i (word_of_nat a)
      = decode_cont s 1 (i + 1) (word_of_nat (a * 64 + b) :: 'w word)"
    using assms decode_cont_next [of i s b 1 a] by (simp add: numeral_2_eq_2)
  also have "\<dots> = decode_cont s 0 (i + 2) (word_of_nat ((a * 64 + b) * 64 + c))"
    using assms decode_cont_next [of "i + 1" s c 0 "a * 64 + b"]
    by (simp add: numeral_2_eq_2)
  finally show "decode_cont s (nat 2) i (word_of_int (uint (s ! i) AND 0x0F))
      = Some (word_of_nat ((a * 64 + b) * 64 + c) :: 'w word, i + 2)"
    using m by (simp only: lead_data) simp
  show "s ! i \<noteq> 0xFF \<and> s ! i \<noteq> 0xFE" using assms by (intro ne_FF) simp
qed (use assms in \<open>simp_all add: byte_class\<close>)

lemma unat_and_3F_u32: "unat (w AND 0x3F :: u32) = unat w mod 64"
  by (rule unat_and_3F) simp

lemma unat_lead:
  "k + unat (x :: u32) < 256 \<Longrightarrow> unat (ucast (word_of_nat k + x) :: byte) = k + unat x"
  by (simp only: unat_ucast_byte unat_word_ariths unat_of_nat) simp

lemma unat_encode_bytes:
  fixes c :: u32
  shows "unat c < 256 \<Longrightarrow> unat (ucast c :: byte) = unat c"
    and "unat c < 2048 \<Longrightarrow> unat (ucast (0xC0 + drop_bit 6 c) :: byte) = 192 + unat c div 64"
    and "unat c < 65536 \<Longrightarrow> unat (ucast (0xE0 + drop_bit 12 c) :: byte) = 224 + unat c div 4096"
    and "unat (ucast (0x80 + (c AND 0x3F)) :: byte) = 128 + unat c mod 64"
    and "unat (ucast (0x80 + (drop_bit 6 c AND 0x3F)) :: byte) = 128 + unat c div 64 mod 64"
proof -
  show "unat c < 256 \<Longrightarrow> unat (ucast c :: byte) = unat c"
    by (simp only: unat_ucast_byte) simp
  show "unat c < 2048 \<Longrightarrow> unat (ucast (0xC0 + drop_bit 6 c) :: byte) = 192 + unat c div 64"
    using unat_lead [of 192 "drop_bit 6 c"] by (simp only: unat_drop) auto
  show "unat c < 65536 \<Longrightarrow> unat (ucast (0xE0 + drop_bit 12 c) :: byte) = 224 + unat c div 4096"
    using unat_lead [of 224 "drop_bit 12 c"] by (simp only: unat_drop) auto
  show "unat (ucast (0x80 + (c AND 0x3F)) :: byte) = 128 + unat c mod 64"
    using unat_lead [of 128 "c AND 0x3F"] by (simp only: unat_and_3F_u32) auto
  show "unat (ucast (0x80 + (drop_bit 6 c AND 0x3F)) :: byte) = 128 + unat c div 64 mod 64"
    using unat_lead [of 128 "drop_bit 6 c AND 0x3F"]
    by (simp only: unat_and_3F_u32 unat_drop) auto
qed

lemma sanitize_u32:
  "(if invalid_char (ucast w) then 0xFFFD else ucast w :: u32) = ucast (sanitize (w :: 16 word))"
  by (simp add: sanitize_def REPLACEMENT_CHAR_def)

lemma unat_16_less: "unat (w :: 16 word) < 65536"
  using unsigned_less [of w] by simp

lemma unat_ucast_16: "unat (ucast (w :: 16 word) :: u32) = unat w"
proof -
  have "unat w < 2 ^ 32" using unat_16_less [of w] by simp
  then show ?thesis by (simp add: unsigned_ucast_eq take_bit_nat_eq_self)
qed

lemma encode_char_16:
  fixes w :: "16 word"
  defines "u \<equiv> unat (sanitize w)"
  shows "\<exists>bs. encodeUTF8Char str w = str @ bs \<and> map unat bs =
    (if u < 128 then [u] else if u < 2048 then [192 + u div 64, 128 + u mod 64]
     else [224 + u div 4096, 128 + u div 64 mod 64, 128 + u mod 64])"
proof -
  define c :: u32 where "c = ucast (sanitize w)"
  have c: "unat c = u" "u < 65536"
    using unsigned_less [of "sanitize w"] by (simp_all add: c_def u_def unat_ucast_16)
  have lt: "c < 0x80 \<longleftrightarrow> u < 128" "c < 0x800 \<longleftrightarrow> u < 2048"
    by (simp_all add: word_less_nat_alt c)
  have sz: "sizeof_wchar TYPE(16) = 2"
    by (simp add: sizeof_wchar_def)
  show ?thesis
    unfolding encodeUTF8Char_def Let_def sanitize_u32 c_def [symmetric] lt sz
    using c by (auto simp: unat_encode_bytes unat_drop)
qed

lemma decode_encoded_char:
  fixes w :: "16 word"
  obtains bs where "encodeUTF8Char str w = str @ bs" "bs \<noteq> []"
    "decode_char (bs @ post) 0 = Some (sanitize w, length bs - 1)"
proof -
  define u where "u = unat (sanitize w)"
  have u: "u < 65536" "word_of_nat u = sanitize w"
    using unat_16_less [of "sanitize w"] by (simp_all add: u_def)
  obtain bs where bs: "encodeUTF8Char str w = str @ bs"
    and m: "map unat bs = (if u < 128 then [u] else if u < 2048 then [192 + u div 64, 128 + u mod 64]
       else [224 + u div 4096, 128 + u div 64 mod 64, 128 + u mod 64])"
    using encode_char_16 [of str w] unfolding u_def by blast
  have "bs \<noteq> [] \<and> decode_char (bs @ post) 0 = Some (word_of_nat u :: 16 word, length bs - 1)"
  proof (cases "u < 128")
    case True
    with m obtain a where "bs = [a]" "unat a = u" by auto
    with True show ?thesis using decode_char_1 [of 0 "bs @ post"] by simp
  next
    case not1: False
    show ?thesis
    proof (cases "u < 2048")
      case True
      with m not1 obtain a b where "bs = [a, b]" "unat a = 192 + u div 64" "unat b = 128 + u mod 64"
        by auto
      moreover have "word_of_nat (u div 64 * 64 + u mod 64) = (word_of_nat u :: 16 word)"
        by (simp only: div_mult_mod_eq)
      ultimately show ?thesis
        using True decode_char_2 [of 0 "bs @ post" "u div 64" "u mod 64"]
        by (simp add: less_mult_imp_div_less)
    next
      case False
      with m not1 obtain a b c where "bs = [a, b, c]" "unat a = 224 + u div 4096"
        "unat b = 128 + u div 64 mod 64" "unat c = 128 + u mod 64"
        by auto
      moreover have "(u div 4096 * 64 + u div 64 mod 64) * 64 + u mod 64 = u"
      proof -
        have "u div 4096 = u div 64 div 64" by (simp add: div_mult2_eq [symmetric])
        then show ?thesis by (simp only: div_mult_mod_eq)
      qed
      ultimately show ?thesis
        using u decode_char_3 [where ?'w = 16, of 0 "bs @ post" "u div 4096" "u div 64 mod 64" "u mod 64"]
        by (simp add: less_mult_imp_div_less)
    qed
  qed
  with bs u that show thesis by simp
qed

lemma str_at_shift: "str_at (pre @ s) (length pre + i) = str_at s i"
  by (auto simp: str_at_def nth_append)

lemma decode_cont_shift:
  "decode_cont (pre @ s) k (length pre + i) n
   = map_option (\<lambda>(n, i'). (n, length pre + i')) (decode_cont s k i n)"
proof (induction k arbitrary: i n)
  case (Suc k)
  have "str_at (pre @ s) (length pre + i + 1) = str_at s (i + 1)"
    using str_at_shift [of pre s "i + 1"] by (simp add: add.assoc)
  then show ?case
    using Suc [of "i + 1"]
    by (cases "str_at s (i + 1)") (auto simp: decode_cont.simps(2) add.assoc)
qed simp

lemma decode_char_shift:
  "decode_char (pre @ s) (length pre + i)
   = map_option (\<lambda>(n, i'). (n, length pre + i')) (decode_char s i)"
proof -
  have "int (length (pre @ s)) - int (length pre + i) = int (length s) - int i"
    by simp
  then show ?thesis
    unfolding decode_char_def str_at_shift decode_cont_shift Let_def
    by (auto simp del: length_append split: prod.splits Option.bind_splits)
qed

lemma decode_loop_step:
  "i < length s \<Longrightarrow> decode_char s i = Some (n, i') \<Longrightarrow>
   decode_loop s i r = decode_loop s (i' + 1) (r @ [n])"
  by (subst decode_loop.simps) simp

lemma decode_loop_shift:
  "decode_loop (pre @ s) (length pre + i) r = map_option ((@) r) (decode_loop s i [])"
proof (induction "length s - i" arbitrary: pre i r rule: less_induct)
  case less
  show ?case
  proof (cases "i < length s")
    case True
    obtain n :: "'a word" and i' where d: "decode_char s i = Some (n, i')"
      using True decode_char_total [of i s] by auto
    then have le: "i \<le> i'" by (rule decode_char_index)
    have d': "decode_char (pre @ s) (length pre + i) = Some (n, length pre + i')"
      by (simp add: decode_char_shift d)
    have "decode_loop (pre @ s) (length pre + i) r
        = decode_loop (pre @ s) (length pre + (i' + 1)) (r @ [n])"
      using True decode_loop_step [OF _ d', of r] by (simp add: add.assoc)
    also have "\<dots> = map_option ((@) (r @ [n])) (decode_loop s (i' + 1) [])"
      using le True by (intro less) simp
    also have "\<dots> = map_option ((@) r) (decode_loop s i [])"
      using True le less [of "i' + 1" "[]" "[n]"] decode_loop_step [OF True d, of "[]"]
      by (cases "decode_loop s (i' + 1) [] :: 'a word list option") simp_all
    finally show ?thesis .
  qed (simp add: decode_loop.simps)
qed

lemma encode_char_append: "encodeUTF8Char str w = str @ encodeUTF8Char [] w"
  by (simp add: encodeUTF8Char_def Let_def)

lemma encode_loop_concat: "encodeUTF8_loop r ws = r @ concat (map (encodeUTF8Char []) ws)"
proof (induction ws arbitrary: r)
  case (Cons w ws)
  then show ?case
    by (simp only: encodeUTF8_loop.simps encode_char_append [of r w]) simp
qed simp

lemma encodeUTF8_concat: "encodeUTF8 ws = concat (map (encodeUTF8Char []) ws)"
  by (simp add: encodeUTF8_def encode_loop_concat)

lemma decode_encode_append:
  "decodeUTF8 (encodeUTF8 ws @ rest) = map_option ((@) (map sanitize ws)) (decodeUTF8 rest)"
  for ws :: "16 word list"
proof (induction ws)
  case (Cons w ws)
  obtain bs where bs: "encodeUTF8Char [] w = bs" "bs \<noteq> []"
    "decode_char (bs @ (encodeUTF8 ws @ rest)) 0 = Some (sanitize w, length bs - 1)"
    using decode_encoded_char [of "[]" w "encodeUTF8 ws @ rest"] by auto
  have e: "encodeUTF8 (w # ws) @ rest = bs @ (encodeUTF8 ws @ rest)"
    using bs by (simp add: encodeUTF8_concat)
  have "decodeUTF8 (encodeUTF8 (w # ws) @ rest)
      = decode_loop (bs @ (encodeUTF8 ws @ rest)) (length bs + 0) [sanitize w]"
    using bs decode_loop_step [OF _ bs(3), of "[]"] unfolding e by (simp add: decodeUTF8_def)
  also have "\<dots> = map_option ((@) [sanitize w]) (decodeUTF8 (encodeUTF8 ws @ rest))"
    unfolding decodeUTF8_def by (rule decode_loop_shift)
  finally show ?case
    using Cons by (simp add: option.map_comp o_def)
qed (simp add: encodeUTF8_def option.map_ident)

text \<open>The shape of one encoded character of a 16-bit string.\<close>

definition utf8_sequence :: "bytes \<Rightarrow> bool" where
  "utf8_sequence bs \<longleftrightarrow> 1 \<le> length bs \<and> length bs \<le> 3 \<and> drop_bit 6 (hd bs) \<noteq> 2 \<and>
     (\<forall>b \<in> set (tl bs). drop_bit 6 b = 2)"

section \<open>Properties\<close>

text \<open>
  C23: decoding is total and memory safe: for every byte string, valid or not, the decoder
  terminates, never reads past the terminating zero, and produces at most one character per byte.
\<close>

theorem utf8_decode_total:
  "\<exists>ws :: 'w::len word list. decodeUTF8 s = Some ws \<and> length ws \<le> length s"
  using decode_loop_total [of s 0 "[]"] by (simp add: decodeUTF8_def)

text \<open>
  C22: round trip on Windows: decoding what was encoded gives the string back, with the code units
  that the encoder rejects (surrogates, 0xFFFE, 0xFFFF) replaced by U+FFFD; a string without such
  units comes back unchanged.
\<close>

theorem utf8_roundtrip:
  fixes ws :: "16 word list"
  shows "decodeUTF8 (encodeUTF8 ws) = Some (map sanitize ws)
    \<and> ((\<forall>w \<in> set ws. \<not> invalid_char (ucast w)) \<longrightarrow> decodeUTF8 (encodeUTF8 ws) = Some ws)"
proof -
  have "decodeUTF8 (encodeUTF8 ws @ []) = Some (map sanitize ws)"
    unfolding decode_encode_append by (simp add: decodeUTF8_def decode_loop.simps)
  moreover have "map sanitize ws = ws" if "\<forall>w \<in> set ws. \<not> invalid_char (ucast w)"
    using that by (simp add: sanitize_def map_idI)
  ultimately show ?thesis by simp
qed

theorem utf8_roundtrip_witness:
  "decodeUTF8 (encodeUTF8 [0x41, 0x436, 0x20AC :: 16 word]) = Some [0x41, 0x436, 0x20AC :: 16 word]"
  by (rule utf8_roundtrip [THEN conjunct2, THEN mp]) (simp add: invalid_char_def)

text \<open>
  The encoder is compositional and its output has the UTF-8 shape: the encoding of a string is
  the concatenation of the encodings of its characters, each of one, two or three bytes, the first
  of which is not a continuation byte while the others are; so decoding resumes correctly at the
  boundary of any two encoded strings.
\<close>

lemma utf8_encode_shape:
  fixes ws :: "16 word list"
  shows "encodeUTF8 ws = concat (map (encodeUTF8Char []) ws) \<and>
    list_all (\<lambda>w. utf8_sequence (encodeUTF8Char [] w)) ws \<and>
    length ws \<le> length (encodeUTF8 ws) \<and> length (encodeUTF8 ws) \<le> 3 * length ws \<and>
    decodeUTF8 (encodeUTF8 ws @ rest) = map_option ((@) (map sanitize ws)) (decodeUTF8 rest)"
proof -
  have seq: "utf8_sequence (encodeUTF8Char [] w)" for w :: "16 word"
  proof -
    define u where "u = unat (sanitize w)"
    have "u < 65536" using unat_16_less [of "sanitize w"] by (simp add: u_def)
    moreover obtain bs where bs: "encodeUTF8Char [] w = bs" "map unat bs =
        (if u < 128 then [u] else if u < 2048 then [192 + u div 64, 128 + u mod 64]
         else [224 + u div 4096, 128 + u div 64 mod 64, 128 + u mod 64])"
      using encode_char_16 [of "[]" w] by (auto simp: u_def)
    ultimately show ?thesis
      by (auto simp: utf8_sequence_def byte_class bs(1) map_eq_Cons_conv split: if_splits)
  qed
  have "length ws \<le> length (concat (map (encodeUTF8Char []) ws)) \<and>
      length (concat (map (encodeUTF8Char []) ws)) \<le> 3 * length ws"
  proof (induction ws)
    case (Cons w ws)
    then show ?case using seq [of w] by (simp add: utf8_sequence_def)
  qed simp
  moreover note encodeUTF8_concat [of ws] decode_encode_append [of ws rest]
  ultimately show ?thesis using seq by (simp only: list_all_iff) simp
qed

end
