(* ===== verification/Linked_List.thy ===== *)
theory Linked_List
  imports NF_Prelude
begin

text \<open>
  \<open>src/netfilter/linkedlist.h\<close>: the circular doubly linked list macros. The heap is the pair of
  link fields of every \<open>LIST_ENTRY\<close>; each macro is the sequence of field reads and writes of its
  body, in the order of the source. \<open>dll s h xs\<close> says that the cycle through the list head \<open>h\<close>
  visits exactly the distinct entries \<open>xs\<close>, in both directions; under it the macros are the
  operations of a double-ended queue, the interface \<open>intrusive_deque\<close>.
\<close>

record 'a link_heap =
  Flink :: "'a \<Rightarrow> 'a"
  Blink :: "'a \<Rightarrow> 'a"

definition InitializeListHead :: "'a \<Rightarrow> 'a link_heap \<Rightarrow> 'a link_heap" where
  "InitializeListHead ListHead s =
     (let s = s\<lparr>Blink := (Blink s)(ListHead := ListHead)\<rparr>
      in s\<lparr>Flink := (Flink s)(ListHead := Blink s ListHead)\<rparr>)"

definition IsListEmpty :: "'a \<Rightarrow> 'a link_heap \<Rightarrow> bool" where
  "IsListEmpty ListHead s \<longleftrightarrow> Flink s ListHead = ListHead"

definition RemoveEntryList :: "'a \<Rightarrow> 'a link_heap \<Rightarrow> 'a link_heap" where
  "RemoveEntryList Entry s =
     (let EX_Flink = Flink s Entry;
          EX_Blink = Blink s Entry;
          s = s\<lparr>Flink := (Flink s)(EX_Blink := EX_Flink)\<rparr>
      in s\<lparr>Blink := (Blink s)(EX_Flink := EX_Blink)\<rparr>)"

definition RemoveHeadList :: "'a \<Rightarrow> 'a link_heap \<Rightarrow> 'a \<times> 'a link_heap" where
  "RemoveHeadList ListHead s = (Flink s ListHead, RemoveEntryList (Flink s ListHead) s)"

definition RemoveTailList :: "'a \<Rightarrow> 'a link_heap \<Rightarrow> 'a \<times> 'a link_heap" where
  "RemoveTailList ListHead s = (Blink s ListHead, RemoveEntryList (Blink s ListHead) s)"

definition InsertTailList :: "'a \<Rightarrow> 'a \<Rightarrow> 'a link_heap \<Rightarrow> 'a link_heap" where
  "InsertTailList ListHead Entry s =
     (let EX_Blink = Blink s ListHead;
          s = s\<lparr>Flink := (Flink s)(Entry := ListHead)\<rparr>;
          s = s\<lparr>Blink := (Blink s)(Entry := EX_Blink)\<rparr>;
          s = s\<lparr>Flink := (Flink s)(EX_Blink := Entry)\<rparr>
      in s\<lparr>Blink := (Blink s)(ListHead := Entry)\<rparr>)"

definition InsertHeadList :: "'a \<Rightarrow> 'a \<Rightarrow> 'a link_heap \<Rightarrow> 'a link_heap" where
  "InsertHeadList ListHead Entry s =
     (let EX_Flink = Flink s ListHead;
          s = s\<lparr>Flink := (Flink s)(Entry := EX_Flink)\<rparr>;
          s = s\<lparr>Blink := (Blink s)(Entry := ListHead)\<rparr>;
          s = s\<lparr>Blink := (Blink s)(EX_Flink := Entry)\<rparr>
      in s\<lparr>Flink := (Flink s)(ListHead := Entry)\<rparr>)"

section \<open>The represented list\<close>

fun chain :: "'a link_heap \<Rightarrow> 'a list \<Rightarrow> bool" where
  "chain s (a # b # as) = (Flink s a = b \<and> Blink s b = a \<and> chain s (b # as))"
| "chain s as = True"

definition dll :: "'a link_heap \<Rightarrow> 'a \<Rightarrow> 'a list \<Rightarrow> bool" where
  "dll s h xs \<longleftrightarrow> distinct (h # xs) \<and> chain s (h # xs @ [h])"

lemma chain_append:
  "chain s (as @ a # b # bs) \<longleftrightarrow>
     chain s (as @ [a]) \<and> Flink s a = b \<and> Blink s b = a \<and> chain s (b # bs)"
proof (induction as)
  case (Cons x as)
  then show ?case by (cases as) auto
qed simp

lemma chain_cong:
  "\<forall>x \<in> set (butlast as). Flink s x = Flink s' x \<Longrightarrow>
   \<forall>x \<in> set (tl as). Blink s x = Blink s' x \<Longrightarrow> chain s as = chain s' as"
  by (induction s as rule: chain.induct) auto

lemma chain_mono:
  assumes "chain s as" "\<And>x. x \<in> set (butlast as) \<Longrightarrow> Flink s' x = Flink s x"
    "\<And>x. x \<in> set (tl as) \<Longrightarrow> Blink s' x = Blink s x"
  shows "chain s' as"
  using chain_cong [of as s' s] assms by simp

lemma dll_distinct: "dll s h xs \<Longrightarrow> distinct (h # xs)"
  by (simp add: dll_def)

text \<open>
  The neighbours of a position of the cycle: \<open>p\<close> before it and \<open>n\<close> after it (either may be the
  head), \<open>ps\<close> and \<open>ns\<close> the rest of the cycle on both sides.
\<close>

definition around :: "'a \<Rightarrow> 'a list \<Rightarrow> 'a list \<Rightarrow> 'a list \<Rightarrow> 'a \<Rightarrow> 'a \<Rightarrow> 'a list \<Rightarrow> bool" where
  "around h xs ys ps p n ns \<longleftrightarrow>
     h # xs = ps @ [p] \<and> ys @ [h] = n # ns \<and> distinct (h # xs @ ys)"

lemma around_ex: "distinct (h # xs @ ys) \<Longrightarrow> \<exists>ps ns. around h xs ys ps (last (h # xs)) (hd (ys @ [h])) ns"
  by (intro exI [of _ "butlast (h # xs)"] exI [of _ "tl (ys @ [h])"])
    (simp add: around_def del: last.simps butlast.simps)

lemma around_facts:
  assumes "around h xs ys ps p n ns"
  shows "butlast (ps @ [p]) = ps" "set ps \<subseteq> set (h # xs)" "p \<notin> set ps" "p \<in> set (h # xs)" "tl (ps @ [p]) = xs"
    "butlast (n # ns) = ys" "set ns \<subseteq> set (ys @ [h])" "n \<notin> set ns" "n \<in> set (ys @ [h])" "tl (n # ns) = ns"
    "n \<notin> set xs" "p \<notin> set ys"
proof -
  have e: "ps @ [p] = h # xs" "n # ns = ys @ [h]" and d: "distinct (h # xs @ ys)"
    using assms by (simp_all add: around_def)
  have s: "set ps \<union> {p} = set (h # xs)" "insert n (set ns) = set (ys @ [h])"
    using arg_cong [OF e(1), of set] arg_cong [OF e(2), of set] by auto
  have "distinct (ps @ [p])" "distinct (n # ns)"
    using d unfolding e by auto
  then show "p \<notin> set ps" "n \<notin> set ns" by auto
  show "tl (ps @ [p]) = xs" "butlast (n # ns) = ys"
    unfolding e by simp_all
  show "butlast (ps @ [p]) = ps" "tl (n # ns) = ns" by simp_all
  show p: "p \<in> set (h # xs)" and n: "n \<in> set (ys @ [h])"
    and "set ps \<subseteq> set (h # xs)" "set ns \<subseteq> set (ys @ [h])"
    using s by blast+
  show "n \<notin> set xs" "p \<notin> set ys"
    using p n d by auto
qed

lemma dll_around:
  assumes "around h xs ys ps p n ns"
  shows "dll s h (xs @ ys) \<longleftrightarrow>
    chain s (ps @ [p]) \<and> Flink s p = n \<and> Blink s n = p \<and> chain s (n # ns)"
    and "dll s h (xs @ e # ys) \<longleftrightarrow> e \<notin> set (h # xs @ ys) \<and>
    chain s (ps @ [p]) \<and> Flink s p = e \<and> Blink s e = p \<and> Flink s e = n \<and> Blink s n = e \<and>
    chain s (n # ns)"
proof -
  have eq: "h # (xs @ zs @ ys) @ [h] = ps @ p # zs @ n # ns" for zs
  proof -
    have "h # (xs @ zs @ ys) @ [h] = (h # xs) @ zs @ (ys @ [h])" by simp
    then show ?thesis
      using assms unfolding around_def by (metis append.assoc append_Cons append_Nil)
  qed
  have d: "distinct (h # xs @ ys)"
    using assms by (simp add: around_def)
  have "dll s h (xs @ ys) \<longleftrightarrow> chain s (ps @ p # n # ns)"
    using d eq [of "[]"] unfolding dll_def by simp
  then show "dll s h (xs @ ys) \<longleftrightarrow>
    chain s (ps @ [p]) \<and> Flink s p = n \<and> Blink s n = p \<and> chain s (n # ns)"
    by (simp only: chain_append)
  have "dll s h (xs @ e # ys) \<longleftrightarrow> e \<notin> set (h # xs @ ys) \<and> chain s (ps @ p # e # n # ns)"
    using d eq [of "[e]"] unfolding dll_def by auto
  then show "dll s h (xs @ e # ys) \<longleftrightarrow> e \<notin> set (h # xs @ ys) \<and>
    chain s (ps @ [p]) \<and> Flink s p = e \<and> Blink s e = p \<and> Flink s e = n \<and> Blink s n = e \<and>
    chain s (n # ns)"
    by (simp only: chain_append chain.simps)
qed

lemma around_chain:
  assumes a: "around h xs ys ps p n ns"
    and "chain s (ps @ [p])" "chain s (n # ns)"
    and F: "\<And>x. x \<in> set (h # xs @ ys) \<Longrightarrow> x \<noteq> p \<Longrightarrow> Flink s' x = Flink s x"
    and B: "\<And>x. x \<in> set (h # xs @ ys) \<Longrightarrow> x \<noteq> n \<Longrightarrow> Blink s' x = Blink s x"
  shows "chain s' (ps @ [p])" "chain s' (n # ns)"
proof -
  note f = around_facts [OF a]
  show "chain s' (ps @ [p])"
  proof (rule chain_mono [OF assms(2)])
    show "Flink s' x = Flink s x" if "x \<in> set (butlast (ps @ [p]))" for x
      using that f(2,3) unfolding f(1) by (intro F) auto
    show "Blink s' x = Blink s x" if "x \<in> set (tl (ps @ [p]))" for x
      using that f(11) unfolding f(5) by (intro B) auto
  qed
  show "chain s' (n # ns)"
  proof (rule chain_mono [OF assms(3)])
    show "Flink s' x = Flink s x" if "x \<in> set (butlast (n # ns))" for x
      using that f(12) unfolding f(6) by (intro F) auto
    show "Blink s' x = Blink s x" if "x \<in> set (tl (n # ns))" for x
      using that f(7,8) unfolding f(10) by (intro B) auto
  qed
qed

lemma dll_insert:
  assumes a: "around h xs ys ps p n ns" and d: "dll s h (xs @ ys)" and e: "e \<notin> set (h # xs @ ys)"
    and F: "Flink s' = (Flink s)(e := n, p := e)" and B: "Blink s' = (Blink s)(e := p, n := e)"
  shows "dll s' h (xs @ e # ys)"
proof -
  have c: "chain s (ps @ [p])" "chain s (n # ns)"
    using d unfolding dll_around [OF a] by simp_all
  have "chain s' (ps @ [p])" "chain s' (n # ns)"
    by (rule around_chain [OF a c]; use e in \<open>auto simp: F B\<close>)+
  moreover have "p \<noteq> e" "n \<noteq> e"
    using around_facts(4,9) [OF a] e by auto
  ultimately show ?thesis
    using e unfolding dll_around [OF a] by (simp add: F B)
qed

lemma dll_remove:
  assumes a: "around h xs ys ps p n ns" and d: "dll s h (xs @ e # ys)"
    and F: "Flink s' = (Flink s)(p := n)" and B: "Blink s' = (Blink s)(n := p)"
  shows "dll s' h (xs @ ys)"
proof -
  have c: "chain s (ps @ [p])" "chain s (n # ns)"
    using d unfolding dll_around [OF a] by simp_all
  have "chain s' (ps @ [p])" "chain s' (n # ns)"
    by (rule around_chain [OF a c]; auto simp: F B)+
  then show ?thesis
    unfolding dll_around [OF a] by (simp add: F B)
qed

section \<open>The macros as deque operations\<close>

lemma dll_init: "dll (InitializeListHead h s) h []"
  by (simp add: dll_def InitializeListHead_def)

lemma dll_is_empty: "dll s h xs \<Longrightarrow> IsListEmpty h s \<longleftrightarrow> xs = []"
  by (cases xs) (auto simp: dll_def IsListEmpty_def)

lemma dll_remove_entry:
  assumes d: "dll s h (xs @ e # ys)"
  shows "dll (RemoveEntryList e s) h (xs @ ys)"
proof -
  have "distinct (h # xs @ ys)" using dll_distinct [OF d] by auto
  then obtain ps p n ns where a: "around h xs ys ps p n ns"
    using around_ex by metis
  have "Flink s e = n" "Blink s e = p"
    using d unfolding dll_around [OF a] by simp_all
  then show ?thesis
    using a d by (intro dll_remove [OF a d]) (simp_all add: RemoveEntryList_def)
qed

lemma dll_insert_tail:
  assumes d: "dll s h xs" and e: "e \<notin> set (h # xs)"
  shows "dll (InsertTailList h e s) h (xs @ [e])"
proof -
  have "distinct (h # xs @ [])" using dll_distinct [OF d] by simp
  then obtain ps p n ns where a: "around h xs [] ps p n ns"
    using around_ex by metis
  have d': "dll s h (xs @ [])" using d by simp
  have n: "n = h" using around_facts(9) [OF a] by simp
  have "Blink s h = p"
    using d' n unfolding dll_around [OF a] by simp
  then show ?thesis
    using e n by (intro dll_insert [OF a d']) (auto simp: InsertTailList_def)
qed

lemma dll_insert_head:
  assumes d: "dll s h xs" and e: "e \<notin> set (h # xs)"
  shows "dll (InsertHeadList h e s) h (e # xs)"
proof -
  have "distinct (h # [] @ xs)" using dll_distinct [OF d] by simp
  then obtain ps p n ns where a: "around h [] xs ps p n ns"
    using around_ex by metis
  have d': "dll s h ([] @ xs)" using d by simp
  have p: "p = h" using around_facts(4) [OF a] by simp
  have n: "Flink s h = n"
    using d' p unfolding dll_around [OF a] by simp
  have "n \<noteq> e" using around_facts(9) [OF a] e by auto
  then have "dll (InsertHeadList h e s) h ([] @ e # xs)"
    using e n p by (intro dll_insert [OF a d']) (auto simp: InsertHeadList_def)
  then show ?thesis by simp
qed

lemma dll_remove_head:
  "dll s h (x # xs) \<Longrightarrow> fst (RemoveHeadList h s) = x \<and> dll (snd (RemoveHeadList h s)) h xs"
  using dll_remove_entry [of s h "[]" x xs] by (auto simp: RemoveHeadList_def dll_def)

lemma dll_remove_tail:
  assumes "dll s h (xs @ [x])"
  shows "fst (RemoveTailList h s) = x \<and> dll (snd (RemoveTailList h s)) h xs"
proof -
  have "chain s ((h # xs) @ x # h # [])"
    using assms by (simp add: dll_def)
  then have "Blink s h = x"
    by (simp only: chain_append)
  then show ?thesis
    using dll_remove_entry [of s h xs x "[]"] assms by (simp add: RemoveTailList_def)
qed

section \<open>Interface and clients\<close>

fun drain :: "('e \<Rightarrow> 's \<Rightarrow> 'e \<times> 's) \<Rightarrow> nat \<Rightarrow> 'e \<Rightarrow> 's \<Rightarrow> 'e list \<times> 's" where
  "drain remove 0 h s = ([], s)"
| "drain remove (Suc n) h s =
     (let (e, s) = remove h s; (es, s) = drain remove n h s in (e # es, s))"

locale intrusive_deque =
  fixes rep :: "'s \<Rightarrow> 'e \<Rightarrow> 'e list \<Rightarrow> bool"
    and init :: "'e \<Rightarrow> 's \<Rightarrow> 's"
    and is_empty :: "'e \<Rightarrow> 's \<Rightarrow> bool"
    and insert_tail insert_head :: "'e \<Rightarrow> 'e \<Rightarrow> 's \<Rightarrow> 's"
    and remove_head remove_tail :: "'e \<Rightarrow> 's \<Rightarrow> 'e \<times> 's"
    and remove_entry :: "'e \<Rightarrow> 's \<Rightarrow> 's"
  assumes rep_init: "rep (init h s) h []"
    and rep_is_empty: "rep s h xs \<Longrightarrow> is_empty h s \<longleftrightarrow> xs = []"
    and rep_insert_tail: "rep s h xs \<Longrightarrow> e \<notin> set (h # xs) \<Longrightarrow> rep (insert_tail h e s) h (xs @ [e])"
    and rep_insert_head: "rep s h xs \<Longrightarrow> e \<notin> set (h # xs) \<Longrightarrow> rep (insert_head h e s) h (e # xs)"
    and rep_remove_head: "rep s h (x # xs) \<Longrightarrow> fst (remove_head h s) = x \<and> rep (snd (remove_head h s)) h xs"
    and rep_remove_tail: "rep s h (xs @ [x]) \<Longrightarrow> fst (remove_tail h s) = x \<and> rep (snd (remove_tail h s)) h xs"
    and rep_remove_entry: "rep s h (xs @ e # ys) \<Longrightarrow> rep (remove_entry e s) h (xs @ ys)"
begin

lemma insert_tail_all:
  "rep s h xs \<Longrightarrow> distinct es \<Longrightarrow> set es \<inter> set (h # xs) = {} \<Longrightarrow>
   rep (fold (insert_tail h) es s) h (xs @ es)"
proof (induction es arbitrary: s xs)
  case (Cons e es)
  then have "rep (insert_tail h e s) h (xs @ [e])"
    by (intro rep_insert_tail) auto
  then have "rep (fold (insert_tail h) es (insert_tail h e s)) h ((xs @ [e]) @ es)"
    using Cons.prems by (intro Cons.IH) auto
  then show ?case by simp
qed simp

lemma insert_head_all:
  "rep s h xs \<Longrightarrow> distinct es \<Longrightarrow> set es \<inter> set (h # xs) = {} \<Longrightarrow>
   rep (fold (insert_head h) es s) h (rev es @ xs)"
proof (induction es arbitrary: s xs)
  case (Cons e es)
  then have "rep (insert_head h e s) h (e # xs)"
    by (intro rep_insert_head) auto
  then have "rep (fold (insert_head h) es (insert_head h e s)) h (rev es @ (e # xs))"
    using Cons.prems by (intro Cons.IH) auto
  then show ?case by simp
qed simp

lemma drain_head:
  "rep s h (xs @ ys) \<Longrightarrow> fst (drain remove_head (length xs) h s) = xs
     \<and> rep (snd (drain remove_head (length xs) h s)) h ys"
proof (induction xs arbitrary: s)
  case (Cons x xs)
  then have "fst (remove_head h s) = x" "rep (snd (remove_head h s)) h (xs @ ys)"
    using rep_remove_head [of s h x "xs @ ys"] by auto
  with Cons.IH [of "snd (remove_head h s)"] show ?case
    by (simp add: split_def Let_def)
qed simp

lemma fifo:
  assumes "distinct (h # es)"
  shows "fst (drain remove_head (length es) h (fold (insert_tail h) es (init h s))) = es"
  using assms insert_tail_all [OF rep_init, of es h s]
    drain_head [of "fold (insert_tail h) es (init h s)" h es "[]"] by simp

lemma lifo:
  assumes "distinct (h # es)"
  shows "fst (drain remove_head (length es) h (fold (insert_head h) es (init h s))) = rev es"
  using assms insert_head_all [OF rep_init, of es h s]
    drain_head [of "fold (insert_head h) es (init h s)" h "rev es" "[]"] by simp

end

interpretation ll: intrusive_deque dll InitializeListHead IsListEmpty InsertTailList InsertHeadList
    RemoveHeadList RemoveTailList RemoveEntryList
  by unfold_locales
    (rule dll_init | erule dll_is_empty | erule (1) dll_insert_tail dll_insert_head
      | erule dll_remove_head dll_remove_tail dll_remove_entry)+

section \<open>Separation: other lists are untouched\<close>

lemma dll_links_in:
  assumes "dll s h xs"
  shows "Blink s h \<in> set (h # xs)" "Flink s h \<in> set (h # xs)"
proof -
  have d: "dll s h (xs @ [])" "dll s h ([] @ xs)" using assms by simp_all
  have di: "distinct (h # xs @ [])" "distinct (h # [] @ xs)" using dll_distinct [OF assms] by simp_all
  obtain ps p n ns where a: "around h xs [] ps p n ns" using around_ex [OF di(1)] by metis
  show "Blink s h \<in> set (h # xs)"
    using d(1) around_facts(4,9) [OF a] unfolding dll_around [OF a] by auto
  obtain ps p n ns where b: "around h [] xs ps p n ns" using around_ex [OF di(2)] by metis
  show "Flink s h \<in> set (h # xs)"
    using d(2) around_facts(4,9) [OF b] unfolding dll_around [OF b] by auto
qed

lemma dll_entry_links_in:
  assumes "dll s h (xs @ e # ys)"
  shows "Blink s e \<in> set (h # xs @ ys)" "Flink s e \<in> set (h # xs @ ys)"
proof -
  have di: "distinct (h # xs @ ys)" using dll_distinct [OF assms] by simp
  obtain ps p n ns where a: "around h xs ys ps p n ns" using around_ex [OF di] by metis
  show "Blink s e \<in> set (h # xs @ ys)" "Flink s e \<in> set (h # xs @ ys)"
    using assms around_facts(4,9) [OF a] unfolding dll_around [OF a] by auto
qed

lemma dll_frame:
  assumes "dll s k zs" "\<And>x. x \<in> set (k # zs) \<Longrightarrow> Flink s' x = Flink s x \<and> Blink s' x = Blink s x"
  shows "dll s' k zs"
proof -
  have "chain s (k # zs @ [k])" using assms(1) by (simp add: dll_def)
  then have "chain s' (k # zs @ [k])"
    by (rule chain_mono) (use assms(2) in \<open>auto dest: in_set_butlastD\<close>)
  then show ?thesis using assms(1) by (simp add: dll_def)
qed

lemma insert_tail_frame:
  assumes d: "dll s h xs" and o: "dll s k zs" and sep: "set (k # zs) \<inter> set (h # xs) = {}"
    and e: "e \<notin> set (k # zs)"
  shows "dll (InsertTailList h e s) k zs"
proof (rule dll_frame [OF o])
  fix x assume x: "x \<in> set (k # zs)"
  have "x \<noteq> e" "x \<noteq> h" "x \<noteq> Blink s h"
    using x e sep dll_links_in(1) [OF d] by (blast intro: list.set_intros)+
  then show "Flink (InsertTailList h e s) x = Flink s x \<and> Blink (InsertTailList h e s) x = Blink s x"
    by (simp add: InsertTailList_def Let_def)
qed

lemma remove_entry_frame:
  assumes d: "dll s h (xs @ e # ys)" and o: "dll s k zs"
    and sep: "set (k # zs) \<inter> set (h # xs @ ys) = {}"
  shows "dll (RemoveEntryList e s) k zs"
proof (rule dll_frame [OF o])
  fix x assume x: "x \<in> set (k # zs)"
  have "x \<noteq> Flink s e" "x \<noteq> Blink s e"
    using x sep dll_entry_links_in [OF d] by blast+
  then show "Flink (RemoveEntryList e s) x = Flink s x \<and> Blink (RemoveEntryList e s) x = Blink s x"
    by (simp add: RemoveEntryList_def Let_def)
qed

section \<open>Properties\<close>

text \<open>
  C25: entries put on an initialised list with InsertTailList come back from RemoveHeadList in
  the order they were put on, whatever the links of the heap held before.
\<close>

theorem linked_list_fifo:
  assumes "distinct (h # es)"
  shows "fst (drain RemoveHeadList (length es) h
      (fold (InsertTailList h) es (InitializeListHead h s))) = es"
  using assms by (rule ll.fifo)

theorem linked_list_fifo_witness:
  "fst (drain RemoveHeadList 3 (0 :: nat)
      (fold (InsertTailList 0) [5, 2, 9] (InitializeListHead 0 \<lparr>Flink = id, Blink = id\<rparr>))) = [5, 2, 9]"
  using linked_list_fifo [of "0 :: nat" "[5, 2, 9]" "\<lparr>Flink = id, Blink = id\<rparr>"]
  by (simp add: numeral_3_eq_3)

text \<open>
  C31: RemoveEntryList takes exactly the given entry out of its list, wherever it stands, and
  leaves every other list of the same heap as it was.
\<close>

theorem linked_list_remove_entry:
  assumes "dll s h (xs @ e # ys)" and "dll s k zs" and "set (k # zs) \<inter> set (h # xs @ ys) = {}"
  shows "dll (RemoveEntryList e s) h (xs @ ys) \<and> dll (RemoveEntryList e s) k zs"
  using dll_remove_entry [OF assms(1)] remove_entry_frame [OF assms] by simp

theorem linked_list_remove_entry_witness:
  "\<exists>s. dll s (0 :: nat) ([1] @ 2 # [3]) \<and>
     dll (RemoveEntryList 2 s) 0 ([1] @ [3]) \<and> dll (RemoveEntryList 2 s) 7 [8]"
proof -
  let ?s = "fold (InsertTailList 0) [1, 2, 3] (InitializeListHead 0
    (InsertTailList 7 8 (InitializeListHead 7 \<lparr>Flink = id, Blink = id\<rparr>))) :: nat link_heap"
  have "dll ?s 0 ([1] @ 2 # [3])" "dll ?s 7 [8]"
    by (simp_all add: dll_def InsertTailList_def InitializeListHead_def Let_def)
  then show ?thesis
    using linked_list_remove_entry [of ?s 0 "[1]" 2 "[3]" 7 "[8]"] by auto
qed

end
