(* ===== verification/NF_Types.thy ===== *)
theory NF_Types
  imports NF_Prelude
begin

text \<open>
  The data of the filter driver's interface that the plugin fills in or reads
  (\<open>src/netfilter/include/nfdriver.h\<close>, \<open>nfevents.h\<close>): filtering flags, rules, connection
  properties and UDP options. Each packed C structure is a record with the same fields; an
  address field is the array of its bytes, so its length is part of the well-formedness
  predicates \<open>tcp_conn_info_ok\<close> and \<open>udp_conn_info_ok\<close>.
\<close>

type_synonym wstring = "u16 list"
type_synonym ENDPOINT_ID = u64

section \<open>Constants\<close>

datatype NF_STATUS =
    NF_STATUS_SUCCESS | NF_STATUS_FAIL | NF_STATUS_INVALID_ENDPOINT_ID
  | NF_STATUS_NOT_INITIALIZED | NF_STATUS_IO_ERROR | NF_STATUS_REBOOT_REQUIRED

fun status_code :: "NF_STATUS \<Rightarrow> u64" where
  "status_code NF_STATUS_SUCCESS = 0"
| "status_code NF_STATUS_FAIL = -1"
| "status_code NF_STATUS_INVALID_ENDPOINT_ID = -2"
| "status_code NF_STATUS_NOT_INITIALIZED = -3"
| "status_code NF_STATUS_IO_ERROR = -4"
| "status_code NF_STATUS_REBOOT_REQUIRED = -5"

datatype NF_DIRECTION = NF_D_IN | NF_D_OUT | NF_D_BOTH

fun direction_code :: "NF_DIRECTION \<Rightarrow> byte" where
  "direction_code NF_D_IN = 1"
| "direction_code NF_D_OUT = 2"
| "direction_code NF_D_BOTH = 3"

datatype NF_FILTERING_FLAG =
    NF_ALLOW | NF_BLOCK | NF_FILTER | NF_SUSPENDED | NF_OFFLINE | NF_INDICATE_CONNECT_REQUESTS
  | NF_DISABLE_REDIRECT_PROTECTION | NF_PEND_CONNECT_REQUEST | NF_FILTER_AS_IP_PACKETS
  | NF_READONLY | NF_CONTROL_FLOW | NF_REDIRECT

fun flag_value :: "NF_FILTERING_FLAG \<Rightarrow> u32" where
  "flag_value NF_ALLOW = 0"
| "flag_value NF_BLOCK = 1"
| "flag_value NF_FILTER = 2"
| "flag_value NF_SUSPENDED = 4"
| "flag_value NF_OFFLINE = 8"
| "flag_value NF_INDICATE_CONNECT_REQUESTS = 16"
| "flag_value NF_DISABLE_REDIRECT_PROTECTION = 32"
| "flag_value NF_PEND_CONNECT_REQUEST = 64"
| "flag_value NF_FILTER_AS_IP_PACKETS = 128"
| "flag_value NF_READONLY = 256"
| "flag_value NF_CONTROL_FLOW = 512"
| "flag_value NF_REDIRECT = 1024"

definition NF_MAX_ADDRESS_LENGTH :: nat where "NF_MAX_ADDRESS_LENGTH = 28"
definition NF_MAX_IP_ADDRESS_LENGTH :: nat where "NF_MAX_IP_ADDRESS_LENGTH = 16"
definition AF_INET :: u16 where "AF_INET = 2"
definition AF_INET6 :: u16 where "AF_INET6 = 23"
definition IPPROTO_TCP :: u32 where "IPPROTO_TCP = 6"
definition IPPROTO_UDP :: u32 where "IPPROTO_UDP = 17"
definition MAX_PATH :: nat where "MAX_PATH = 260"

lemma af_distinct [simp]: "AF_INET \<noteq> AF_INET6" "AF_INET6 \<noteq> AF_INET"
  by (simp_all add: AF_INET_def AF_INET6_def)

section \<open>Rules\<close>

record NF_RULE =
  protocol :: u32
  processId :: u32
  direction :: byte
  localPort :: u16
  remotePort :: u16
  ip_family :: u16
  localIpAddress :: bytes
  localIpAddressMask :: bytes
  remoteIpAddress :: bytes
  remoteIpAddressMask :: bytes
  filteringFlag :: u32

record NF_PORT_RANGE =
  valueLow :: u16
  valueHigh :: u16

record NF_RULE_EX = NF_RULE +
  processName :: wstring
  localPortRange :: NF_PORT_RANGE
  remotePortRange :: NF_PORT_RANGE
  redirectTo :: bytes
  localProxyProcessId :: u32

text \<open>\<open>memset (&rule, 0, sizeof (rule))\<close>.\<close>

definition zero_rule :: NF_RULE where
  "zero_rule =
     \<lparr>protocol = 0, processId = 0, direction = 0, localPort = 0, remotePort = 0, ip_family = 0,
      localIpAddress = replicate NF_MAX_IP_ADDRESS_LENGTH 0,
      localIpAddressMask = replicate NF_MAX_IP_ADDRESS_LENGTH 0,
      remoteIpAddress = replicate NF_MAX_IP_ADDRESS_LENGTH 0,
      remoteIpAddressMask = replicate NF_MAX_IP_ADDRESS_LENGTH 0,
      filteringFlag = 0\<rparr>"

definition zero_rule_ex :: NF_RULE_EX where
  "zero_rule_ex = NF_RULE.extend zero_rule
     \<lparr>processName = replicate MAX_PATH 0,
      localPortRange = \<lparr>valueLow = 0, valueHigh = 0\<rparr>,
      remotePortRange = \<lparr>valueLow = 0, valueHigh = 0\<rparr>,
      redirectTo = replicate NF_MAX_ADDRESS_LENGTH 0,
      localProxyProcessId = 0\<rparr>"

section \<open>Connections\<close>

record NF_TCP_CONN_INFO =
  ci_filteringFlag :: u32
  ci_processId :: u32
  ci_direction :: byte
  ci_ip_family :: u16
  ci_localAddress :: bytes
  ci_remoteAddress :: bytes

record NF_UDP_CONN_INFO =
  ui_processId :: u32
  ui_ip_family :: u16
  ui_localAddress :: bytes

definition tcp_conn_info_ok :: "NF_TCP_CONN_INFO \<Rightarrow> bool" where
  "tcp_conn_info_ok c \<longleftrightarrow> length (ci_localAddress c) = NF_MAX_ADDRESS_LENGTH
     \<and> length (ci_remoteAddress c) = NF_MAX_ADDRESS_LENGTH"

definition udp_conn_info_ok :: "NF_UDP_CONN_INFO \<Rightarrow> bool" where
  "udp_conn_info_ok c \<longleftrightarrow> length (ui_localAddress c) = NF_MAX_ADDRESS_LENGTH"

text \<open>
  \<open>NF_UDP_OPTIONS\<close> is two 4-byte fields and an array of declared length 1; the driver passes it
  followed by the rest of the options, so in memory it is 8 header bytes and \<open>optionsLength\<close>
  option bytes.
\<close>

record NF_UDP_OPTIONS =
  flags :: u32
  optionsLength :: u32
  options :: bytes

definition sizeof_NF_UDP_OPTIONS :: nat where "sizeof_NF_UDP_OPTIONS = 9"

definition enc_NF_UDP_OPTIONS :: "NF_UDP_OPTIONS \<Rightarrow> bytes" where
  "enc_NF_UDP_OPTIONS opt = le32 (flags opt) @ le32 (optionsLength opt) @ options opt"

end
