(* ===== verification/Platform.thy ===== *)
theory Platform
  imports NF_Types
begin

text \<open>
  The boundary of the program. Code outside the repository (Windows, Winsock, the C++ thread
  primitives, the filter driver's library \<open>nfapi\<close>, Qt) is not modelled: a call to it is an element
  of the datatype \<open>api\<close> (grouped as
  \<open>Sync\<close>, \<open>Net\<close> and \<open>Nf\<close> calls), what it answers is a parameter \<open>env\<close>, and every call is appended with its
  answer to the \<open>trace\<close> of the state. The answer may depend on everything called before, so a theorem
  for every \<open>env\<close> holds for every behaviour of the platform.

  The field \<open>inflight\<close> is a ledger of the overlapped requests the platform has accepted (a call
  that returned success or \<open>ERROR_IO_PENDING\<close>, or a posted completion) and whose completion has not
  been delivered; the code never reads it.
\<close>

type_synonym sock = u64
type_synonym handle = u64
type_synonym ovp = nat

definition INVALID_SOCKET :: sock where "INVALID_SOCKET = -1"
definition INVALID_HANDLE_VALUE :: handle where "INVALID_HANDLE_VALUE = -1"
definition ERROR_IO_PENDING :: u64 where "ERROR_IO_PENDING = 997"
definition WAIT_TIMEOUT :: u32 where "WAIT_TIMEOUT = 258"

datatype lock_id = ProxyCs | HandlerLock

datatype socktype = SOCK_STREAM | SOCK_DGRAM

datatype protocol_name = P_TCP | P_UDP

datatype sync_call =
    Acquire lock_id | Release lock_id
  | CloseHandle handle | CreateEvent | SetEvent handle | ResetEvent handle
  | WaitForSingleObject handle | WaitForMultipleObjects "handle list" | BeginThread | GetSystemInfo

datatype net_call =
    CreateIoCompletionPort handle handle u64
  | PostQueuedCompletionStatus handle u32 sock ovp
  | WSAStartup | WSACleanup | Socket socktype | WSASocket socktype | Shutdown sock | Closesocket sock | WSAIoctl sock
  | SetSockOpt sock | Bind sock | WSAGetLastError
  | ConnectEx sock bytes ovp
  | WSASend sock bytes ovp
  | WSASendTo sock bytes bytes ovp
  | WSARecv sock ovp | WSARecvFrom sock ovp

datatype nf_call =
    TcpPostSend ENDPOINT_ID bytes int | TcpPostReceive ENDPOINT_ID bytes int
  | TcpDisableFiltering ENDPOINT_ID
  | UdpPostSend ENDPOINT_ID bytes bytes int "bytes option"
  | UdpPostReceive ENDPOINT_ID bytes bytes int "bytes option"
  | Init | Free | AddRule NF_RULE bool | AddRuleEx NF_RULE_EX bool

datatype api =
    Sync sync_call | Net net_call | Nf nf_call
  | DoLog ENDPOINT_ID protocol_name bool wstring wstring u32 wstring

type_synonym trace = "(api \<times> u64) list"

text \<open>
  The environment: the answer to each call, and the results of the pure conversions the code asks
  the platform for (\<open>None\<close> is failure).
\<close>

record env =
  os :: "trace \<Rightarrow> api \<Rightarrow> u64"
  string_to_address :: "wstring \<Rightarrow> u16 \<Rightarrow> bytes option"
  address_to_string :: "bytes \<Rightarrow> wstring"
  inet_pton :: "u16 \<Rightarrow> string \<Rightarrow> bytes option"
  process_name :: "u32 \<Rightarrow> wstring option"

record world =
  trace :: trace
  inflight :: "ovp list"

definition sys :: "env \<Rightarrow> api \<Rightarrow> 'a world_scheme \<Rightarrow> u64 \<times> 'a world_scheme" where
  "sys E c s = (let r = os E (trace s) c in (r, s\<lparr>trace := trace s @ [(c, r)]\<rparr>))"

definition emit :: "env \<Rightarrow> api \<Rightarrow> 'a world_scheme \<Rightarrow> 'a world_scheme" where
  "emit E c s = snd (sys E c s)"

lemma sys_fst [simp]: "fst (sys E c s) = os E (trace s) c"
  by (simp add: sys_def Let_def)

lemma sys_snd: "snd (sys E c s) = s\<lparr>trace := trace s @ [(c, os E (trace s) c)]\<rparr>"
  by (simp add: sys_def Let_def)

lemma emit_eq: "emit E c s = s\<lparr>trace := trace s @ [(c, os E (trace s) c)]\<rparr>"
  by (simp add: emit_def sys_snd)

text \<open>
  Environments for closed examples: the answer is a function of the call, and every conversion
  fails.
\<close>

definition call_env :: "(api \<Rightarrow> u64) \<Rightarrow> env" where
  "call_env f = \<lparr>os = \<lambda>_ c. f c, string_to_address = \<lambda>_ _. None, address_to_string = \<lambda>_. [],
     inet_pton = \<lambda>_ _. None, process_name = \<lambda>_. None\<rparr>"

definition zero_env :: env where
  "zero_env = call_env (\<lambda>_. 0)"

lemma os_call_env [simp]: "os (call_env f) tr c = f c" "os zero_env tr c = 0"
  by (simp_all add: call_env_def zero_env_def)

section \<open>Socket addresses\<close>

text \<open>
  \<open>sockaddr_in\<close> (16 bytes) and \<open>sockaddr_in6\<close> (28 bytes) as the code lays them in its byte
  arrays: family at 0, port at 2, the IPv4 address at 4, the IPv6 address at 8. Ports and
  addresses are copied in network byte order and never converted.
\<close>

definition sizeof_sockaddr_in :: nat where "sizeof_sockaddr_in = 16"
definition sizeof_sockaddr_in6 :: nat where "sizeof_sockaddr_in6 = 28"

definition sa_family :: "bytes \<Rightarrow> u16 option" where "sa_family a = rd16 0 a"
definition sin_port :: "bytes \<Rightarrow> u16 option" where "sin_port a = rd16 2 a"
definition sin_addr :: "bytes \<Rightarrow> u32 option" where "sin_addr a = rd32 4 a"
definition sin6_addr :: "bytes \<Rightarrow> bytes option" where "sin6_addr a = rdn 8 16 a"

definition mk_sockaddr_in :: "u16 \<Rightarrow> u32 \<Rightarrow> bytes" where
  "mk_sockaddr_in port addr = le16 AF_INET @ le16 port @ le32 addr @ replicate 8 0"

definition mk_sockaddr_in6 :: "u16 \<Rightarrow> bytes \<Rightarrow> bytes" where
  "mk_sockaddr_in6 port addr = le16 AF_INET6 @ le16 port @ replicate 4 0 @ addr @ replicate 4 0"

lemma length_mk_sockaddr [simp, size_simps]:
  "length (mk_sockaddr_in port addr) = 16"
  "length (mk_sockaddr_in6 port a6) = 12 + length a6"
  by (simp_all add: mk_sockaddr_in_def mk_sockaddr_in6_def)

lemma sockaddr_in_fields [simp]:
  "sa_family (mk_sockaddr_in port addr) = Some AF_INET"
  "sin_port (mk_sockaddr_in port addr) = Some port"
  "sin_addr (mk_sockaddr_in port addr) = Some addr"
  by (simp_all add: mk_sockaddr_in_def sa_family_def sin_port_def sin_addr_def rd16_def rd32_def
      le16_def le32_def)

lemma sockaddr_in6_fields [simp]:
  "sa_family (mk_sockaddr_in6 port a6) = Some AF_INET6"
  "sin_port (mk_sockaddr_in6 port a6) = Some port"
  "length a6 = 16 \<Longrightarrow> sin6_addr (mk_sockaddr_in6 port a6) = Some a6"
    apply (simp_all add: mk_sockaddr_in6_def sa_family_def sin_port_def rd16_def le16_def)
  apply (simp add: sin6_addr_def rdn_def)
  done

lemma sockaddr_total [simp]:
  "sa_family a = None \<longleftrightarrow> length a < 2"
  "sin_port a = None \<longleftrightarrow> length a < 4"
  "sin_addr a = None \<longleftrightarrow> length a < 8"
  "sin6_addr a = None \<longleftrightarrow> length a < 24"
  by (simp_all add: sa_family_def sin_port_def sin_addr_def sin6_addr_def) auto

section \<open>Overlapped requests\<close>

text \<open>
  The pattern of every overlapped call of the code: the request is accepted when the call reports
  success (\<open>ok\<close>) or fails with \<open>ERROR_IO_PENDING\<close>; then its completion will be delivered later.
\<close>

definition submit :: "env \<Rightarrow> (u64 \<Rightarrow> bool) \<Rightarrow> api \<Rightarrow> ovp \<Rightarrow> 'a world_scheme \<Rightarrow> bool \<times> 'a world_scheme" where
  "submit E ok c pov s =
     (let (r, s) = sys E c s
      in if ok r then (True, s\<lparr>inflight := inflight s @ [pov]\<rparr>)
         else let (err, s) = sys E (Net WSAGetLastError) s
              in if err \<noteq> ERROR_IO_PENDING then (False, s)
                 else (True, s\<lparr>inflight := inflight s @ [pov]\<rparr>))"

section \<open>Lock discipline of a trace\<close>

text \<open>
  \<open>CRITICAL_SECTION\<close> is recursive, \<open>std::mutex\<close> is not. \<open>lock_run\<close> replays the lock calls of a
  trace from a state (depth of the critical section, mutex held); it is \<open>None\<close> when the mutex is
  taken twice, when it is taken while the critical section is held (the order that could deadlock
  with the other one), or when a lock is released that is not held.
\<close>

definition lock_act :: "api \<Rightarrow> nat \<times> bool \<Rightarrow> (nat \<times> bool) option" where
  "lock_act c l =
     (if c = Sync (Acquire ProxyCs) then Some (Suc (fst l), snd l)
      else if c = Sync (Release ProxyCs) then (if fst l = 0 then None else Some (fst l - 1, snd l))
      else if c = Sync (Acquire HandlerLock) then (if snd l \<or> fst l \<noteq> 0 then None else Some (fst l, True))
      else if c = Sync (Release HandlerLock) then (if snd l then Some (fst l, False) else None)
      else Some l)"

fun lock_run :: "trace \<Rightarrow> nat \<times> bool \<Rightarrow> (nat \<times> bool) option" where
  "lock_run [] l = Some l"
| "lock_run ((c, r) # tr) l = Option.bind (lock_act c l) (lock_run tr)"

lemma lock_run_append: "lock_run (xs @ ys) l = Option.bind (lock_run xs l) (lock_run ys)"
  by (induction xs l rule: lock_run.induct) (auto split: Option.bind_splits)

end
