(* ===== verification/Sync.thy ===== *)
theory Sync
  imports Platform
begin

text \<open>
  \<open>src/netfilter/sync.h\<close>: \<open>CriticalSection\<close>, the scope guard \<open>AutoLock\<close>, the owning handle
  \<open>AutoHandle\<close> and \<open>AutoEventHandle\<close>. \<open>AutoHandle\<close> objects live at addresses (\<open>m_h\<close> maps an
  object's address to its handle), so that the aliasing test of the assignment operator means
  what it means in the code.
\<close>

section \<open>CriticalSection and AutoLock\<close>

definition S_OK :: u32 where "S_OK = 0"

definition CriticalSection_Lock :: "env \<Rightarrow> lock_id \<Rightarrow> 'a world_scheme \<Rightarrow> u32 \<times> 'a world_scheme" where
  "CriticalSection_Lock E cs s = (S_OK, emit E (Sync (Acquire cs)) s)"

definition CriticalSection_Unlock :: "env \<Rightarrow> lock_id \<Rightarrow> 'a world_scheme \<Rightarrow> u32 \<times> 'a world_scheme" where
  "CriticalSection_Unlock E cs s = (S_OK, emit E (Sync (Release cs)) s)"

text \<open>
  A scope \<open>{ AutoLock lock (cs); body }\<close>: the constructor locks, the destructor unlocks on every
  way out of the body that returns. The second form is for bodies that may fail.
\<close>

definition AutoLock :: "env \<Rightarrow> lock_id \<Rightarrow> ('a world_scheme \<Rightarrow> 'r \<times> 'a world_scheme) \<Rightarrow>
    'a world_scheme \<Rightarrow> 'r \<times> 'a world_scheme" where
  "AutoLock E cs body s =
     (let s = snd (CriticalSection_Lock E cs s);
          (r, s) = body s;
          s = snd (CriticalSection_Unlock E cs s)
      in (r, s))"

definition AutoLock_opt :: "env \<Rightarrow> lock_id \<Rightarrow> ('a world_scheme \<Rightarrow> ('r \<times> 'a world_scheme) option) \<Rightarrow>
    'a world_scheme \<Rightarrow> ('r \<times> 'a world_scheme) option" where
  "AutoLock_opt E cs body s = do {
     (r, s) \<leftarrow> body (snd (CriticalSection_Lock E cs s));
     Some (r, snd (CriticalSection_Unlock E cs s))
   }"

text \<open>
  \<open>balanced l s s'\<close>: the calls made between \<open>s\<close> and \<open>s'\<close> respect the lock discipline when
  started with the locks \<open>l\<close> held, and give back exactly what they took.
\<close>

definition balanced :: "nat \<times> bool \<Rightarrow> 'a world_scheme \<Rightarrow> 'b world_scheme \<Rightarrow> bool" where
  "balanced l s s' \<longleftrightarrow> (\<exists>tr. trace s' = trace s @ tr \<and> lock_run tr l = Some l)"

named_theorems balanced_intros \<open>lock discipline of the operations\<close>

lemma balanced_refl [simp, balanced_intros]: "balanced l s s"
  by (simp add: balanced_def)

lemma balanced_same_trace: "trace s' = trace s \<Longrightarrow> balanced l s s'"
  by (simp add: balanced_def)

lemma balanced_trans [trans]: "balanced l s t \<Longrightarrow> balanced l t u \<Longrightarrow> balanced l s u"
  unfolding balanced_def by (metis append.assoc bind.bind_lunit lock_run_append)

lemma balanced_emit:
  "lock_act c l = Some l \<Longrightarrow> balanced l s (emit E c s)"
  by (auto simp: balanced_def emit_eq)

lemma balanced_sys:
  "lock_act c l = Some l \<Longrightarrow> balanced l s (snd (sys E c s))"
  by (auto simp: balanced_def sys_snd)

lemma balanced_cs:
  assumes "balanced (Suc d, m) (emit E (Sync (Acquire ProxyCs)) s) t"
  shows "balanced (d, m) s (emit E (Sync (Release ProxyCs)) t)"
  using assms by (auto simp: balanced_def emit_eq lock_run_append lock_act_def)

lemma balanced_mutex:
  assumes "balanced (0, True) (emit E (Sync (Acquire HandlerLock)) s) t"
  shows "balanced (0, False) s (emit E (Sync (Release HandlerLock)) t)"
  using assms by (auto simp: balanced_def emit_eq lock_run_append lock_act_def)

lemma balanced_AutoLock:
  assumes "\<And>s. balanced (Suc d, m) s (snd (body s))"
  shows "balanced (d, m) s (snd (AutoLock E ProxyCs body s))"
  using balanced_cs [OF assms [of "emit E (Sync (Acquire ProxyCs)) s"]]
  by (simp add: AutoLock_def CriticalSection_Lock_def CriticalSection_Unlock_def split_def Let_def)

section \<open>AutoHandle\<close>

record hworld = world +
  m_h :: "nat \<Rightarrow> handle"

definition AutoHandle_ctor :: "nat \<Rightarrow> 'a hworld_scheme \<Rightarrow> 'a hworld_scheme" where
  "AutoHandle_ctor this s = s\<lparr>m_h := (m_h s)(this := INVALID_HANDLE_VALUE)\<rparr>"

definition AutoHandle_ctor_handle :: "nat \<Rightarrow> handle \<Rightarrow> 'a hworld_scheme \<Rightarrow> 'a hworld_scheme" where
  "AutoHandle_ctor_handle this h s = s\<lparr>m_h := (m_h s)(this := h)\<rparr>"

definition Attach :: "nat \<Rightarrow> handle \<Rightarrow> 'a hworld_scheme \<Rightarrow> 'a hworld_scheme" where
  "Attach this h s = s\<lparr>m_h := (m_h s)(this := h)\<rparr>"

definition Detach :: "nat \<Rightarrow> 'a hworld_scheme \<Rightarrow> handle \<times> 'a hworld_scheme" where
  "Detach this s = (m_h s this, s\<lparr>m_h := (m_h s)(this := INVALID_HANDLE_VALUE)\<rparr>)"

definition Close :: "env \<Rightarrow> nat \<Rightarrow> 'a hworld_scheme \<Rightarrow> 'a hworld_scheme" where
  "Close E this s =
     (if m_h s this \<noteq> INVALID_HANDLE_VALUE
      then let s = emit E (Sync (CloseHandle (m_h s this))) s
           in s\<lparr>m_h := (m_h s)(this := INVALID_HANDLE_VALUE)\<rparr>
      else s)"

definition AutoHandle_copy_ctor :: "nat \<Rightarrow> nat \<Rightarrow> 'a hworld_scheme \<Rightarrow> 'a hworld_scheme" where
  "AutoHandle_copy_ctor this h s =
     (let s = s\<lparr>m_h := (m_h s)(this := INVALID_HANDLE_VALUE)\<rparr>;
          (v, s) = Detach h s
      in Attach this v s)"

definition AutoHandle_assign :: "env \<Rightarrow> nat \<Rightarrow> nat \<Rightarrow> 'a hworld_scheme \<Rightarrow> 'a hworld_scheme" where
  "AutoHandle_assign E this h s =
     (if this \<noteq> h
      then let s = (if m_h s this \<noteq> INVALID_HANDLE_VALUE then Close E this s else s);
               (v, s) = Detach h s
           in Attach this v s
      else s)"

definition AutoHandle_dtor :: "env \<Rightarrow> nat \<Rightarrow> 'a hworld_scheme \<Rightarrow> 'a hworld_scheme" where
  "AutoHandle_dtor E this s =
     (if m_h s this \<noteq> INVALID_HANDLE_VALUE then Close E this s else s)"

definition AutoEventHandle_ctor :: "env \<Rightarrow> nat \<Rightarrow> 'a hworld_scheme \<Rightarrow> 'a hworld_scheme" where
  "AutoEventHandle_ctor E this s =
     (let s = AutoHandle_ctor this s;
          (h, s) = sys E (Sync CreateEvent) s
      in s\<lparr>m_h := (m_h s)(this := h)\<rparr>)"

definition AutoEventHandle_dtor :: "env \<Rightarrow> nat \<Rightarrow> 'a hworld_scheme \<Rightarrow> 'a hworld_scheme" where
  "AutoEventHandle_dtor E this s = AutoHandle_dtor E this (Close E this s)"

lemma Close_invalid [simp]: "m_h s this = INVALID_HANDLE_VALUE \<Longrightarrow> Close E this s = s"
  by (simp add: Close_def)

lemma Close_idem [simp]: "Close E this (Close E this s) = Close E this s"
  by (simp add: Close_def Let_def emit_eq)

lemma AutoEventHandle_dtor_Close: "AutoEventHandle_dtor E this s = Close E this s"
  by (simp add: AutoEventHandle_dtor_def AutoHandle_dtor_def)

section \<open>Ownership\<close>

text \<open>
  Runs of handle objects: the class operations, and the creation of a handle outside
  (\<open>ah_attach\<close>: any handle that is not closed and that no object owns).
\<close>

definition closed_handles :: "trace \<Rightarrow> handle list" where
  "closed_handles tr = List.map_filter
     (\<lambda>(c, r). case c of Sync (CloseHandle h) \<Rightarrow> Some h | _ \<Rightarrow> None) tr"

lemma closed_handles_append [simp]: "closed_handles (xs @ ys) = closed_handles xs @ closed_handles ys"
  by (simp add: closed_handles_def map_filter_def)

lemma closed_handles_single [simp]:
  "closed_handles [(c, r)] = (case c of Sync (CloseHandle h) \<Rightarrow> [h] | _ \<Rightarrow> [])"
  by (auto simp: closed_handles_def map_filter_simps split: api.splits sync_call.splits)

lemma closed_handles_Nil [simp]: "closed_handles [] = []"
  by (simp add: closed_handles_def map_filter_simps)

definition owned :: "'a hworld_scheme \<Rightarrow> handle set" where
  "owned s = range (m_h s) - {INVALID_HANDLE_VALUE}"

inductive ah_step :: "env \<Rightarrow> hworld \<Rightarrow> hworld \<Rightarrow> bool" for E where
  ah_ctor: "ah_step E s (AutoHandle_ctor this s)"
| ah_copy: "this \<noteq> h \<Longrightarrow> ah_step E s (AutoHandle_copy_ctor this h s)"
| ah_assign: "ah_step E s (AutoHandle_assign E this h s)"
| ah_close: "ah_step E s (Close E this s)"
| ah_dtor: "ah_step E s (AutoHandle_dtor E this s)"
| ah_event_dtor: "ah_step E s (AutoEventHandle_dtor E this s)"
| ah_detach: "ah_step E s (snd (Detach this s))"
| ah_attach: "v \<notin> owned s \<Longrightarrow> v \<notin> set (closed_handles (trace s)) \<Longrightarrow> ah_step E s (Attach this v s)"

inductive ah_reach :: "env \<Rightarrow> hworld \<Rightarrow> bool" for E where
  ah_init: "ah_reach E \<lparr>trace = [], inflight = [], m_h = \<lambda>_. INVALID_HANDLE_VALUE\<rparr>"
| ah_next: "ah_reach E s \<Longrightarrow> ah_step E s s' \<Longrightarrow> ah_reach E s'"

definition ah_inv :: "'a hworld_scheme \<Rightarrow> bool" where
  "ah_inv s \<longleftrightarrow>
     inj_on (m_h s) {a. m_h s a \<noteq> INVALID_HANDLE_VALUE} \<and>
     (\<forall>a. m_h s a \<noteq> INVALID_HANDLE_VALUE \<longrightarrow> m_h s a \<notin> set (closed_handles (trace s))) \<and>
     distinct (closed_handles (trace s))"

lemma ah_inv_drop:
  "ah_inv s \<Longrightarrow> ah_inv (s\<lparr>m_h := (m_h s)(this := INVALID_HANDLE_VALUE)\<rparr>)"
  by (auto simp: ah_inv_def inj_on_def)

lemma ah_inv_close: "ah_inv s \<Longrightarrow> ah_inv (Close E this s)"
  unfolding ah_inv_def Close_def inj_on_def Let_def emit_eq by simp metis

lemma ah_inv_attach:
  "ah_inv s \<Longrightarrow> v \<notin> owned s \<Longrightarrow> v \<notin> set (closed_handles (trace s)) \<Longrightarrow> ah_inv (Attach this v s)"
  by (auto simp: ah_inv_def owned_def Attach_def inj_on_def)

lemma ah_inv_move:
  assumes "ah_inv s" "this \<noteq> h"
  shows "ah_inv (Attach this (m_h s h) (s\<lparr>m_h := (m_h s)(h := INVALID_HANDLE_VALUE)\<rparr>))"
  using assms unfolding ah_inv_def Attach_def inj_on_def by simp metis

lemma ah_inv_assign: "ah_inv s \<Longrightarrow> ah_inv (AutoHandle_assign E this h s)"
proof -
  assume "ah_inv s"
  moreover define t where "t = Close E this s"
  ultimately have "ah_inv t" by (simp add: ah_inv_close)
  moreover have "AutoHandle_assign E this h s = (if this = h then s
      else Attach this (m_h t h) (t\<lparr>m_h := (m_h t)(h := INVALID_HANDLE_VALUE)\<rparr>))"
    by (cases "m_h s this = INVALID_HANDLE_VALUE")
      (simp_all add: AutoHandle_assign_def Detach_def t_def Let_def)
  ultimately show ?thesis
    using \<open>ah_inv s\<close> ah_inv_move [of t this h] by simp
qed

lemma ah_inv_copy: "ah_inv s \<Longrightarrow> this \<noteq> h \<Longrightarrow> ah_inv (AutoHandle_copy_ctor this h s)"
  using ah_inv_move [OF ah_inv_drop, of s this h this]
  by (simp add: AutoHandle_copy_ctor_def Detach_def)

lemma ah_step_inv: "ah_step E s s' \<Longrightarrow> ah_inv s \<Longrightarrow> ah_inv s'"
  by (induction rule: ah_step.induct)
    (simp_all add: AutoHandle_ctor_def ah_inv_drop ah_inv_close ah_inv_assign ah_inv_copy
      AutoHandle_dtor_def AutoEventHandle_dtor_Close Detach_def ah_inv_attach)

lemma ah_reach_inv: "ah_reach E s \<Longrightarrow> ah_inv s"
proof (induction rule: ah_reach.induct)
  case ah_init
  show ?case by (simp add: ah_inv_def)
next
  case (ah_next s s')
  then show ?case by (blast intro: ah_step_inv)
qed

text \<open>
  C24: however handle objects are created, copied, assigned (also to themselves), closed, detached
  and destroyed, no handle is ever passed to CloseHandle twice, and no two objects own one handle.
\<close>

theorem autohandle_single_close:
  assumes "ah_reach E s"
  shows "distinct (closed_handles (trace s)) \<and>
    (\<forall>a b. m_h s a = m_h s b \<and> m_h s a \<noteq> INVALID_HANDLE_VALUE \<longrightarrow> a = b)"
  using ah_reach_inv [OF assms] by (auto simp: ah_inv_def inj_on_def)

theorem autohandle_single_close_witness:
  "\<exists>s. ah_reach zero_env s \<and> closed_handles (trace s) = [5] \<and> m_h s 2 = INVALID_HANDLE_VALUE
     \<and> distinct (closed_handles (trace s))"
proof -
  let ?i = "\<lparr>trace = [], inflight = [], m_h = \<lambda>_. INVALID_HANDLE_VALUE\<rparr> :: hworld"
  let ?s = "Close zero_env 2 (AutoHandle_assign zero_env 2 1 (Attach 1 5 ?i))"
  have "ah_reach zero_env ?s"
    by (rule ah_next [OF ah_next [OF ah_next [OF ah_init ah_attach] ah_assign] ah_close])
      (simp_all add: owned_def)
  moreover have "closed_handles (trace ?s) = [5]" "m_h ?s 2 = INVALID_HANDLE_VALUE"
    by (simp_all add: AutoHandle_assign_def Attach_def Detach_def Close_def emit_eq Let_def
        INVALID_HANDLE_VALUE_def)
  ultimately show ?thesis
    using autohandle_single_close [of zero_env ?s] by blast
qed

end
