(* ===== verification/Thread_Pool.thy ===== *)
theory Thread_Pool
  imports Sync "HOL-Library.Multiset"
begin

text \<open>
  \<open>src/netfilter/threadpool.h\<close>: a pool of threads that wait for jobs. The job source, an abstract
  class, is a record of its three methods. The loop of a thread need not end (it ends with the stop
  event), so it is a partial function: \<open>None\<close> is a thread that runs for ever.
\<close>

section \<open>State\<close>

record thread_pool = hworld +
  m_pJobSource :: bool
  m_threads :: "handle list"

record 's job_source =
  execute :: "'s \<Rightarrow> 's"
  threadStarted :: "'s \<Rightarrow> 's"
  threadStopped :: "'s \<Rightarrow> 's"

abbreviation (input) OBJ_jobAvailable :: nat where "OBJ_jobAvailable \<equiv> 10"
abbreviation (input) OBJ_poolStop :: nat where "OBJ_poolStop \<equiv> 11"

section \<open>Operations\<close>

text \<open>The stop event replaces the invalid handle of a fresh \<open>AutoHandle\<close>.\<close>

definition ThreadPool_ctor :: "env \<Rightarrow> thread_pool \<Rightarrow> thread_pool" where
  "ThreadPool_ctor E s =
     (let s = s\<lparr>m_threads := []\<rparr>;
          s = AutoEventHandle_ctor E OBJ_jobAvailable s;
          s = AutoHandle_ctor OBJ_poolStop s;
          (h, s) = sys E (Sync CreateEvent) s;
          s = Attach OBJ_poolStop h s
      in s\<lparr>m_pJobSource := False\<rparr>)"

text \<open>One thread; a handle that reports a failure is not kept.\<close>

definition start_thread :: "env \<Rightarrow> thread_pool \<Rightarrow> thread_pool" where
  "start_thread E s =
     (let (hThread, s) = sys E (Sync BeginThread) s
      in if hThread \<noteq> 0 \<and> hThread \<noteq> INVALID_HANDLE_VALUE
         then s\<lparr>m_threads := m_threads s @ [hThread]\<rparr> else s)"

text \<open>The answer of \<open>GetSystemInfo\<close> is \<open>dwNumberOfProcessors\<close>, read as an \<open>int\<close>.\<close>

definition pool_size :: "env \<Rightarrow> u32 \<Rightarrow> thread_pool \<Rightarrow> int \<times> thread_pool" where
  "pool_size E threadCount s =
     (if sint threadCount \<le> 0
      then let (n, s) = sys E (Sync GetSystemInfo) s;
               threadCount = (ucast n :: u32);
               threadCount = (if threadCount = 0 then 1 else threadCount)
           in (sint threadCount, s)
      else (sint threadCount, s))"

definition ThreadPool_init :: "env \<Rightarrow> u32 \<Rightarrow> thread_pool \<Rightarrow> bool \<times> thread_pool" where
  "ThreadPool_init E threadCount s =
     (let s = emit E (Sync (ResetEvent (m_h s OBJ_poolStop))) s;
          s = s\<lparr>m_pJobSource := True\<rparr>;
          (threadCount, s) = pool_size E threadCount s
      in (True, (start_thread E ^^ nat threadCount) s))"

fun join_threads :: "env \<Rightarrow> handle list \<Rightarrow> thread_pool \<Rightarrow> thread_pool" where
  "join_threads E [] s = s"
| "join_threads E (h # hs) s =
     join_threads E hs (emit E (Sync (CloseHandle h)) (emit E (Sync (WaitForSingleObject h)) s))"

definition ThreadPool_free :: "env \<Rightarrow> thread_pool \<Rightarrow> thread_pool" where
  "ThreadPool_free E s =
     (let s = emit E (Sync (SetEvent (m_h s OBJ_poolStop))) s;
          s = join_threads E (m_threads s) s
      in s\<lparr>m_threads := []\<rparr>)"

text \<open>The destructor frees the pool; then the members go, the last one first.\<close>

definition ThreadPool_dtor :: "env \<Rightarrow> thread_pool \<Rightarrow> thread_pool" where
  "ThreadPool_dtor E s =
     (let s = ThreadPool_free E s;
          s = AutoHandle_dtor E OBJ_poolStop s
      in AutoEventHandle_dtor E OBJ_jobAvailable s)"

definition jobAvailable :: "env \<Rightarrow> thread_pool \<Rightarrow> thread_pool" where
  "jobAvailable E s = emit E (Sync (SetEvent (m_h s OBJ_jobAvailable))) s"

section \<open>A thread\<close>

partial_function (option) thread_loop :: "env \<Rightarrow> 'a world_scheme job_source \<Rightarrow> handle list \<Rightarrow>
    'a world_scheme \<Rightarrow> 'a world_scheme option" where
  "thread_loop E src hs s =
     (let (r, s) = sys E (Sync (WaitForMultipleObjects hs)) s
      in if r = 1 then Some s else thread_loop E src hs (execute src s))"

definition ThreadPool_threadProc :: "env \<Rightarrow> 'a world_scheme job_source \<Rightarrow> handle \<Rightarrow> handle \<Rightarrow>
    'a world_scheme \<Rightarrow> 'a world_scheme option" where
  "ThreadPool_threadProc E src jobEvent stopEvent s = do {
     let s = threadStarted src s;
     s \<leftarrow> thread_loop E src [jobEvent, stopEvent] s;
     Some (threadStopped src s)
   }"

section \<open>The loop as an iteration\<close>

text \<open>\<open>after_jobs n\<close> is the state in which the thread waits for the time \<open>n + 1\<close>.\<close>

definition after_jobs :: "env \<Rightarrow> 'a world_scheme job_source \<Rightarrow> handle list \<Rightarrow> nat \<Rightarrow>
    'a world_scheme \<Rightarrow> 'a world_scheme" where
  "after_jobs E src hs n s = ((\<lambda>t. execute src (emit E (Sync (WaitForMultipleObjects hs)) t)) ^^ n) s"

definition stop_signalled :: "env \<Rightarrow> handle list \<Rightarrow> 'a world_scheme \<Rightarrow> bool" where
  "stop_signalled E hs s \<longleftrightarrow> os E (trace s) (Sync (WaitForMultipleObjects hs)) = 1"

lemma after_jobs_0 [simp]: "after_jobs E src hs 0 s = s"
  by (simp add: after_jobs_def)

lemma after_jobs_Suc: "after_jobs E src hs (Suc n) s =
    after_jobs E src hs n (execute src (emit E (Sync (WaitForMultipleObjects hs)) s))"
  by (simp only: after_jobs_def funpow_Suc_right comp_apply)

lemma thread_loop_step:
  "thread_loop E src hs s = (if stop_signalled E hs s then Some (emit E (Sync (WaitForMultipleObjects hs)) s)
     else thread_loop E src hs (execute src (emit E (Sync (WaitForMultipleObjects hs)) s)))"
  by (subst thread_loop.simps) (simp add: stop_signalled_def sys_def emit_def Let_def)

lemma thread_loop_stops:
  "stop_signalled E hs (after_jobs E src hs n s) \<Longrightarrow> \<forall>k < n. \<not> stop_signalled E hs (after_jobs E src hs k s) \<Longrightarrow>
   thread_loop E src hs s = Some (emit E (Sync (WaitForMultipleObjects hs)) (after_jobs E src hs n s))"
proof (induction n arbitrary: s)
  case 0
  then show ?case by (subst thread_loop_step) simp
next
  case (Suc n)
  let ?t = "execute src (emit E (Sync (WaitForMultipleObjects hs)) s)"
  have "\<not> stop_signalled E hs s" using Suc.prems(2) [rule_format, of 0] by simp
  moreover have "thread_loop E src hs ?t = Some (emit E (Sync (WaitForMultipleObjects hs)) (after_jobs E src hs n ?t))"
  proof (rule Suc.IH)
    show "stop_signalled E hs (after_jobs E src hs n ?t)" using Suc.prems(1) by (simp add: after_jobs_Suc)
    show "\<forall>k < n. \<not> stop_signalled E hs (after_jobs E src hs k ?t)"
      using Suc.prems(2) after_jobs_Suc by (metis Suc_less_eq)
  qed
  ultimately show ?case by (subst thread_loop_step) (simp add: after_jobs_Suc)
qed

lemma thread_loop_returns:
  "thread_loop E src hs s = Some t \<Longrightarrow> \<exists>n. stop_signalled E hs (after_jobs E src hs n s)"
proof (induction rule: thread_loop.raw_induct [rotated, consumes 1, case_names step])
  case (step loop E src hs s t)
  show ?case
  proof (cases "stop_signalled E hs s")
    case True
    then show ?thesis using after_jobs_0 by metis
  next
    case False
    then have "loop E src hs (execute src (emit E (Sync (WaitForMultipleObjects hs)) s)) = Some t"
      using step(2) by (simp add: stop_signalled_def sys_def emit_def Let_def)
    from step(1) [OF this] obtain n where
      "stop_signalled E hs (after_jobs E src hs n (execute src (emit E (Sync (WaitForMultipleObjects hs)) s)))" ..
    then show ?thesis using after_jobs_Suc by metis
  qed
qed

section \<open>Handles of the pool\<close>

text \<open>
  The handles that the platform has given out: events, and threads that were started. A failed
  \<open>CreateEvent\<close> returns the null handle, a failed \<open>_beginthreadex\<close> null or -1.
\<close>

fun created :: "api \<times> u64 \<Rightarrow> handle list" where
  "created (Sync CreateEvent, r) = (if r \<noteq> 0 \<and> r \<noteq> INVALID_HANDLE_VALUE then [r] else [])"
| "created (Sync BeginThread, r) = (if r \<noteq> 0 \<and> r \<noteq> INVALID_HANDLE_VALUE then [r] else [])"
| "created _ = []"

definition created_handles :: "trace \<Rightarrow> handle list" where
  "created_handles tr = concat (map created tr)"

text \<open>The events that could not be created.\<close>

definition null_events :: "trace \<Rightarrow> nat" where
  "null_events tr = length (filter (\<lambda>x. x = (Sync CreateEvent, 0)) tr)"

lemma null_events_append [simp]:
  "null_events [] = 0" "null_events (xs @ ys) = null_events xs + null_events ys"
  "null_events (x # xs) = (if x = (Sync CreateEvent, 0) then 1 else 0) + null_events xs"
  by (simp_all add: null_events_def)

lemma created_handles_append [simp]:
  "created_handles [] = []" "created_handles (xs @ ys) = created_handles xs @ created_handles ys"
  "created_handles (x # xs) = created x @ created_handles xs"
  by (simp_all add: created_handles_def)

lemma closed_handles_Cons [simp]:
  "closed_handles ((c, r) # tr) = (case c of Sync (CloseHandle h) \<Rightarrow> [h] | _ \<Rightarrow> []) @ closed_handles tr"
  using closed_handles_append [of "[(c, r)]" tr] by simp

definition valid_handle :: "handle \<Rightarrow> handle multiset" where
  "valid_handle h = (if h = INVALID_HANDLE_VALUE then {#} else {#h#})"

text \<open>
  Every handle that was created is closed, held as a thread, or one of the two events; so is the null
  handle, once for each event that could not be created.
\<close>

definition pool_inv :: "thread_pool \<Rightarrow> bool" where
  "pool_inv s \<longleftrightarrow> mset (created_handles (trace s)) + replicate_mset (null_events (trace s)) 0 = mset (closed_handles (trace s)) + mset (m_threads s)
    + valid_handle (m_h s OBJ_jobAvailable) + valid_handle (m_h s OBJ_poolStop)"

inductive pool_reach :: "env \<Rightarrow> thread_pool \<Rightarrow> bool" for E where
  pool_ctor: "trace s = [] \<Longrightarrow> pool_reach E (ThreadPool_ctor E s)"
| pool_init: "pool_reach E s \<Longrightarrow> pool_reach E (snd (ThreadPool_init E n s))"
| pool_job: "pool_reach E s \<Longrightarrow> pool_reach E (jobAvailable E s)"
| pool_free: "pool_reach E s \<Longrightarrow> pool_reach E (ThreadPool_free E s)"

lemma pool_inv_call: "pool_inv s \<Longrightarrow> created (c, os E (trace s) c) = [] \<Longrightarrow> c \<noteq> Sync CreateEvent \<Longrightarrow>
    closed_handles [(c, os E (trace s) c)] = [] \<Longrightarrow> pool_inv (emit E c s)"
  by (simp add: pool_inv_def emit_eq del: closed_handles_single)

lemma pool_inv_start_thread: "pool_inv s \<Longrightarrow> pool_inv (start_thread E s)"
  by (simp add: pool_inv_def start_thread_def sys_def Let_def)

lemma pool_inv_start_threads: "pool_inv s \<Longrightarrow> pool_inv ((start_thread E ^^ n) s)"
  by (induction n) (simp_all add: pool_inv_start_thread)

lemma pool_inv_init: "pool_inv s \<Longrightarrow> pool_inv (snd (ThreadPool_init E n s))"
proof -
  assume "pool_inv s"
  then have "pool_inv (emit E (Sync (ResetEvent (m_h s OBJ_poolStop))) s)" by (rule pool_inv_call) simp_all
  then have inv: "pool_inv ((emit E (Sync (ResetEvent (m_h s OBJ_poolStop))) s)\<lparr>m_pJobSource := True\<rparr>)"
    by (simp add: pool_inv_def)
  have size: "pool_inv (snd (pool_size E n t))" if "pool_inv t" for t
    using pool_inv_call [OF that, of "Sync GetSystemInfo" E] that by (simp add: pool_size_def split_def Let_def emit_def)
  show ?thesis
    unfolding ThreadPool_init_def Let_def split_def snd_conv by (rule pool_inv_start_threads [OF size [OF inv]])
qed

lemma join_threads_data:
  "m_h (join_threads E hs s) = m_h s" "m_threads (join_threads E hs s) = m_threads s"
  "map fst (trace (join_threads E hs s)) = map fst (trace s) @
     concat (map (\<lambda>h. [Sync (WaitForSingleObject h), Sync (CloseHandle h)]) hs)"
  "created_handles (trace (join_threads E hs s)) = created_handles (trace s)"
  "null_events (trace (join_threads E hs s)) = null_events (trace s)"
  "closed_handles (trace (join_threads E hs s)) = closed_handles (trace s) @ hs"
  by (induction E hs s rule: join_threads.induct) (simp_all add: emit_eq)

lemma pool_inv_free: "pool_inv s \<Longrightarrow> pool_inv (ThreadPool_free E s)"
  by (simp add: pool_inv_def ThreadPool_free_def join_threads_data Let_def emit_eq)

lemma pool_inv_ctor: "trace s = [] \<Longrightarrow> pool_inv (ThreadPool_ctor E s)"
  by (simp add: pool_inv_def ThreadPool_ctor_def AutoEventHandle_ctor_def AutoHandle_ctor_def Attach_def sys_def
      valid_handle_def INVALID_HANDLE_VALUE_def Let_def)

lemma pool_reach_inv: "pool_reach E s \<Longrightarrow> pool_inv s"
  by (induction rule: pool_reach.induct)
    (simp_all add: pool_inv_ctor pool_inv_init pool_inv_free jobAvailable_def pool_inv_call)

lemma Close_pool:
  "created_handles (trace (Close E a s)) = created_handles (trace s)"
  "null_events (trace (Close E a s)) = null_events (trace s)"
  "mset (closed_handles (trace (Close E a s))) = mset (closed_handles (trace s)) + valid_handle (m_h s a)"
  "m_h (Close E a s) = (m_h s)(a := INVALID_HANDLE_VALUE)" "m_threads (Close E a s) = m_threads s"
  by (auto simp: Close_def emit_eq valid_handle_def Let_def)

section \<open>Properties\<close>

text \<open>
  C27: a thread of the pool returns just when some wait reports the stop event; it then has run the
  job once for each wait before the first such one, whatever those waits reported (a failed wait
  included), between the two notifications of its start and its end.
\<close>

theorem thread_runs_jobs_until_stop:
  "ThreadPool_threadProc E src j e s = Some t \<longleftrightarrow>
   (\<exists>n. stop_signalled E [j, e] (after_jobs E src [j, e] n (threadStarted src s))
      \<and> (\<forall>k < n. \<not> stop_signalled E [j, e] (after_jobs E src [j, e] k (threadStarted src s)))
      \<and> t = threadStopped src (emit E (Sync (WaitForMultipleObjects [j, e]))
              (after_jobs E src [j, e] n (threadStarted src s))))"
  (is "_ \<longleftrightarrow> ?R")
proof
  let ?P = "\<lambda>n. stop_signalled E [j, e] (after_jobs E src [j, e] n (threadStarted src s))"
  assume run: "ThreadPool_threadProc E src j e s = Some t"
  then obtain u where u: "thread_loop E src [j, e] (threadStarted src s) = Some u" "t = threadStopped src u"
    by (auto simp: ThreadPool_threadProc_def Let_def bind_eq_Some_conv)
  define n where "n = (LEAST n. ?P n)"
  from thread_loop_returns [OF u(1)] have n: "?P n" unfolding n_def by (rule LeastI_ex)
  have least: "\<forall>k < n. \<not> ?P k" unfolding n_def by (blast dest: not_less_Least)
  from thread_loop_stops [OF n least] u(1)
  have "u = emit E (Sync (WaitForMultipleObjects [j, e])) (after_jobs E src [j, e] n (threadStarted src s))" by simp
  with n least u(2) show ?R by blast
next
  assume ?R
  then obtain n where n: "stop_signalled E [j, e] (after_jobs E src [j, e] n (threadStarted src s))"
      "\<forall>k < n. \<not> stop_signalled E [j, e] (after_jobs E src [j, e] k (threadStarted src s))"
    and t: "t = threadStopped src (emit E (Sync (WaitForMultipleObjects [j, e]))
      (after_jobs E src [j, e] n (threadStarted src s)))" by blast
  from thread_loop_stops [OF n] t show "ThreadPool_threadProc E src j e s = Some t"
    by (simp add: ThreadPool_threadProc_def)
qed

text \<open>A platform on which the first wait reports a job and later waits report the stop event.\<close>

definition one_job_env :: env where
  "one_job_env = zero_env\<lparr>os := \<lambda>tr c. if tr = [] then 0 else 1\<rparr>"

definition counting_source :: "hworld job_source" where
  "counting_source = \<lparr>execute = \<lambda>s. s\<lparr>inflight := 1 # inflight s\<rparr>,
     threadStarted = \<lambda>s. s\<lparr>inflight := 0 # inflight s\<rparr>, threadStopped = \<lambda>s. s\<lparr>inflight := 2 # inflight s\<rparr>\<rparr>"

theorem thread_runs_jobs_until_stop_witness:
  "ThreadPool_threadProc one_job_env counting_source 5 6 \<lparr>trace = [], inflight = [], m_h = \<lambda>_. 0\<rparr> =
   Some \<lparr>trace = [(Sync (WaitForMultipleObjects [5, 6]), 0), (Sync (WaitForMultipleObjects [5, 6]), 1)],
     inflight = [2, 1, 0], m_h = \<lambda>_. 0\<rparr>"
  by (subst thread_runs_jobs_until_stop, rule exI [where x = 1])
    (simp add: after_jobs_def stop_signalled_def one_job_env_def counting_source_def emit_eq)

text \<open>
  Stopping the pool signals the stop event and then waits for each thread and closes it, in the
  order in which they were started, and forgets them; no other call is made.
\<close>

lemma pool_free_joins:
  "map fst (trace (ThreadPool_free E s)) = map fst (trace s) @ Sync (SetEvent (m_h s OBJ_poolStop)) #
     concat (map (\<lambda>h. [Sync (WaitForSingleObject h), Sync (CloseHandle h)]) (m_threads s))
   \<and> m_threads (ThreadPool_free E s) = []"
  by (simp add: ThreadPool_free_def join_threads_data Let_def emit_eq)

text \<open>
  C28: however a pool was used, its destructor leaves no handle behind: the handles that were closed
  are exactly those that were created, each as often; threads that failed to start count for nothing.
  But for each event that could not be created the null handle is closed too, because the handle
  objects take only -1 for invalid.
\<close>

theorem pool_closes_handles:
  assumes "pool_reach E s"
  shows "mset (closed_handles (trace (ThreadPool_dtor E s))) = mset (created_handles (trace (ThreadPool_dtor E s)))
      + replicate_mset (null_events (trace (ThreadPool_dtor E s))) 0
    \<and> m_threads (ThreadPool_dtor E s) = []"
proof -
  let ?t = "ThreadPool_free E s"
  have inv: "pool_inv ?t" by (rule pool_inv_free [OF pool_reach_inv [OF assms]])
  have "m_threads ?t = []" by (simp add: ThreadPool_free_def Let_def)
  moreover have "ThreadPool_dtor E s = Close E OBJ_jobAvailable (Close E OBJ_poolStop ?t)"
    by (simp add: ThreadPool_dtor_def AutoHandle_dtor_def AutoEventHandle_dtor_Close Let_def)
  ultimately show ?thesis using inv by (simp add: Close_pool pool_inv_def ac_simps)
qed

text \<open>A pool of two threads on a platform that answers every call with 5.\<close>

definition blank_pool :: thread_pool where
  "blank_pool = \<lparr>trace = [], inflight = [], m_h = \<lambda>_. INVALID_HANDLE_VALUE, m_pJobSource = False, m_threads = []\<rparr>"

theorem pool_closes_handles_witness:
  "let E = call_env (\<lambda>_. 5); s = snd (ThreadPool_init E 2 (ThreadPool_ctor E blank_pool))
   in mset (closed_handles (trace (ThreadPool_dtor E s))) = mset (created_handles (trace (ThreadPool_dtor E s)))
        + replicate_mset (null_events (trace (ThreadPool_dtor E s))) 0
      \<and> m_threads (ThreadPool_dtor E s) = [] \<and> m_threads s = [5, 5]"
proof -
  let ?E = "call_env (\<lambda>_. 5)"
  let ?s = "snd (ThreadPool_init ?E 2 (ThreadPool_ctor ?E blank_pool))"
  have "pool_reach ?E ?s" by (rule pool_init [OF pool_ctor]) (simp add: blank_pool_def)
  note pool_closes_handles [OF this]
  moreover have two: "f ^^ 2 = f \<circ> f" for f :: "thread_pool \<Rightarrow> thread_pool" by (simp add: numeral_2_eq_2)
  have "m_threads ?s = [5, 5]"
    by (simp add: blank_pool_def ThreadPool_init_def ThreadPool_ctor_def pool_size_def start_thread_def sys_def emit_eq
        AutoEventHandle_ctor_def AutoHandle_ctor_def Attach_def Let_def INVALID_HANDLE_VALUE_def two)
  ultimately show ?thesis by (simp add: Let_def)
qed

end
