(* ===== verification/Iocp.thy ===== *)
theory Iocp
  imports Sync
begin

text \<open>
  \<open>src/netfilter/iocp.h\<close>: the completion-port service. Its members \<open>m_stopEvent\<close> and
  \<open>m_workerThread\<close> are handle objects at the addresses \<open>OBJ_stopEvent\<close> and
  \<open>OBJ_workerThread\<close>. A dequeued packet, with what the kernel did before handing it out, is a
  record \<open>completion\<close>; the worker thread's endless loop is a recursion over the packets it gets.
  The handler behind the port is the interface \<open>completion_handler\<close>.
\<close>

definition OBJ_stopEvent :: nat where "OBJ_stopEvent = 0"
definition OBJ_workerThread :: nat where "OBJ_workerThread = 1"

record iocp = hworld +
  m_hIOCP :: handle
  m_pHandler :: bool

definition IOCPService_ctor :: "env \<Rightarrow> 'a iocp_scheme \<Rightarrow> 'a iocp_scheme" where
  "IOCPService_ctor E s =
     (let s = s\<lparr>m_hIOCP := INVALID_HANDLE_VALUE, m_pHandler := False\<rparr>;
          s = AutoEventHandle_ctor E OBJ_stopEvent s
      in AutoHandle_ctor OBJ_workerThread s)"

definition IOCPService_init :: "env \<Rightarrow> 'a iocp_scheme \<Rightarrow> bool \<times> 'a iocp_scheme" where
  "IOCPService_init E s =
     (let s = s\<lparr>m_pHandler := True\<rparr>
      in if m_hIOCP s \<noteq> INVALID_HANDLE_VALUE then (False, s)
         else
           let (h, s) = sys E (Net (CreateIoCompletionPort INVALID_HANDLE_VALUE 0 0)) s;
               s = s\<lparr>m_hIOCP := h\<rparr>
           in if m_hIOCP s = INVALID_HANDLE_VALUE then (False, s)
              else
                let s = emit E (Sync (ResetEvent (m_h s OBJ_stopEvent))) s;
                    (hThread, s) = sys E (Sync BeginThread) s;
                    s = (if hThread \<noteq> 0 then Attach OBJ_workerThread hThread s else s)
                in (True, s))"

definition IOCPService_free :: "env \<Rightarrow> 'a iocp_scheme \<Rightarrow> 'a iocp_scheme" where
  "IOCPService_free E s =
     (if m_h s OBJ_workerThread = INVALID_HANDLE_VALUE then s
      else
        let s = emit E (Sync (SetEvent (m_h s OBJ_stopEvent))) s;
            s = emit E (Sync (WaitForSingleObject (m_h s OBJ_workerThread))) s;
            s = Close E OBJ_workerThread s
        in if m_hIOCP s \<noteq> INVALID_HANDLE_VALUE
           then let s = emit E (Sync (CloseHandle (m_hIOCP s))) s
                in s\<lparr>m_hIOCP := INVALID_HANDLE_VALUE\<rparr>
           else s)"

definition registerSocket :: "env \<Rightarrow> sock \<Rightarrow> 'a iocp_scheme \<Rightarrow> bool \<times> 'a iocp_scheme" where
  "registerSocket E sk s =
     (let (r, s) = sys E (Net (CreateIoCompletionPort sk (m_hIOCP s) sk)) s in (r \<noteq> 0, s))"

definition postCompletion :: "env \<Rightarrow> sock \<Rightarrow> u32 \<Rightarrow> ovp \<Rightarrow> 'a iocp_scheme \<Rightarrow> bool \<times> 'a iocp_scheme" where
  "postCompletion E sk dwTransferred pol s =
     (let (r, s) = sys E (Net (PostQueuedCompletionStatus (m_hIOCP s) dwTransferred sk pol)) s
      in (r \<noteq> 0, if r \<noteq> 0 then s\<lparr>inflight := inflight s @ [pol]\<rparr> else s))"

section \<open>The worker thread\<close>

record completion =
  cq_ok :: bool
  cq_socket :: sock
  cq_transferred :: u32
  cq_overlapped :: "ovp option"
  cq_error :: u32
  cq_data :: bytes
  cq_stop :: bool

text \<open>
  \<open>onComplete\<close> is the virtual call on \<open>m_pHandler\<close>; \<open>deliver\<close> is what the platform does to the
  program's memory before \<open>GetQueuedCompletionStatus\<close> returns. The result tells whether the loop
  was left (\<open>False\<close>: the thread is waiting for the next packet).
\<close>

type_synonym 's complete_fun = "sock \<Rightarrow> u32 \<Rightarrow> ovp option \<Rightarrow> u32 \<Rightarrow> 's \<Rightarrow> 's option"

definition worker_body :: "'s complete_fun \<Rightarrow> completion \<Rightarrow> 's \<Rightarrow> 's option" where
  "worker_body onComplete c s =
     (if cq_ok c then onComplete (cq_socket c) (cq_transferred c) (cq_overlapped c) 0 s
      else if cq_error c \<noteq> WAIT_TIMEOUT
      then onComplete (cq_socket c) (cq_transferred c) (cq_overlapped c) (cq_error c) s
      else Some s)"

fun workerThread :: "(completion \<Rightarrow> 's \<Rightarrow> 's) \<Rightarrow> 's complete_fun \<Rightarrow> completion list \<Rightarrow> 's \<Rightarrow>
    (bool \<times> 's) option" where
  "workerThread deliver onComplete [] s = Some (False, s)"
| "workerThread deliver onComplete (c # cs) s = do {
     s \<leftarrow> worker_body onComplete c (deliver c s);
     if cq_stop c then Some (True, s) else workerThread deliver onComplete cs s
   }"

text \<open>The packets one run of the loop takes from the port: up to the first that finds the stop event.\<close>

definition dequeued :: "completion list \<Rightarrow> completion list" where
  "dequeued cs = takeWhile (\<lambda>c. \<not> cq_stop c) cs @ take 1 (dropWhile (\<lambda>c. \<not> cq_stop c) cs)"

definition is_timeout :: "completion \<Rightarrow> bool" where
  "is_timeout c \<longleftrightarrow> \<not> cq_ok c \<and> cq_error c = WAIT_TIMEOUT"

text \<open>
  \<open>GetQueuedCompletionStatus\<close> dequeues no packet and fails for another reason than a time-out: it
  sets the overlapped pointer to null, and the loop passes the null pointer on. A port that exists and
  is not closed during the wait only times out; but \<open>init\<close> compares the new port with
  \<open>INVALID_HANDLE_VALUE\<close>, and \<open>CreateIoCompletionPort\<close> reports a failure as the null handle.
\<close>

definition port_error :: "completion \<Rightarrow> bool" where
  "port_error c \<longleftrightarrow> cq_overlapped c = None \<and> \<not> cq_ok c \<and> cq_error c \<noteq> WAIT_TIMEOUT"

definition no_port :: "'a iocp_scheme \<Rightarrow> bool" where
  "no_port s \<longleftrightarrow> m_hIOCP s = 0"

lemma port_error_simps [simp]:
  "is_timeout c \<Longrightarrow> \<not> port_error c" "cq_overlapped c = Some p \<Longrightarrow> \<not> port_error c"
  by (auto simp: is_timeout_def port_error_def)

lemma dequeued_Cons [simp]: "dequeued (c # cs) = c # (if cq_stop c then [] else dequeued cs)"
  by (simp add: dequeued_def)

lemma dequeued_Nil [simp]: "dequeued [] = []"
  by (simp add: dequeued_def)

text \<open>
  What the port relies on: \<open>legal c s\<close> says which packets the platform can deliver in \<open>s\<close>; the
  handler accepts every legal packet, returns, and keeps its invariant.
\<close>

fun legal_run :: "('s \<Rightarrow> completion \<Rightarrow> bool) \<Rightarrow> (completion \<Rightarrow> 's \<Rightarrow> 's) \<Rightarrow> 's complete_fun \<Rightarrow>
    completion list \<Rightarrow> 's \<Rightarrow> bool" where
  "legal_run legal deliver onComplete [] s = True"
| "legal_run legal deliver onComplete (c # cs) s =
     (legal s c \<and> (case worker_body onComplete c (deliver c s) of
        None \<Rightarrow> True
      | Some s' \<Rightarrow> cq_stop c \<or> legal_run legal deliver onComplete cs s'))"

locale completion_handler =
  fixes inv :: "'s \<Rightarrow> bool"
    and legal :: "'s \<Rightarrow> completion \<Rightarrow> bool"
    and deliver :: "completion \<Rightarrow> 's \<Rightarrow> 's"
    and onComplete :: "'s complete_fun"
  assumes complete_ok: "inv s \<Longrightarrow> legal s c \<Longrightarrow> \<exists>s'. worker_body onComplete c (deliver c s) = Some s' \<and> inv s'"
begin

lemma worker_safe:
  "inv s \<Longrightarrow> legal_run legal deliver onComplete cs s \<Longrightarrow>
   \<exists>s'. workerThread deliver onComplete cs s = Some (\<exists>c \<in> set cs. cq_stop c, s') \<and> inv s'"
proof (induction cs arbitrary: s)
  case (Cons c cs)
  from Cons.prems obtain t where t: "worker_body onComplete c (deliver c s) = Some t" "inv t"
    using complete_ok [of s c] by auto
  show ?case
  proof (cases "cq_stop c")
    case True
    with t show ?thesis by auto
  next
    case False
    then have "legal_run legal deliver onComplete cs t"
      using Cons.prems t by simp
    with Cons.IH [OF t(2)] t False show ?thesis by auto
  qed
qed simp

end

section \<open>Properties\<close>

text \<open>
  C26: the loop calls the handler once for every packet that is not a timeout, in the order of the
  port, including the packet dequeued in the iteration that sees the stop event and none after it.
\<close>

theorem worker_dispatches_in_order:
  "workerThread (\<lambda>c s. s)
     (\<lambda>sk n p e calls. Some (calls @ [(sk, n, p, e)])) cs calls
   = Some (\<exists>c \<in> set cs. cq_stop c,
       calls @ map (\<lambda>c. (cq_socket c, cq_transferred c, cq_overlapped c, if cq_ok c then 0 else cq_error c))
         (filter (\<lambda>c. \<not> is_timeout c) (dequeued cs)))"
  by (induction cs arbitrary: calls) (auto simp: worker_body_def is_timeout_def)

text \<open>
  A service that was started with a worker thread can be stopped and started again: a second
  init of the running service fails without touching the port; free closes the port and the thread
  handle; and an init after that succeeds whenever the platform gives a port.
\<close>

lemma iocp_restart:
  assumes "m_hIOCP s = INVALID_HANDLE_VALUE" and "IOCPService_init E s = (True, s1)"
    and "m_h s1 OBJ_workerThread \<noteq> INVALID_HANDLE_VALUE"
  defines "s2 \<equiv> IOCPService_free E s1"
  shows "m_hIOCP s2 = INVALID_HANDLE_VALUE \<and> m_h s2 OBJ_workerThread = INVALID_HANDLE_VALUE
    \<and> fst (IOCPService_init E s1) = False \<and> m_hIOCP (snd (IOCPService_init E s1)) = m_hIOCP s1
    \<and> trace (snd (IOCPService_init E s1)) = trace s1
    \<and> fst (IOCPService_init E s2) =
        (os E (trace s2) (Net (CreateIoCompletionPort INVALID_HANDLE_VALUE 0 0)) \<noteq> INVALID_HANDLE_VALUE)"
proof -
  have "m_hIOCP s1 \<noteq> INVALID_HANDLE_VALUE"
    using assms(1,2)
    by (auto simp: IOCPService_init_def sys_def emit_eq Attach_def Let_def split: if_splits)
  moreover from this have "m_hIOCP s2 = INVALID_HANDLE_VALUE" "m_h s2 OBJ_workerThread = INVALID_HANDLE_VALUE"
    using assms(3) by (simp_all add: s2_def IOCPService_free_def Close_def emit_eq Let_def)
  moreover from this(1) have "fst (IOCPService_init E s2) =
        (os E (trace s2) (Net (CreateIoCompletionPort INVALID_HANDLE_VALUE 0 0)) \<noteq> INVALID_HANDLE_VALUE)"
    by (simp add: IOCPService_init_def sys_def Let_def)
  ultimately show ?thesis by (simp add: IOCPService_init_def)
qed

text \<open>
  When the worker thread cannot be created, init reports success all the same, and the service
  is stuck: free returns at once without closing the port, and every later init fails.
\<close>

lemma iocp_thread_failure_sticks:
  assumes "m_hIOCP s = INVALID_HANDLE_VALUE" "m_h s OBJ_workerThread = INVALID_HANDLE_VALUE"
    and "\<And>tr. os E tr (Sync BeginThread) = 0"
    and "IOCPService_init E s = (True, s1)"
  shows "m_hIOCP s1 \<noteq> INVALID_HANDLE_VALUE \<and> IOCPService_free E s1 = s1 \<and>
    \<not> fst (IOCPService_init E s1)"
  using assms by (auto simp: IOCPService_init_def IOCPService_free_def sys_def emit_eq Let_def split: if_splits)

end
