(* ===== verification/Packed.thy ===== *)
theory Packed
  imports NF_Prelude
begin

text \<open>
  Packed structures (\<open>#pragma pack (push, 1)\<close>): the memory of a structure is the concatenation of
  the memory of its fields. The locale \<open>packed_struct\<close> is the contract of a wire format, and
  \<open>packed_layout\<close> the one of a structure that fills its memory exactly: every block of its size is
  an object. Fields are read one after the other by the \<open>get\<close> functions, which return the value
  and the rest of the buffer.
\<close>

section \<open>The contract of a wire format\<close>

text \<open>
  An encoded message has the size of its structure, it is read back whatever follows it in the
  buffer, and reading fails just when the buffer is too short.
\<close>

locale packed_struct =
  fixes size :: nat
    and enc :: "'r \<Rightarrow> bytes"
    and dec :: "bytes \<Rightarrow> 'r option"
    and ok :: "'r \<Rightarrow> bool"
  assumes enc_length: "ok r \<Longrightarrow> length (enc r) = size"
    and dec_enc: "ok r \<Longrightarrow> dec (enc r @ rest) = Some r"
    and dec_None: "dec b = None \<longleftrightarrow> length b < size"
begin

lemma dec_enc_exact: "ok r \<Longrightarrow> dec (enc r) = Some r"
  using dec_enc [of r "[]"] by simp

lemma enc_prefix_free:
  assumes "ok r" "ok r'" "enc r @ x = enc r' @ y"
  shows "r = r' \<and> x = y"
proof -
  have "Some r = dec (enc r @ x)" by (simp only: dec_enc [OF assms(1)])
  also have "\<dots> = Some r'" by (simp only: assms(3) dec_enc [OF assms(2)])
  finally have "r = r'" by simp
  then show ?thesis using assms(3) by simp
qed

lemma enc_inject: "ok r \<Longrightarrow> ok r' \<Longrightarrow> enc r = enc r' \<Longrightarrow> r = r'"
  using enc_prefix_free [of r r' "[]" "[]"] by auto

lemma dec_total: "size \<le> length b \<Longrightarrow> \<exists>r. dec b = Some r"
  using dec_None [of b] by force

end

section \<open>Layouts\<close>

text \<open>
  In a layout reading also loses nothing: what is read is well-formed, and writing it gives the bytes
  it was read from. So the objects of the structure are the blocks of its size.
\<close>

locale packed_layout = packed_struct +
  assumes dec_Some: "dec b = Some r \<Longrightarrow> ok r \<and> enc r = take size b"
begin

lemma object_of_block: "length b = size \<Longrightarrow> \<exists>!r. ok r \<and> enc r = b"
  using dec_total [of b] dec_Some [of b] enc_inject by auto

lemma dec_rest: "dec b = Some r \<Longrightarrow> b = enc r @ drop size b"
  using dec_Some [of b r] by simp

end

section \<open>Fields\<close>

definition le64 :: "u64 \<Rightarrow> bytes" where
  "le64 w = le32 (ucast w) @ le32 (ucast (drop_bit 32 w))"

definition get8 :: "bytes \<Rightarrow> (byte \<times> bytes) option" where
  "get8 b = (case b of x # r \<Rightarrow> Some (x, r) | _ \<Rightarrow> None)"

definition get16 :: "bytes \<Rightarrow> (u16 \<times> bytes) option" where
  "get16 b = (case b of x0 # x1 # r \<Rightarrow> Some (of_le16 x0 x1, r) | _ \<Rightarrow> None)"

definition get32 :: "bytes \<Rightarrow> (u32 \<times> bytes) option" where
  "get32 b = (case b of x0 # x1 # x2 # x3 # r \<Rightarrow> Some (of_le32 x0 x1 x2 x3, r) | _ \<Rightarrow> None)"

definition get64 :: "bytes \<Rightarrow> (u64 \<times> bytes) option" where
  "get64 b = do {
     (lo, b) \<leftarrow> get32 b;
     (hi, b) \<leftarrow> get32 b;
     Some (ucast lo OR push_bit 32 (ucast hi), b)
   }"

definition getn :: "nat \<Rightarrow> bytes \<Rightarrow> (bytes \<times> bytes) option" where
  "getn n b = (if n \<le> length b then Some (take n b, drop n b) else None)"

text \<open>An array of \<open>n\<close> wide characters.\<close>

definition le16s :: "u16 list \<Rightarrow> bytes" where
  "le16s ws = concat (map le16 ws)"

fun get16s :: "nat \<Rightarrow> bytes \<Rightarrow> (u16 list \<times> bytes) option" where
  "get16s 0 b = Some ([], b)"
| "get16s (Suc n) b = do {
     (w, b) \<leftarrow> get16 b;
     (ws, b) \<leftarrow> get16s n b;
     Some (w # ws, b)
   }"

named_theorems field_simps \<open>sizes of the fields of packed structures, and reading them\<close>

lemma of_le16_inv: "le16 (of_le16 x0 x1) = [x0, x1]"
proof -
  have "ucast (of_le16 x0 x1) = x0"
    by (rule bit_word_eqI) (auto simp: of_le16_def bit_simps)
  moreover have "ucast (drop_bit 8 (of_le16 x0 x1)) = x1"
    by (rule bit_word_eqI) (auto simp: of_le16_def bit_simps dest: bit_imp_le_length)
  ultimately show ?thesis by (simp add: le16_def)
qed

lemma of_le32_inv: "le32 (of_le32 x0 x1 x2 x3) = [x0, x1, x2, x3]"
proof -
  have "ucast (of_le32 x0 x1 x2 x3) = x0" "ucast (drop_bit 8 (of_le32 x0 x1 x2 x3)) = x1"
    "ucast (drop_bit 16 (of_le32 x0 x1 x2 x3)) = x2" "ucast (drop_bit 24 (of_le32 x0 x1 x2 x3)) = x3"
    by (rule bit_word_eqI; force simp: of_le32_def bit_simps dest: bit_imp_le_length)+
  then show ?thesis by (simp add: le32_def)
qed

lemma get8_iff [field_simps]: "get8 b = Some (w, r) \<longleftrightarrow> b = w # r"
  by (auto simp: get8_def split: list.splits)

lemma get16_iff [field_simps]: "get16 b = Some (w, r) \<longleftrightarrow> b = le16 w @ r"
  by (auto simp: get16_def of_le16_inv split: list.splits) (simp_all add: le16_def)

lemma get32_iff [field_simps]: "get32 b = Some (w, r) \<longleftrightarrow> b = le32 w @ r"
  by (auto simp: get32_def of_le32_inv split: list.splits) (simp_all add: le32_def)

lemma word_halves: "(ucast (ucast w :: u32) OR push_bit 32 (ucast (ucast (drop_bit 32 w) :: u32)) :: u64) = w"
  by (rule bit_word_eqI) (auto simp: bit_simps)

lemma halves_word:
  "(ucast (ucast lo OR push_bit 32 (ucast hi) :: u64) :: u32) = lo"
  "(ucast (drop_bit 32 (ucast lo OR push_bit 32 (ucast hi) :: u64)) :: u32) = hi"
  by (rule bit_word_eqI; force simp: bit_simps dest: bit_imp_le_length)+

lemma get64_iff [field_simps]: "get64 b = Some (w, r) \<longleftrightarrow> b = le64 w @ r"
proof
  assume "get64 b = Some (w, r)"
  then obtain lo hi where "b = le32 lo @ le32 hi @ r" "w = ucast lo OR push_bit 32 (ucast hi)"
    unfolding get64_def by (auto simp: bind_eq_Some_conv get32_iff)
  then show "b = le64 w @ r" by (simp only: le64_def halves_word append.assoc)
next
  have get: "get32 (le32 x @ y) = Some (x, y)" for x y by (simp add: get32_iff)
  assume "b = le64 w @ r"
  then show "get64 b = Some (w, r)"
    by (simp only: get64_def le64_def append.assoc get bind.bind_lunit prod.case word_halves)
qed

lemma getn_iff [field_simps]: "getn n b = Some (x, r) \<longleftrightarrow> length x = n \<and> b = x @ r"
  by (auto simp: getn_def)

lemma get16s_iff [field_simps]: "get16s n b = Some (ws, r) \<longleftrightarrow> length ws = n \<and> b = le16s ws @ r"
  by (induction n arbitrary: b ws r)
    (auto simp: le16s_def bind_eq_Some_conv get16_iff length_Suc_conv)

lemma bind_eq_None_conv: "Option.bind x f = None \<longleftrightarrow> x = None \<or> (\<exists>y. x = Some y \<and> f y = None)"
  by (cases x) auto

text \<open>What a reader returns on a buffer that is long enough.\<close>

named_theorems field_total \<open>reading a field from a buffer that holds it\<close>

definition field_value :: "(bytes \<Rightarrow> ('x \<times> bytes) option) \<Rightarrow> bytes \<Rightarrow> 'x" where
  "field_value g b = fst (the (g b))"

lemma field_valueI: "\<exists>x. g b = Some (x, r) \<Longrightarrow> g b = Some (field_value g b, r)"
  by (auto simp: field_value_def)

lemma get8_total [field_total]: "1 \<le> length b \<Longrightarrow> get8 b = Some (field_value get8 b, drop 1 b)"
  by (rule field_valueI) (cases b, simp_all add: get8_def)

lemma get16_total [field_total]: "2 \<le> length b \<Longrightarrow> get16 b = Some (field_value get16 b, drop 2 b)"
  by (rule field_valueI) (auto simp: get16_def numeral_eq_Suc Suc_le_length_iff)

lemma get32_total [field_total]: "4 \<le> length b \<Longrightarrow> get32 b = Some (field_value get32 b, drop 4 b)"
  by (rule field_valueI) (auto simp: get32_def numeral_eq_Suc Suc_le_length_iff)

lemma get64_total [field_total]: "8 \<le> length b \<Longrightarrow> get64 b = Some (field_value get64 b, drop 8 b)"
  by (rule field_valueI) (simp add: get64_def get32_total)

lemma getn_total [field_total]: "n \<le> length b \<Longrightarrow> getn n b = Some (field_value (getn n) b, drop n b)"
  by (rule field_valueI) (simp add: getn_def)

lemma get16s_total [field_total]:
  "2 * n \<le> length b \<Longrightarrow> get16s n b = Some (field_value (get16s n) b, drop (2 * n) b)"
proof (induction n arbitrary: b)
  case (Suc n)
  then have "2 * n \<le> length (drop 2 b)" by simp
  from Suc.IH [OF this] Suc.prems show ?case
    by (intro field_valueI) (simp add: get16_total)
qed (simp add: field_value_def)

lemma length_le64 [field_simps, size_simps]: "length (le64 w) = 8"
  by (simp add: le64_def)

lemma length_le16s [field_simps, size_simps]: "length (le16s ws) = 2 * length ws"
  by (induction ws) (simp_all add: le16s_def)

text \<open>
  A structure whose reader accepts just the encodings of its well-formed objects, and whose encodings
  have one size, is a layout.
\<close>

lemma packed_layoutI:
  assumes len: "\<And>r. ok r \<Longrightarrow> length (enc r) = n"
    and dec: "\<And>b r. dec b = Some r \<longleftrightarrow> ok r \<and> (\<exists>rest. b = enc r @ rest)"
    and total: "\<And>b. length b = n \<Longrightarrow> dec b \<noteq> None"
  shows "packed_layout n enc dec ok"
proof
  fix r rest assume "ok r"
  then show "length (enc r) = n" "dec (enc r @ rest) = Some r" using len dec by blast+
next
  fix b show "dec b = None \<longleftrightarrow> length b < n"
  proof (cases "length b < n")
    case True
    { fix r assume "dec b = Some r"
      then obtain rest where "ok r" "b = enc r @ rest" using dec by blast
      with len [of r] True have False by simp }
    with True show ?thesis by (cases "dec b") blast+
  next
    case False
    then have "length (take n b) = n" by simp
    then obtain r where "dec (take n b) = Some r" using total by blast
    then obtain rest where "ok r" "take n b = enc r @ rest" using dec by blast
    then have "b = enc r @ rest @ drop n b" by (metis append.assoc append_take_drop_id)
    with \<open>ok r\<close> dec have "dec b = Some r" by blast
    with False show ?thesis by simp
  qed
next
  fix b r assume "dec b = Some r"
  then obtain rest where "ok r" "b = enc r @ rest" using dec by blast
  with len show "ok r \<and> enc r = take n b" by simp
qed

end
