(* ===== verification/Socks.thy ===== *)
theory Socks
  imports Packed
begin

text \<open>
  \<open>src/netfilter/SOCKS.h\<close>: the SOCKS4 and SOCKS5 messages. The structures are packed
  (\<open>#pragma pack (push, 1)\<close>), so a structure is the concatenation of its fields; \<open>enc_X\<close> is the
  memory of a structure \<open>X\<close>, \<open>dec_X\<close> reads one through a pointer to a buffer and is \<open>None\<close> when
  the buffer is shorter than the structure. Every pair satisfies the interface \<open>packed_struct\<close> of \<open>Packed\<close>.
\<close>

section \<open>Constants\<close>

definition SOCKS_4 :: byte where "SOCKS_4 = 4"
definition SOCKS_5 :: byte where "SOCKS_5 = 5"
definition S4C_CONNECT :: byte where "S4C_CONNECT = 1"
definition S4C_BIND :: byte where "S4C_BIND = 2"
definition S4RC_SUCCESS :: byte where "S4RC_SUCCESS = 0x5a"
definition S5C_CONNECT :: byte where "S5C_CONNECT = 1"
definition S5C_BIND :: byte where "S5C_BIND = 2"
definition S5C_UDP_ASSOCIATE :: byte where "S5C_UDP_ASSOCIATE = 3"
definition S5AM_NONE :: byte where "S5AM_NONE = 0"
definition S5AM_GSSAPI :: byte where "S5AM_GSSAPI = 1"
definition S5AM_UNPW :: byte where "S5AM_UNPW = 2"
definition SOCKS5_ADDR_IPV4 :: byte where "SOCKS5_ADDR_IPV4 = 1"
definition SOCKS5_ADDR_DOMAIN :: byte where "SOCKS5_ADDR_DOMAIN = 3"
definition SOCKS5_ADDR_IPV6 :: byte where "SOCKS5_ADDR_IPV6 = 4"

lemmas socks_consts = SOCKS_4_def SOCKS_5_def S4C_CONNECT_def S5C_UDP_ASSOCIATE_def S5AM_NONE_def
  S5AM_UNPW_def SOCKS5_ADDR_IPV4_def SOCKS5_ADDR_IPV6_def

section \<open>Reading structures\<close>

lemmas packed_eval = rd8_def rd16_def rd32_def rdn_def le16_def le32_def

section \<open>SOCKS4\<close>

record SOCKS4_REQUEST =
  s4q_version :: byte
  s4q_command :: byte
  s4q_port :: u16
  s4q_ip :: u32
  s4q_userid :: bytes

definition sizeof_SOCKS4_REQUEST :: nat where "sizeof_SOCKS4_REQUEST = 9"

definition enc_SOCKS4_REQUEST :: "SOCKS4_REQUEST \<Rightarrow> bytes" where
  "enc_SOCKS4_REQUEST r = [s4q_version r] @ [s4q_command r] @ le16 (s4q_port r) @ le32 (s4q_ip r) @ s4q_userid r"

definition dec_SOCKS4_REQUEST :: "bytes \<Rightarrow> SOCKS4_REQUEST option" where
  "dec_SOCKS4_REQUEST b = do {
     version \<leftarrow> rd8 0 b;
     command \<leftarrow> rd8 1 b;
     port \<leftarrow> rd16 2 b;
     ip \<leftarrow> rd32 4 b;
     userid \<leftarrow> rdn 8 1 b;
     Some \<lparr>s4q_version = version, s4q_command = command, s4q_port = port, s4q_ip = ip, s4q_userid = userid\<rparr>
   }"

interpretation s4q: packed_struct sizeof_SOCKS4_REQUEST enc_SOCKS4_REQUEST dec_SOCKS4_REQUEST
  "\<lambda>r. length (s4q_userid r) = 1"
  by unfold_locales (auto simp: enc_SOCKS4_REQUEST_def dec_SOCKS4_REQUEST_def sizeof_SOCKS4_REQUEST_def packed_eval
      nth_append bind_eq_None_conv)

record SOCKS4_RESPONSE =
  s4r_reserved :: byte
  s4r_res_code :: byte
  s4r_port :: u16
  s4r_ip :: u32

definition sizeof_SOCKS4_RESPONSE :: nat where "sizeof_SOCKS4_RESPONSE = 8"

definition enc_SOCKS4_RESPONSE :: "SOCKS4_RESPONSE \<Rightarrow> bytes" where
  "enc_SOCKS4_RESPONSE r = [s4r_reserved r] @ [s4r_res_code r] @ le16 (s4r_port r) @ le32 (s4r_ip r)"

definition dec_SOCKS4_RESPONSE :: "bytes \<Rightarrow> SOCKS4_RESPONSE option" where
  "dec_SOCKS4_RESPONSE b = do {
     reserved \<leftarrow> rd8 0 b;
     res_code \<leftarrow> rd8 1 b;
     port \<leftarrow> rd16 2 b;
     ip \<leftarrow> rd32 4 b;
     Some \<lparr>s4r_reserved = reserved, s4r_res_code = res_code, s4r_port = port, s4r_ip = ip\<rparr>
   }"

interpretation s4r: packed_struct sizeof_SOCKS4_RESPONSE enc_SOCKS4_RESPONSE dec_SOCKS4_RESPONSE
  "\<lambda>r. True"
  by unfold_locales (auto simp: enc_SOCKS4_RESPONSE_def dec_SOCKS4_RESPONSE_def sizeof_SOCKS4_RESPONSE_def packed_eval
      nth_append bind_eq_None_conv)

section \<open>SOCKS5\<close>

record SOCKS5_AUTH_REQUEST =
  s5aq_version :: byte
  s5aq_nmethods :: byte
  s5aq_methods :: bytes

definition sizeof_SOCKS5_AUTH_REQUEST :: nat where "sizeof_SOCKS5_AUTH_REQUEST = 3"

definition enc_SOCKS5_AUTH_REQUEST :: "SOCKS5_AUTH_REQUEST \<Rightarrow> bytes" where
  "enc_SOCKS5_AUTH_REQUEST r = [s5aq_version r] @ [s5aq_nmethods r] @ s5aq_methods r"

definition dec_SOCKS5_AUTH_REQUEST :: "bytes \<Rightarrow> SOCKS5_AUTH_REQUEST option" where
  "dec_SOCKS5_AUTH_REQUEST b = do {
     version \<leftarrow> rd8 0 b;
     nmethods \<leftarrow> rd8 1 b;
     methods \<leftarrow> rdn 2 1 b;
     Some \<lparr>s5aq_version = version, s5aq_nmethods = nmethods, s5aq_methods = methods\<rparr>
   }"

interpretation s5aq: packed_struct sizeof_SOCKS5_AUTH_REQUEST enc_SOCKS5_AUTH_REQUEST dec_SOCKS5_AUTH_REQUEST
  "\<lambda>r. length (s5aq_methods r) = 1"
  by unfold_locales (auto simp: enc_SOCKS5_AUTH_REQUEST_def dec_SOCKS5_AUTH_REQUEST_def sizeof_SOCKS5_AUTH_REQUEST_def packed_eval
      nth_append bind_eq_None_conv)

record SOCK5_AUTH_RESPONSE =
  s5ar_version :: byte
  s5ar_method :: byte

definition sizeof_SOCK5_AUTH_RESPONSE :: nat where "sizeof_SOCK5_AUTH_RESPONSE = 2"

definition enc_SOCK5_AUTH_RESPONSE :: "SOCK5_AUTH_RESPONSE \<Rightarrow> bytes" where
  "enc_SOCK5_AUTH_RESPONSE r = [s5ar_version r] @ [s5ar_method r]"

definition dec_SOCK5_AUTH_RESPONSE :: "bytes \<Rightarrow> SOCK5_AUTH_RESPONSE option" where
  "dec_SOCK5_AUTH_RESPONSE b = do {
     version \<leftarrow> rd8 0 b;
     method \<leftarrow> rd8 1 b;
     Some \<lparr>s5ar_version = version, s5ar_method = method\<rparr>
   }"

interpretation s5ar: packed_struct sizeof_SOCK5_AUTH_RESPONSE enc_SOCK5_AUTH_RESPONSE dec_SOCK5_AUTH_RESPONSE
  "\<lambda>r. True"
  by unfold_locales (auto simp: enc_SOCK5_AUTH_RESPONSE_def dec_SOCK5_AUTH_RESPONSE_def sizeof_SOCK5_AUTH_RESPONSE_def packed_eval
      nth_append bind_eq_None_conv)

record SOCKS5_REQUEST =
  s5q_version :: byte
  s5q_command :: byte
  s5q_reserved :: byte
  s5q_address_type :: byte
  s5q_address :: bytes

definition sizeof_SOCKS5_REQUEST :: nat where "sizeof_SOCKS5_REQUEST = 5"

definition enc_SOCKS5_REQUEST :: "SOCKS5_REQUEST \<Rightarrow> bytes" where
  "enc_SOCKS5_REQUEST r = [s5q_version r] @ [s5q_command r] @ [s5q_reserved r] @ [s5q_address_type r] @ s5q_address r"

definition dec_SOCKS5_REQUEST :: "bytes \<Rightarrow> SOCKS5_REQUEST option" where
  "dec_SOCKS5_REQUEST b = do {
     version \<leftarrow> rd8 0 b;
     command \<leftarrow> rd8 1 b;
     reserved \<leftarrow> rd8 2 b;
     address_type \<leftarrow> rd8 3 b;
     address \<leftarrow> rdn 4 1 b;
     Some \<lparr>s5q_version = version, s5q_command = command, s5q_reserved = reserved, s5q_address_type = address_type, s5q_address = address\<rparr>
   }"

interpretation s5q: packed_struct sizeof_SOCKS5_REQUEST enc_SOCKS5_REQUEST dec_SOCKS5_REQUEST
  "\<lambda>r. length (s5q_address r) = 1"
  by unfold_locales (auto simp: enc_SOCKS5_REQUEST_def dec_SOCKS5_REQUEST_def sizeof_SOCKS5_REQUEST_def packed_eval
      nth_append bind_eq_None_conv)

record SOCKS5_REQUEST_IPv4 =
  s5q4_version :: byte
  s5q4_command :: byte
  s5q4_reserved :: byte
  s5q4_address_type :: byte
  s5q4_address :: u32
  s5q4_port :: u16

definition sizeof_SOCKS5_REQUEST_IPv4 :: nat where "sizeof_SOCKS5_REQUEST_IPv4 = 10"

definition enc_SOCKS5_REQUEST_IPv4 :: "SOCKS5_REQUEST_IPv4 \<Rightarrow> bytes" where
  "enc_SOCKS5_REQUEST_IPv4 r = [s5q4_version r] @ [s5q4_command r] @ [s5q4_reserved r] @ [s5q4_address_type r] @ le32 (s5q4_address r) @ le16 (s5q4_port r)"

definition dec_SOCKS5_REQUEST_IPv4 :: "bytes \<Rightarrow> SOCKS5_REQUEST_IPv4 option" where
  "dec_SOCKS5_REQUEST_IPv4 b = do {
     version \<leftarrow> rd8 0 b;
     command \<leftarrow> rd8 1 b;
     reserved \<leftarrow> rd8 2 b;
     address_type \<leftarrow> rd8 3 b;
     address \<leftarrow> rd32 4 b;
     port \<leftarrow> rd16 8 b;
     Some \<lparr>s5q4_version = version, s5q4_command = command, s5q4_reserved = reserved, s5q4_address_type = address_type, s5q4_address = address, s5q4_port = port\<rparr>
   }"

interpretation s5q4: packed_struct sizeof_SOCKS5_REQUEST_IPv4 enc_SOCKS5_REQUEST_IPv4 dec_SOCKS5_REQUEST_IPv4
  "\<lambda>r. True"
  by unfold_locales (auto simp: enc_SOCKS5_REQUEST_IPv4_def dec_SOCKS5_REQUEST_IPv4_def sizeof_SOCKS5_REQUEST_IPv4_def packed_eval
      nth_append bind_eq_None_conv)

record SOCKS5_REQUEST_IPv6 =
  s5q6_version :: byte
  s5q6_command :: byte
  s5q6_reserved :: byte
  s5q6_address_type :: byte
  s5q6_address :: bytes
  s5q6_port :: u16

definition sizeof_SOCKS5_REQUEST_IPv6 :: nat where "sizeof_SOCKS5_REQUEST_IPv6 = 22"

definition enc_SOCKS5_REQUEST_IPv6 :: "SOCKS5_REQUEST_IPv6 \<Rightarrow> bytes" where
  "enc_SOCKS5_REQUEST_IPv6 r = [s5q6_version r] @ [s5q6_command r] @ [s5q6_reserved r] @ [s5q6_address_type r] @ s5q6_address r @ le16 (s5q6_port r)"

definition dec_SOCKS5_REQUEST_IPv6 :: "bytes \<Rightarrow> SOCKS5_REQUEST_IPv6 option" where
  "dec_SOCKS5_REQUEST_IPv6 b = do {
     version \<leftarrow> rd8 0 b;
     command \<leftarrow> rd8 1 b;
     reserved \<leftarrow> rd8 2 b;
     address_type \<leftarrow> rd8 3 b;
     address \<leftarrow> rdn 4 16 b;
     port \<leftarrow> rd16 20 b;
     Some \<lparr>s5q6_version = version, s5q6_command = command, s5q6_reserved = reserved, s5q6_address_type = address_type, s5q6_address = address, s5q6_port = port\<rparr>
   }"

interpretation s5q6: packed_struct sizeof_SOCKS5_REQUEST_IPv6 enc_SOCKS5_REQUEST_IPv6 dec_SOCKS5_REQUEST_IPv6
  "\<lambda>r. length (s5q6_address r) = 16"
  by unfold_locales (auto simp: enc_SOCKS5_REQUEST_IPv6_def dec_SOCKS5_REQUEST_IPv6_def sizeof_SOCKS5_REQUEST_IPv6_def packed_eval
      nth_append bind_eq_None_conv)

record SOCKS5_RESPONSE =
  s5r_version :: byte
  s5r_res_code :: byte
  s5r_reserved :: byte
  s5r_address_type :: byte
  s5r_address :: bytes

definition sizeof_SOCKS5_RESPONSE :: nat where "sizeof_SOCKS5_RESPONSE = 5"

definition enc_SOCKS5_RESPONSE :: "SOCKS5_RESPONSE \<Rightarrow> bytes" where
  "enc_SOCKS5_RESPONSE r = [s5r_version r] @ [s5r_res_code r] @ [s5r_reserved r] @ [s5r_address_type r] @ s5r_address r"

definition dec_SOCKS5_RESPONSE :: "bytes \<Rightarrow> SOCKS5_RESPONSE option" where
  "dec_SOCKS5_RESPONSE b = do {
     version \<leftarrow> rd8 0 b;
     res_code \<leftarrow> rd8 1 b;
     reserved \<leftarrow> rd8 2 b;
     address_type \<leftarrow> rd8 3 b;
     address \<leftarrow> rdn 4 1 b;
     Some \<lparr>s5r_version = version, s5r_res_code = res_code, s5r_reserved = reserved, s5r_address_type = address_type, s5r_address = address\<rparr>
   }"

interpretation s5r: packed_struct sizeof_SOCKS5_RESPONSE enc_SOCKS5_RESPONSE dec_SOCKS5_RESPONSE
  "\<lambda>r. length (s5r_address r) = 1"
  by unfold_locales (auto simp: enc_SOCKS5_RESPONSE_def dec_SOCKS5_RESPONSE_def sizeof_SOCKS5_RESPONSE_def packed_eval
      nth_append bind_eq_None_conv)

record SOCKS5_RESPONSE_IPv4 =
  s5r4_version :: byte
  s5r4_res_code :: byte
  s5r4_reserved :: byte
  s5r4_address_type :: byte
  s5r4_address :: u32
  s5r4_port :: u16

definition sizeof_SOCKS5_RESPONSE_IPv4 :: nat where "sizeof_SOCKS5_RESPONSE_IPv4 = 10"

definition enc_SOCKS5_RESPONSE_IPv4 :: "SOCKS5_RESPONSE_IPv4 \<Rightarrow> bytes" where
  "enc_SOCKS5_RESPONSE_IPv4 r = [s5r4_version r] @ [s5r4_res_code r] @ [s5r4_reserved r] @ [s5r4_address_type r] @ le32 (s5r4_address r) @ le16 (s5r4_port r)"

definition dec_SOCKS5_RESPONSE_IPv4 :: "bytes \<Rightarrow> SOCKS5_RESPONSE_IPv4 option" where
  "dec_SOCKS5_RESPONSE_IPv4 b = do {
     version \<leftarrow> rd8 0 b;
     res_code \<leftarrow> rd8 1 b;
     reserved \<leftarrow> rd8 2 b;
     address_type \<leftarrow> rd8 3 b;
     address \<leftarrow> rd32 4 b;
     port \<leftarrow> rd16 8 b;
     Some \<lparr>s5r4_version = version, s5r4_res_code = res_code, s5r4_reserved = reserved, s5r4_address_type = address_type, s5r4_address = address, s5r4_port = port\<rparr>
   }"

interpretation s5r4: packed_struct sizeof_SOCKS5_RESPONSE_IPv4 enc_SOCKS5_RESPONSE_IPv4 dec_SOCKS5_RESPONSE_IPv4
  "\<lambda>r. True"
  by unfold_locales (auto simp: enc_SOCKS5_RESPONSE_IPv4_def dec_SOCKS5_RESPONSE_IPv4_def sizeof_SOCKS5_RESPONSE_IPv4_def packed_eval
      nth_append bind_eq_None_conv)

record SOCKS5_RESPONSE_IPv6 =
  s5r6_version :: byte
  s5r6_res_code :: byte
  s5r6_reserved :: byte
  s5r6_address_type :: byte
  s5r6_address :: bytes
  s5r6_port :: u16

definition sizeof_SOCKS5_RESPONSE_IPv6 :: nat where "sizeof_SOCKS5_RESPONSE_IPv6 = 22"

definition enc_SOCKS5_RESPONSE_IPv6 :: "SOCKS5_RESPONSE_IPv6 \<Rightarrow> bytes" where
  "enc_SOCKS5_RESPONSE_IPv6 r = [s5r6_version r] @ [s5r6_res_code r] @ [s5r6_reserved r] @ [s5r6_address_type r] @ s5r6_address r @ le16 (s5r6_port r)"

definition dec_SOCKS5_RESPONSE_IPv6 :: "bytes \<Rightarrow> SOCKS5_RESPONSE_IPv6 option" where
  "dec_SOCKS5_RESPONSE_IPv6 b = do {
     version \<leftarrow> rd8 0 b;
     res_code \<leftarrow> rd8 1 b;
     reserved \<leftarrow> rd8 2 b;
     address_type \<leftarrow> rd8 3 b;
     address \<leftarrow> rdn 4 16 b;
     port \<leftarrow> rd16 20 b;
     Some \<lparr>s5r6_version = version, s5r6_res_code = res_code, s5r6_reserved = reserved, s5r6_address_type = address_type, s5r6_address = address, s5r6_port = port\<rparr>
   }"

interpretation s5r6: packed_struct sizeof_SOCKS5_RESPONSE_IPv6 enc_SOCKS5_RESPONSE_IPv6 dec_SOCKS5_RESPONSE_IPv6
  "\<lambda>r. length (s5r6_address r) = 16"
  by unfold_locales (auto simp: enc_SOCKS5_RESPONSE_IPv6_def dec_SOCKS5_RESPONSE_IPv6_def sizeof_SOCKS5_RESPONSE_IPv6_def packed_eval
      nth_append bind_eq_None_conv)

section \<open>SOCKS5 UDP header\<close>

record SOCKS5_UDP_REQUEST =
  s5u_reserved :: u16
  s5u_frag :: byte
  s5u_address_type :: byte

definition sizeof_SOCKS5_UDP_REQUEST :: nat where "sizeof_SOCKS5_UDP_REQUEST = 4"

definition enc_SOCKS5_UDP_REQUEST :: "SOCKS5_UDP_REQUEST \<Rightarrow> bytes" where
  "enc_SOCKS5_UDP_REQUEST r = le16 (s5u_reserved r) @ [s5u_frag r] @ [s5u_address_type r]"

definition dec_SOCKS5_UDP_REQUEST :: "bytes \<Rightarrow> SOCKS5_UDP_REQUEST option" where
  "dec_SOCKS5_UDP_REQUEST b = do {
     reserved \<leftarrow> rd16 0 b;
     frag \<leftarrow> rd8 2 b;
     address_type \<leftarrow> rd8 3 b;
     Some \<lparr>s5u_reserved = reserved, s5u_frag = frag, s5u_address_type = address_type\<rparr>
   }"

interpretation s5u: packed_struct sizeof_SOCKS5_UDP_REQUEST enc_SOCKS5_UDP_REQUEST dec_SOCKS5_UDP_REQUEST
  "\<lambda>r. True"
  by unfold_locales (auto simp: enc_SOCKS5_UDP_REQUEST_def dec_SOCKS5_UDP_REQUEST_def sizeof_SOCKS5_UDP_REQUEST_def packed_eval
      nth_append bind_eq_None_conv)

record SOCKS5_UDP_REQUEST_IPv4 =
  s5u4_reserved :: u16
  s5u4_frag :: byte
  s5u4_address_type :: byte
  s5u4_address :: u32
  s5u4_port :: u16

definition sizeof_SOCKS5_UDP_REQUEST_IPv4 :: nat where "sizeof_SOCKS5_UDP_REQUEST_IPv4 = 10"

definition enc_SOCKS5_UDP_REQUEST_IPv4 :: "SOCKS5_UDP_REQUEST_IPv4 \<Rightarrow> bytes" where
  "enc_SOCKS5_UDP_REQUEST_IPv4 r = le16 (s5u4_reserved r) @ [s5u4_frag r] @ [s5u4_address_type r] @ le32 (s5u4_address r) @ le16 (s5u4_port r)"

definition dec_SOCKS5_UDP_REQUEST_IPv4 :: "bytes \<Rightarrow> SOCKS5_UDP_REQUEST_IPv4 option" where
  "dec_SOCKS5_UDP_REQUEST_IPv4 b = do {
     reserved \<leftarrow> rd16 0 b;
     frag \<leftarrow> rd8 2 b;
     address_type \<leftarrow> rd8 3 b;
     address \<leftarrow> rd32 4 b;
     port \<leftarrow> rd16 8 b;
     Some \<lparr>s5u4_reserved = reserved, s5u4_frag = frag, s5u4_address_type = address_type, s5u4_address = address, s5u4_port = port\<rparr>
   }"

interpretation s5u4: packed_struct sizeof_SOCKS5_UDP_REQUEST_IPv4 enc_SOCKS5_UDP_REQUEST_IPv4 dec_SOCKS5_UDP_REQUEST_IPv4
  "\<lambda>r. True"
  by unfold_locales (auto simp: enc_SOCKS5_UDP_REQUEST_IPv4_def dec_SOCKS5_UDP_REQUEST_IPv4_def sizeof_SOCKS5_UDP_REQUEST_IPv4_def packed_eval
      nth_append bind_eq_None_conv)

record SOCKS5_UDP_REQUEST_IPv6 =
  s5u6_reserved :: u16
  s5u6_frag :: byte
  s5u6_address_type :: byte
  s5u6_address :: bytes
  s5u6_port :: u16

definition sizeof_SOCKS5_UDP_REQUEST_IPv6 :: nat where "sizeof_SOCKS5_UDP_REQUEST_IPv6 = 22"

definition enc_SOCKS5_UDP_REQUEST_IPv6 :: "SOCKS5_UDP_REQUEST_IPv6 \<Rightarrow> bytes" where
  "enc_SOCKS5_UDP_REQUEST_IPv6 r = le16 (s5u6_reserved r) @ [s5u6_frag r] @ [s5u6_address_type r] @ s5u6_address r @ le16 (s5u6_port r)"

definition dec_SOCKS5_UDP_REQUEST_IPv6 :: "bytes \<Rightarrow> SOCKS5_UDP_REQUEST_IPv6 option" where
  "dec_SOCKS5_UDP_REQUEST_IPv6 b = do {
     reserved \<leftarrow> rd16 0 b;
     frag \<leftarrow> rd8 2 b;
     address_type \<leftarrow> rd8 3 b;
     address \<leftarrow> rdn 4 16 b;
     port \<leftarrow> rd16 20 b;
     Some \<lparr>s5u6_reserved = reserved, s5u6_frag = frag, s5u6_address_type = address_type, s5u6_address = address, s5u6_port = port\<rparr>
   }"

interpretation s5u6: packed_struct sizeof_SOCKS5_UDP_REQUEST_IPv6 enc_SOCKS5_UDP_REQUEST_IPv6 dec_SOCKS5_UDP_REQUEST_IPv6
  "\<lambda>r. length (s5u6_address r) = 16"
  by unfold_locales (auto simp: enc_SOCKS5_UDP_REQUEST_IPv6_def dec_SOCKS5_UDP_REQUEST_IPv6_def sizeof_SOCKS5_UDP_REQUEST_IPv6_def packed_eval
      nth_append bind_eq_None_conv)

end
