(* ===== verification/Udp_Proxy.thy ===== *)
theory Udp_Proxy
  imports Iocp Socks
begin

text \<open>
  \<open>src/netfilter/UdpProxy.h\<close> and \<open>UDPProxy.cpp\<close>: the SOCKS5 UDP-associate client. Definitions
  only; the proofs are in the theories that import this one.

  A pointer to a heap object is a number: \<open>OV_DATA\<close> objects live in \<open>m_ovDataSet\<close>, which is at once
  the code's set of live objects and the heap (the code frees an object exactly when it erases it
  from the set), and \<open>next_ov\<close> is the next fresh address. \<open>PROXY_DATA\<close> objects are owned by
  \<open>m_socketMap\<close>. A result \<open>None\<close> means that the call does not return normally: an access outside
  an object or to a freed one, or a loop that does not end. The members that \<open>OV_DATA ()\<close> leaves
  uninitialised start as zero; every caller sets them before the object is used.
\<close>

section \<open>Data\<close>

definition PACKET_SIZE :: nat where "PACKET_SIZE = 65536"

datatype OV_TYPE = OVT_CONNECT | OVT_TCP_SEND | OVT_TCP_RECEIVE | OVT_UDP_SEND | OVT_UDP_RECEIVE

record OV_DATA =
  ov_id :: u64
  ov_type :: OV_TYPE
  ov_remoteAddress :: bytes
  ov_remoteAddressLen :: int
  ov_buffer :: bytes

definition new_OV_DATA :: OV_DATA where
  "new_OV_DATA = \<lparr>ov_id = 0, ov_type = OVT_CONNECT,
     ov_remoteAddress = replicate NF_MAX_ADDRESS_LENGTH 0, ov_remoteAddressLen = 0, ov_buffer = []\<rparr>"

datatype PROXY_STATE =
  PS_NONE | PS_AUTH | PS_AUTH_NEGOTIATION | PS_UDP_ASSOC | PS_CONNECTED | PS_CLOSED

record UDP_PACKET =
  pk_remoteAddress :: bytes
  pk_remoteAddressLen :: int
  pk_buffer :: bytes

record PROXY_DATA =
  tcpSocket :: sock
  udpSocket :: sock
  proxyState :: PROXY_STATE
  pd_remoteAddress :: bytes
  pd_remoteAddressLen :: int
  userName :: bytes
  userPassword :: bytes
  udpSendPackets :: "UDP_PACKET list"
  udpRecvStarted :: bool

definition new_PROXY_DATA :: PROXY_DATA where
  "new_PROXY_DATA = \<lparr>tcpSocket = INVALID_SOCKET, udpSocket = INVALID_SOCKET, proxyState = PS_NONE,
     pd_remoteAddress = replicate NF_MAX_ADDRESS_LENGTH 0, pd_remoteAddressLen = 0,
     userName = [], userPassword = [], udpSendPackets = [], udpRecvStarted = False\<rparr>"

definition delete_PROXY_DATA :: "env \<Rightarrow> PROXY_DATA \<Rightarrow> 'a world_scheme \<Rightarrow> 'a world_scheme" where
  "delete_PROXY_DATA E pd s =
     (let s = (if tcpSocket pd \<noteq> INVALID_SOCKET
               then let s = emit E (Net (Shutdown (tcpSocket pd))) s
                    in emit E (Net (Closesocket (tcpSocket pd))) s
               else s)
      in if udpSocket pd \<noteq> INVALID_SOCKET then emit E (Net (Closesocket (udpSocket pd))) s else s)"

record udp_proxy = iocp +
  m_ovDataSet :: "(ovp \<times> OV_DATA) list"
  next_ov :: ovp
  m_socketMap :: "(u64 \<times> PROXY_DATA) list"
  m_pConnectEx :: u64
  m_proxyAddress :: bytes
  m_proxyAddressLen :: int
  m_userName :: bytes
  m_userPassword :: bytes
  m_pProxyHandler :: bool

text \<open>Assignments through a pointer to a live object.\<close>

definition ov_upd :: "ovp \<Rightarrow> (OV_DATA \<Rightarrow> OV_DATA) \<Rightarrow> 'a udp_proxy_scheme \<Rightarrow> 'a udp_proxy_scheme" where
  "ov_upd p f s = (case map_of (m_ovDataSet s) p of
       None \<Rightarrow> s
     | Some d \<Rightarrow> s\<lparr>m_ovDataSet := m_insert p (f d) (m_ovDataSet s)\<rparr>)"

definition pd_upd :: "u64 \<Rightarrow> (PROXY_DATA \<Rightarrow> PROXY_DATA) \<Rightarrow> 'a udp_proxy_scheme \<Rightarrow> 'a udp_proxy_scheme" where
  "pd_upd cid f s = (case map_of (m_socketMap s) cid of
       None \<Rightarrow> s
     | Some pd \<Rightarrow> s\<lparr>m_socketMap := m_insert cid (f pd) (m_socketMap s)\<rparr>)"

abbreviation enter_cs :: "env \<Rightarrow> 'a world_scheme \<Rightarrow> 'a world_scheme" where
  "enter_cs E \<equiv> emit E (Sync (Acquire ProxyCs))"

abbreviation leave_cs :: "env \<Rightarrow> 'a world_scheme \<Rightarrow> 'a world_scheme" where
  "leave_cs E \<equiv> emit E (Sync (Release ProxyCs))"

section \<open>Request objects\<close>

definition newOV_DATA :: "env \<Rightarrow> 'a udp_proxy_scheme \<Rightarrow> ovp \<times> 'a udp_proxy_scheme" where
  "newOV_DATA E s =
     (let pov = next_ov s;
          s = s\<lparr>next_ov := pov + 1\<rparr>;
          s = enter_cs E s;
          s = s\<lparr>m_ovDataSet := m_insert pov new_OV_DATA (m_ovDataSet s)\<rparr>
      in (pov, leave_cs E s))"

definition deleteOV_DATA :: "env \<Rightarrow> ovp \<Rightarrow> 'a udp_proxy_scheme \<Rightarrow> 'a udp_proxy_scheme" where
  "deleteOV_DATA E pov s =
     (let s = enter_cs E s
      in case map_of (m_ovDataSet s) pov of
           None \<Rightarrow> leave_cs E s
         | Some d \<Rightarrow> leave_cs E (s\<lparr>m_ovDataSet := m_erase pov (m_ovDataSet s)\<rparr>))"

text \<open>
  The failure path of the asynchronous calls: the object is handed to the port as an empty
  completion, and freed at once when even that fails.
\<close>

definition post_or_delete :: "env \<Rightarrow> sock \<Rightarrow> ovp \<Rightarrow> 'a udp_proxy_scheme \<Rightarrow> 'a udp_proxy_scheme" where
  "post_or_delete E sk pov s =
     (let (posted, s) = postCompletion E sk 0 pov s
      in if \<not> posted then deleteOV_DATA E pov s else s)"

section \<open>Starting asynchronous operations\<close>

definition startConnect :: "env \<Rightarrow> sock \<Rightarrow> bytes \<Rightarrow> u64 \<Rightarrow> 'a udp_proxy_scheme \<Rightarrow> bool \<times> 'a udp_proxy_scheme" where
  "startConnect E sk addr cid s =
     (let (pov, s) = newOV_DATA E s;
          s = ov_upd pov (\<lambda>d. d\<lparr>ov_type := OVT_CONNECT, ov_id := cid\<rparr>) s;
          s = emit E (Net (Bind sk)) s;
          (ok, s) = submit E (\<lambda>r. r \<noteq> 0) (Net (ConnectEx sk addr pov)) pov s
      in if \<not> ok then (False, deleteOV_DATA E pov s) else (True, s))"

definition startUdpReceive :: "env \<Rightarrow> sock \<Rightarrow> u64 \<Rightarrow> ovp option \<Rightarrow> 'a udp_proxy_scheme \<Rightarrow>
    (bool \<times> 'a udp_proxy_scheme) option" where
  "startUdpReceive E sk cid pov s =
     (let (p, s) = (case pov of
            None \<Rightarrow>
              let (p, s) = newOV_DATA E s
              in (p, ov_upd p (\<lambda>d. d\<lparr>ov_type := OVT_UDP_RECEIVE, ov_id := cid,
                                    ov_buffer := replicate PACKET_SIZE 0\<rparr>) s)
          | Some p \<Rightarrow> (p, s))
      in do {
        d \<leftarrow> map_of (m_ovDataSet s) p;
        let s = ov_upd p (\<lambda>d. d\<lparr>ov_remoteAddressLen := int NF_MAX_ADDRESS_LENGTH\<rparr>) s;
        let (ok, s) = submit E (\<lambda>r. r = 0) (Net (WSARecvFrom sk p)) p s;
        Some (True, if ok then s else post_or_delete E sk p s)
      })"

definition startTcpReceive :: "env \<Rightarrow> sock \<Rightarrow> u64 \<Rightarrow> ovp option \<Rightarrow> 'a udp_proxy_scheme \<Rightarrow>
    (bool \<times> 'a udp_proxy_scheme) option" where
  "startTcpReceive E sk cid pov s =
     (let (p, s) = (case pov of
            None \<Rightarrow>
              let (p, s) = newOV_DATA E s
              in (p, ov_upd p (\<lambda>d. d\<lparr>ov_type := OVT_TCP_RECEIVE, ov_id := cid,
                                    ov_buffer := replicate PACKET_SIZE 0\<rparr>) s)
          | Some p \<Rightarrow> (p, s))
      in do {
        d \<leftarrow> map_of (m_ovDataSet s) p;
        let (ok, s) = submit E (\<lambda>r. r = 0) (Net (WSARecv sk p)) p s;
        Some (True, if ok then s else post_or_delete E sk p s)
      })"

definition startTcpSend :: "env \<Rightarrow> sock \<Rightarrow> bytes \<Rightarrow> u64 \<Rightarrow> 'a udp_proxy_scheme \<Rightarrow> bool \<times> 'a udp_proxy_scheme" where
  "startTcpSend E sk buf cid s =
     (let (pov, s) = newOV_DATA E s;
          s = ov_upd pov (\<lambda>d. d\<lparr>ov_id := cid, ov_type := OVT_TCP_SEND\<rparr>) s;
          s = (if 0 < length buf then ov_upd pov (\<lambda>d. d\<lparr>ov_buffer := buf\<rparr>) s else s);
          (ok, s) = submit E (\<lambda>r. r = 0) (Net (WSASend sk buf pov)) pov s
      in if \<not> ok then
           let s = ov_upd pov (\<lambda>d. d\<lparr>ov_type := OVT_TCP_RECEIVE, ov_buffer := []\<rparr>) s
           in (False, post_or_delete E sk pov s)
         else (True, s))"

section \<open>Sending a datagram\<close>

text \<open>The SOCKS5 datagram: the header for the address family, then the payload.\<close>

definition udp_datagram :: "bytes \<Rightarrow> bytes \<Rightarrow> bytes option" where
  "udp_datagram remoteAddress payload = do {
     family \<leftarrow> sa_family remoteAddress;
     if family = AF_INET then do {
       address \<leftarrow> sin_addr remoteAddress;
       port \<leftarrow> sin_port remoteAddress;
       Some (enc_SOCKS5_UDP_REQUEST_IPv4
               \<lparr>s5u4_reserved = 0, s5u4_frag = 0, s5u4_address_type = SOCKS5_ADDR_IPV4,
                s5u4_address = address, s5u4_port = port\<rparr> @ payload)
     }
     else do {
       address \<leftarrow> sin6_addr remoteAddress;
       port \<leftarrow> sin_port remoteAddress;
       Some (enc_SOCKS5_UDP_REQUEST_IPv6
               \<lparr>s5u6_reserved = 0, s5u6_frag = 0, s5u6_address_type = SOCKS5_ADDR_IPV6,
                s5u6_address = address, s5u6_port = port\<rparr> @ payload)
     }
   }"

text \<open>A copy of \<open>len\<close> bytes (a C \<open>int\<close>) from the start of a memory block.\<close>

definition memcpy_from :: "bytes \<Rightarrow> int \<Rightarrow> bytes option" where
  "memcpy_from src len = (if len < 0 then None else rdn 0 (nat len) src)"

text \<open>The packet object queued while the association is being set up.\<close>

definition new_UDP_PACKET :: "bytes \<Rightarrow> int \<Rightarrow> bytes \<Rightarrow> int \<Rightarrow> UDP_PACKET option" where
  "new_UDP_PACKET buf len remoteAddress remoteAddressLen = do {
     a \<leftarrow> memcpy_from remoteAddress remoteAddressLen;
     ra \<leftarrow> wrn 0 a (replicate NF_MAX_ADDRESS_LENGTH 0);
     b \<leftarrow> memcpy_from buf len;
     Some \<lparr>pk_remoteAddress = ra, pk_remoteAddressLen = remoteAddressLen, pk_buffer = b\<rparr>
   }"

text \<open>
  The part of \<open>udpSend\<close> after the state test, for a connection that is \<open>PS_CONNECTED\<close>. For \<open>len \<le> 0\<close>
  the vector \<open>pov->buffer\<close> stays empty, and \<open>&pov->buffer[0]\<close> is an access outside it.
\<close>

definition udpSend_connected :: "env \<Rightarrow> u64 \<Rightarrow> PROXY_DATA \<Rightarrow> bytes \<Rightarrow> int \<Rightarrow> bytes \<Rightarrow>
    'a udp_proxy_scheme \<Rightarrow> (bool \<times> 'a udp_proxy_scheme) option" where
  "udpSend_connected E cid pd buf len remoteAddress s =
     (let sk = udpSocket pd;
          (pov, s) = newOV_DATA E s;
          s = ov_upd pov (\<lambda>d. d\<lparr>ov_type := OVT_UDP_SEND, ov_id := cid\<rparr>) s
      in do {
        buffer \<leftarrow> (if len > 0 then do {
                     b \<leftarrow> memcpy_from buf len;
                     udp_datagram remoteAddress b
                   } else Some []);
        let s = ov_upd pov (\<lambda>d. d\<lparr>ov_buffer := buffer\<rparr>) s;
        bufs \<leftarrow> (if buffer = [] then None else Some buffer);
        let (ok, s) = submit E (\<lambda>r. r = 0)
              (Net (WSASendTo sk bufs (take (nat (pd_remoteAddressLen pd)) (pd_remoteAddress pd)) pov)) pov s;
        if \<not> ok then
          let s = ov_upd pov (\<lambda>d. d\<lparr>ov_type := OVT_UDP_RECEIVE, ov_buffer := []\<rparr>) s
          in Some (False, post_or_delete E sk pov s)
        else if \<not> udpRecvStarted pd then do {
          let s = pd_upd cid (\<lambda>pd. pd\<lparr>udpRecvStarted := True\<rparr>) s;
          (r, s) \<leftarrow> startUdpReceive E sk cid None s;
          Some (True, s)
        }
        else Some (True, s)
      })"

definition udpSend :: "env \<Rightarrow> u64 \<Rightarrow> bytes \<Rightarrow> int \<Rightarrow> bytes \<Rightarrow> int \<Rightarrow>
    'a udp_proxy_scheme \<Rightarrow> (bool \<times> 'a udp_proxy_scheme) option" where
  "udpSend E cid buf len remoteAddress remoteAddressLen s =
     (let s = enter_cs E s
      in case map_of (m_socketMap s) cid of
           None \<Rightarrow> Some (False, leave_cs E s)
         | Some pd \<Rightarrow>
             if proxyState pd \<noteq> PS_CONNECTED then
               if len > 0 then do {
                 p \<leftarrow> new_UDP_PACKET buf len remoteAddress remoteAddressLen;
                 let s = pd_upd cid (\<lambda>pd. pd\<lparr>udpSendPackets := udpSendPackets pd @ [p]\<rparr>) s;
                 Some (True, leave_cs E s)
               }
               else Some (True, leave_cs E s)
             else do {
               (r, s) \<leftarrow> udpSend_connected E cid pd buf len remoteAddress s;
               Some (r, leave_cs E s)
             })"

text \<open>The loop that sends the queued packets once the association is established.\<close>

partial_function (option) flush_packets :: "env \<Rightarrow> u64 \<Rightarrow> 'a udp_proxy_scheme \<Rightarrow> 'a udp_proxy_scheme option" where
  "flush_packets E cid s = do {
     pd \<leftarrow> map_of (m_socketMap s) cid;
     (case udpSendPackets pd of
        [] \<Rightarrow> Some s
      | p # ps \<Rightarrow> do {
          rs \<leftarrow> udpSend E cid (pk_buffer p) (int (length (pk_buffer p))) (pk_remoteAddress p)
                  (pk_remoteAddressLen p) s;
          flush_packets E cid (pd_upd cid (\<lambda>pd. pd\<lparr>udpSendPackets := tl (udpSendPackets pd)\<rparr>) (snd rs))
        })
   }"

section \<open>The SOCKS5 conversation\<close>

text \<open>The messages the proxy client sends.\<close>

definition greeting :: "PROXY_DATA \<Rightarrow> bytes" where
  "greeting pd = enc_SOCKS5_AUTH_REQUEST
     \<lparr>s5aq_version = SOCKS_5, s5aq_nmethods = 1,
      s5aq_methods = [if userName pd = [] then S5AM_NONE else S5AM_UNPW]\<rparr>"

definition password_request :: "bytes \<Rightarrow> bytes \<Rightarrow> bytes" where
  "password_request user pass =
     [1] @ [word_of_nat (length user)] @ user @ [word_of_nat (length pass)] @ pass"

definition udp_associate_request :: bytes where
  "udp_associate_request = enc_SOCKS5_REQUEST_IPv4
     \<lparr>s5q4_version = SOCKS_5, s5q4_command = S5C_UDP_ASSOCIATE, s5q4_reserved = 0,
      s5q4_address_type = SOCKS5_ADDR_IPV4, s5q4_address = 0, s5q4_port = 0\<rparr>"

definition set_state :: "u64 \<Rightarrow> PROXY_STATE \<Rightarrow> 'a udp_proxy_scheme \<Rightarrow> 'a udp_proxy_scheme" where
  "set_state cid st s = pd_upd cid (\<lambda>pd. pd\<lparr>proxyState := st\<rparr>) s"

text \<open>\<open>if (startTcpSend (...)) proxyState = next\<close>.\<close>

definition send_and_advance :: "env \<Rightarrow> u64 \<Rightarrow> PROXY_DATA \<Rightarrow> bytes \<Rightarrow> PROXY_STATE \<Rightarrow>
    'a udp_proxy_scheme \<Rightarrow> 'a udp_proxy_scheme" where
  "send_and_advance E cid pd msg next_state s =
     (let (sent, s) = startTcpSend E (tcpSocket pd) msg cid s
      in if sent then set_state cid next_state s else s)"

definition reply_auth :: "env \<Rightarrow> u64 \<Rightarrow> PROXY_DATA \<Rightarrow> u32 \<Rightarrow> bytes \<Rightarrow> 'a udp_proxy_scheme \<Rightarrow>
    'a udp_proxy_scheme option" where
  "reply_auth E cid pd dwTransferred buffer s =
     (if unat dwTransferred < sizeof_SOCK5_AUTH_RESPONSE then Some s
      else do {
        pr \<leftarrow> dec_SOCK5_AUTH_RESPONSE buffer;
        if s5ar_version pr \<noteq> SOCKS_5 then Some s
        else if s5ar_method pr = S5AM_UNPW \<and> userName pd \<noteq> [] then
          Some (send_and_advance E cid pd (password_request (userName pd) (userPassword pd))
                  PS_AUTH_NEGOTIATION s)
        else Some (send_and_advance E cid pd udp_associate_request PS_UDP_ASSOC s)
      })"

definition reply_auth_negotiation :: "env \<Rightarrow> u64 \<Rightarrow> PROXY_DATA \<Rightarrow> u32 \<Rightarrow> bytes \<Rightarrow>
    'a udp_proxy_scheme \<Rightarrow> 'a udp_proxy_scheme option" where
  "reply_auth_negotiation E cid pd dwTransferred buffer s =
     (if unat dwTransferred < sizeof_SOCK5_AUTH_RESPONSE then Some s
      else do {
        pr \<leftarrow> dec_SOCK5_AUTH_RESPONSE buffer;
        if s5ar_version pr \<noteq> 1 \<or> s5ar_method pr \<noteq> 0 then Some s
        else Some (send_and_advance E cid pd udp_associate_request PS_UDP_ASSOC s)
      })"

text \<open>The relay address of an accepted association: the proxy's own address, the port of the reply.\<close>

definition relay_address :: "bytes \<Rightarrow> bytes \<Rightarrow> byte \<Rightarrow> (bytes option) option" where
  "relay_address proxyAddress buffer address_type =
     (if address_type = SOCKS5_ADDR_IPV4 then do {
        pr \<leftarrow> dec_SOCKS5_RESPONSE_IPv4 buffer;
        a \<leftarrow> sin_addr proxyAddress;
        Some (Some (mk_sockaddr_in (s5r4_port pr) a))
      }
      else if address_type = SOCKS5_ADDR_IPV6 then do {
        pr \<leftarrow> dec_SOCKS5_RESPONSE_IPv6 buffer;
        a \<leftarrow> sin6_addr proxyAddress;
        Some (Some (mk_sockaddr_in6 (s5r6_port pr) a))
      }
      else Some None)"

definition reply_udp_assoc :: "env \<Rightarrow> u64 \<Rightarrow> PROXY_DATA \<Rightarrow> u32 \<Rightarrow> bytes \<Rightarrow> 'a udp_proxy_scheme \<Rightarrow>
    'a udp_proxy_scheme option" where
  "reply_udp_assoc E cid pd dwTransferred buffer s =
     (if unat dwTransferred < sizeof_SOCKS5_RESPONSE then Some s
      else do {
        pr \<leftarrow> dec_SOCKS5_RESPONSE buffer;
        if s5r_version pr \<noteq> SOCKS_5 \<or> s5r_res_code pr \<noteq> 0 then Some s
        else do {
          addr \<leftarrow> relay_address (m_proxyAddress s) buffer (s5r_address_type pr);
          (case addr of
             None \<Rightarrow> Some s
           | Some a \<Rightarrow> do {
               ra \<leftarrow> wrn 0 a (pd_remoteAddress pd);
               let s = pd_upd cid (\<lambda>pd. pd\<lparr>pd_remoteAddress := ra,
                                          pd_remoteAddressLen := int (length a)\<rparr>) s;
               let s = set_state cid PS_CONNECTED s;
               flush_packets E cid s
             })
        }
      })"

definition tcp_reply :: "env \<Rightarrow> u64 \<Rightarrow> PROXY_DATA \<Rightarrow> u32 \<Rightarrow> bytes \<Rightarrow> 'a udp_proxy_scheme \<Rightarrow>
    'a udp_proxy_scheme option" where
  "tcp_reply E cid pd dwTransferred buffer s =
     (case proxyState pd of
        PS_NONE \<Rightarrow> Some s
      | PS_AUTH \<Rightarrow> reply_auth E cid pd dwTransferred buffer s
      | PS_AUTH_NEGOTIATION \<Rightarrow> reply_auth_negotiation E cid pd dwTransferred buffer s
      | PS_UDP_ASSOC \<Rightarrow> reply_udp_assoc E cid pd dwTransferred buffer s
      | _ \<Rightarrow> Some s)"

section \<open>Completion handlers\<close>

definition onTcpReceiveComplete :: "env \<Rightarrow> sock \<Rightarrow> u32 \<Rightarrow> ovp \<Rightarrow> u32 \<Rightarrow> 'a udp_proxy_scheme \<Rightarrow>
    'a udp_proxy_scheme option" where
  "onTcpReceiveComplete E sk dwTransferred pov error s =
     (if dwTransferred = 0 then Some (deleteOV_DATA E pov s)
      else do {
        let s = enter_cs E s;
        d \<leftarrow> map_of (m_ovDataSet s) pov;
        s \<leftarrow> (case map_of (m_socketMap s) (ov_id d) of
                None \<Rightarrow> Some s
              | Some pd \<Rightarrow> tcp_reply E (ov_id d) pd dwTransferred (ov_buffer d) s);
        let s = leave_cs E s;
        d \<leftarrow> map_of (m_ovDataSet s) pov;
        (r, s) \<leftarrow> startTcpReceive E sk (ov_id d) (Some pov) s;
        Some s
      })"

definition onTcpSendComplete :: "env \<Rightarrow> sock \<Rightarrow> u32 \<Rightarrow> ovp \<Rightarrow> u32 \<Rightarrow> 'a udp_proxy_scheme \<Rightarrow>
    'a udp_proxy_scheme option" where
  "onTcpSendComplete E sk dwTransferred pov error s = Some (deleteOV_DATA E pov s)"

definition onUdpSendComplete :: "env \<Rightarrow> sock \<Rightarrow> u32 \<Rightarrow> ovp \<Rightarrow> u32 \<Rightarrow> 'a udp_proxy_scheme \<Rightarrow>
    'a udp_proxy_scheme option" where
  "onUdpSendComplete E sk dwTransferred pov error s = Some (deleteOV_DATA E pov s)"

definition deleteProxyConnection :: "env \<Rightarrow> u64 \<Rightarrow> 'a udp_proxy_scheme \<Rightarrow> 'a udp_proxy_scheme" where
  "deleteProxyConnection E cid s =
     (let s = enter_cs E s;
          s = (case map_of (m_socketMap s) cid of
                 None \<Rightarrow> s
               | Some pd \<Rightarrow>
                   let s = delete_PROXY_DATA E pd s
                   in s\<lparr>m_socketMap := m_erase cid (m_socketMap s)\<rparr>)
      in leave_cs E s)"

definition onConnectComplete :: "env \<Rightarrow> sock \<Rightarrow> u32 \<Rightarrow> ovp \<Rightarrow> u32 \<Rightarrow> 'a udp_proxy_scheme \<Rightarrow>
    'a udp_proxy_scheme option" where
  "onConnectComplete E sk dwTransferred pov error s = do {
     d \<leftarrow> map_of (m_ovDataSet s) pov;
     if error \<noteq> 0 then Some (deleteOV_DATA E pov (deleteProxyConnection E (ov_id d) s))
     else do {
       let s = enter_cs E s;
       s \<leftarrow> (case map_of (m_socketMap s) (ov_id d) of
               None \<Rightarrow> Some s
             | Some pd \<Rightarrow> do {
                 let s = emit E (Net (SetSockOpt sk)) s;
                 let s = emit E (Net (SetSockOpt sk)) s;
                 let s = send_and_advance E (ov_id d) pd (greeting pd) PS_AUTH s;
                 (r, s) \<leftarrow> startTcpReceive E (tcpSocket pd) (ov_id d) None s;
                 Some s
               });
       let s = deleteOV_DATA E pov s;
       Some (leave_cs E s)
     }
   }"

text \<open>
  The callback \<open>m_pProxyHandler->onUdpReceiveComplete\<close>: connection, the memory at \<open>buf\<close>,
  \<open>len\<close>, the address bytes and their number. \<open>payload_len\<close> is \<open>dwTransferred - size\<close> as the code
  computes it: a 64-bit unsigned difference converted to \<open>int\<close>.
\<close>

type_synonym 's recv_fun = "u64 \<Rightarrow> bytes \<Rightarrow> int \<Rightarrow> bytes \<Rightarrow> int \<Rightarrow> 's \<Rightarrow> 's option"

definition payload_len :: "u32 \<Rightarrow> nat \<Rightarrow> int" where
  "payload_len dwTransferred sz =
     sint (ucast (ucast dwTransferred - word_of_nat sz :: u64) :: u32)"

definition onUdpReceiveComplete :: "env \<Rightarrow> 'a udp_proxy_scheme recv_fun \<Rightarrow> sock \<Rightarrow> u32 \<Rightarrow> ovp \<Rightarrow> u32 \<Rightarrow>
    'a udp_proxy_scheme \<Rightarrow> 'a udp_proxy_scheme option" where
  "onUdpReceiveComplete E recv sk dwTransferred pov error s =
     (if dwTransferred = 0 then Some (deleteOV_DATA E pov s)
      else do {
        d \<leftarrow> map_of (m_ovDataSet s) pov;
        s \<leftarrow>
          (if unat dwTransferred > sizeof_SOCKS5_UDP_REQUEST then do {
             pReq \<leftarrow> dec_SOCKS5_UDP_REQUEST (ov_buffer d);
             if s5u_address_type pReq = SOCKS5_ADDR_IPV4 then do {
               r4 \<leftarrow> dec_SOCKS5_UDP_REQUEST_IPv4 (ov_buffer d);
               let addr = mk_sockaddr_in (s5u4_port r4) (s5u4_address r4);
               let sz = sizeof_SOCKS5_UDP_REQUEST_IPv4;
               if m_pProxyHandler s
               then recv (ov_id d) (drop sz (ov_buffer d)) (payload_len dwTransferred sz)
                      addr (int sizeof_sockaddr_in) s
               else None
             }
             else if s5u_address_type pReq = SOCKS5_ADDR_IPV6 then do {
               r6 \<leftarrow> dec_SOCKS5_UDP_REQUEST_IPv6 (ov_buffer d);
               let addr = mk_sockaddr_in6 (s5u6_port r6) (s5u6_address r6);
               let sz = sizeof_SOCKS5_UDP_REQUEST_IPv6;
               if m_pProxyHandler s
               then recv (ov_id d) (drop sz (ov_buffer d)) (payload_len dwTransferred sz)
                      addr (int sizeof_sockaddr_in6) s
               else None
             }
             else Some s
           }
           else Some s);
        d \<leftarrow> map_of (m_ovDataSet s) pov;
        (r, s) \<leftarrow> startUdpReceive E sk (ov_id d) (Some pov) s;
        Some s
      })"

definition onComplete :: "env \<Rightarrow> 'a udp_proxy_scheme recv_fun \<Rightarrow> 'a udp_proxy_scheme complete_fun" where
  "onComplete E recv sk dwTransferred pOverlapped error s = do {
     pov \<leftarrow> pOverlapped;
     d \<leftarrow> map_of (m_ovDataSet s) pov;
     (case ov_type d of
        OVT_UDP_SEND \<Rightarrow> onUdpSendComplete E sk dwTransferred pov error s
      | OVT_UDP_RECEIVE \<Rightarrow> onUdpReceiveComplete E recv sk dwTransferred pov error s
      | OVT_CONNECT \<Rightarrow> onConnectComplete E sk dwTransferred pov error s
      | OVT_TCP_SEND \<Rightarrow> onTcpSendComplete E sk dwTransferred pov error s
      | OVT_TCP_RECEIVE \<Rightarrow> onTcpReceiveComplete E sk dwTransferred pov error s)
   }"

section \<open>Life cycle\<close>

definition initExtensions :: "env \<Rightarrow> 'a udp_proxy_scheme \<Rightarrow> bool \<times> 'a udp_proxy_scheme" where
  "initExtensions E s =
     (let (sk, s) = sys E (Net (Socket SOCK_STREAM)) s
      in if sk = INVALID_SOCKET then (False, s)
         else
           let (ptr, s) = sys E (Net (WSAIoctl sk)) s;
               s = s\<lparr>m_pConnectEx := ptr\<rparr>;
               s = emit E (Net (Closesocket sk)) s
           in (m_pConnectEx s \<noteq> 0, s))"

definition UDPProxy_init :: "env \<Rightarrow> bytes \<Rightarrow> int \<Rightarrow> bytes \<Rightarrow> bytes \<Rightarrow> 'a udp_proxy_scheme \<Rightarrow>
    (bool \<times> 'a udp_proxy_scheme) option" where
  "UDPProxy_init E proxyAddress proxyAddressLen user pass s =
     (let (ok, s) = initExtensions E s
      in if \<not> ok then Some (False, s)
         else let (ok, s) = IOCPService_init E s
              in if \<not> ok then Some (False, s)
                 else do {
                   a \<leftarrow> memcpy_from proxyAddress proxyAddressLen;
                   pa \<leftarrow> wrn 0 a (m_proxyAddress s);
                   Some (True, s\<lparr>m_pProxyHandler := True, m_proxyAddress := pa,
                                m_proxyAddressLen := proxyAddressLen, m_userName := user,
                                m_userPassword := pass\<rparr>)
                 })"

fun free_connections :: "env \<Rightarrow> (u64 \<times> PROXY_DATA) list \<Rightarrow> 'a udp_proxy_scheme \<Rightarrow> 'a udp_proxy_scheme" where
  "free_connections E [] s = s"
| "free_connections E ((k, pd) # m) s =
     free_connections E m ((delete_PROXY_DATA E pd s)\<lparr>m_socketMap := m\<rparr>)"

definition UDPProxy_free :: "env \<Rightarrow> 'a udp_proxy_scheme \<Rightarrow> 'a udp_proxy_scheme" where
  "UDPProxy_free E s =
     (let s = IOCPService_free E s;
          s = s\<lparr>m_ovDataSet := []\<rparr>
      in free_connections E (m_socketMap s) s)"

definition createProxyConnection :: "env \<Rightarrow> u64 \<Rightarrow> 'a udp_proxy_scheme \<Rightarrow> bool \<times> 'a udp_proxy_scheme" where
  "createProxyConnection E cid s =
     (let (tcp, s) = sys E (Net (WSASocket SOCK_STREAM)) s
      in if tcp = INVALID_SOCKET then (False, s)
         else
           let (udp, s) = sys E (Net (WSASocket SOCK_DGRAM)) s
           in if udp = INVALID_SOCKET then (False, emit E (Net (Closesocket tcp)) s)
              else
                let s = enter_cs E s;
                    pd = new_PROXY_DATA\<lparr>tcpSocket := tcp, udpSocket := udp,
                           userName := m_userName s, userPassword := m_userPassword s\<rparr>;
                    s = s\<lparr>m_socketMap := m_insert cid pd (m_socketMap s)\<rparr>;
                    s = leave_cs E s;
                    (r1, s) = registerSocket E tcp s;
                    (r2, s) = (if r1 then registerSocket E udp s else (False, s));
                    (result, s) =
                      (if r2 then startConnect E tcp
                                    (take (nat (m_proxyAddressLen s)) (m_proxyAddress s)) cid s
                       else (False, s))
                in if result then (True, s)
                   else (False, deleteProxyConnection E cid s))"

end
