(* ===== verification/Udp_Proxy_Inv.thy ===== *)
theory Udp_Proxy_Inv
  imports Udp_Proxy
begin

text \<open>
  Memory safety and ownership of the UDP proxy. \<open>proxy_inv H\<close> says that the live request objects
  are exactly the ones the platform still owes a completion (\<open>inflight\<close>) and those the running
  handler holds (\<open>H\<close>), each once, and that every object has the shape its type promises. Every
  operation keeps it, so no completion ever finds a freed object and no object is lost. Sending is defined
  just for the datagrams that are \<open>sendable\<close>, and handling a packet for all but a \<open>port_error\<close>.
\<close>

lemma in_set_tlD: "x \<in> set (tl xs) \<Longrightarrow> x \<in> set xs"
  by (cases xs) simp_all

section \<open>Frame lemmas\<close>

named_theorems proxy_frame \<open>the fields an operation leaves alone\<close>

lemma emit_frame [simp]:
  "m_ovDataSet (emit E c s) = m_ovDataSet s"
  "next_ov (emit E c s) = next_ov s"
  "m_socketMap (emit E c s) = m_socketMap s"
  "m_proxyAddress (emit E c s) = m_proxyAddress s"
  "m_proxyAddressLen (emit E c s) = m_proxyAddressLen s"
  "m_userName (emit E c s) = m_userName s"
  "m_userPassword (emit E c s) = m_userPassword s"
  "m_pProxyHandler (emit E c s) = m_pProxyHandler s"
  "inflight (emit E c s) = inflight s"
  by (simp_all add: emit_eq)

text \<open>The values of the proxy's own data, for operations that touch only the trace.\<close>

definition proxy_data :: "'a udp_proxy_scheme \<Rightarrow>
    (ovp \<times> OV_DATA) list \<times> ovp \<times> (u64 \<times> PROXY_DATA) list \<times> bytes \<times> bool \<times> ovp list" where
  "proxy_data s = (m_ovDataSet s, next_ov s, m_socketMap s, m_proxyAddress s, m_pProxyHandler s, inflight s)"

lemma proxy_data_emit [simp]: "proxy_data (emit E c s) = proxy_data s"
  by (simp add: proxy_data_def)

section \<open>The invariant\<close>

definition ov_ok :: "OV_DATA \<Rightarrow> bool" where
  "ov_ok d \<longleftrightarrow> (ov_type d \<in> {OVT_TCP_RECEIVE, OVT_UDP_RECEIVE} \<longrightarrow>
     length (ov_buffer d) \<in> {0, PACKET_SIZE})"

definition pk_ok :: "UDP_PACKET \<Rightarrow> bool" where
  "pk_ok p \<longleftrightarrow> length (pk_remoteAddress p) = NF_MAX_ADDRESS_LENGTH \<and> pk_buffer p \<noteq> [] \<and>
     0 \<le> pk_remoteAddressLen p \<and> pk_remoteAddressLen p \<le> int NF_MAX_ADDRESS_LENGTH"

definition pd_ok :: "PROXY_DATA \<Rightarrow> bool" where
  "pd_ok pd \<longleftrightarrow> length (pd_remoteAddress pd) = NF_MAX_ADDRESS_LENGTH \<and>
     (\<forall>p \<in> set (udpSendPackets pd). pk_ok p)"

definition proxy_inv :: "ovp set \<Rightarrow> 'a udp_proxy_scheme \<Rightarrow> bool" where
  "proxy_inv H s \<longleftrightarrow>
     distinct (inflight s) \<and>
     dom (map_of (m_ovDataSet s)) = set (inflight s) \<union> H \<and> set (inflight s) \<inter> H = {} \<and>
     (\<forall>p \<in> set (inflight s) \<union> H. p < next_ov s) \<and>
     (\<forall>d \<in> ran (map_of (m_ovDataSet s)). ov_ok d) \<and>
     (\<forall>pd \<in> ran (map_of (m_socketMap s)). pd_ok pd) \<and>
     m_sorted (m_socketMap s) \<and> length (m_proxyAddress s) = NF_MAX_ADDRESS_LENGTH"

lemma proxy_inv_data: "proxy_data s = proxy_data t \<Longrightarrow> proxy_inv H s = proxy_inv H t"
  by (simp add: proxy_inv_def proxy_data_def)

lemma proxy_inv_emit [simp]: "proxy_inv H (emit E c s) = proxy_inv H s"
  by (rule proxy_inv_data) simp

lemma proxy_inv_live: "proxy_inv H s \<Longrightarrow> p \<in> H \<union> set (inflight s) \<Longrightarrow> \<exists>d. map_of (m_ovDataSet s) p = Some d \<and> ov_ok d"
  unfolding proxy_inv_def by (metis UnI1 UnI2 Un_iff domD ranI)

lemma proxy_inv_pd: "proxy_inv H s \<Longrightarrow> map_of (m_socketMap s) cid = Some pd \<Longrightarrow> pd_ok pd"
  unfolding proxy_inv_def by (metis ranI)

lemma new_ov_ok [simp]: "ov_ok new_OV_DATA"
  by (simp add: ov_ok_def new_OV_DATA_def)

section \<open>Request objects\<close>

lemma ov_upd_frame [simp]:
  "m_socketMap (ov_upd p f s) = m_socketMap s" "inflight (ov_upd p f s) = inflight s"
  "trace (ov_upd p f s) = trace s" "m_proxyAddress (ov_upd p f s) = m_proxyAddress s"
  "m_pProxyHandler (ov_upd p f s) = m_pProxyHandler s" "next_ov (ov_upd p f s) = next_ov s"
  by (simp_all add: ov_upd_def split: option.splits)

lemma ov_upd_find [simp]:
  "map_of (m_ovDataSet (ov_upd p f s)) q =
     (if q = p then map_option f (map_of (m_ovDataSet s) p) else map_of (m_ovDataSet s) q)"
  by (auto simp: ov_upd_def split: option.splits)

lemma ran_upd_ok: "\<forall>d \<in> ran m. P d \<Longrightarrow> P v \<Longrightarrow> \<forall>d \<in> ran (m(k \<mapsto> v)). P d"
  by (auto simp: ran_def)

lemma ov_upd_inv:
  assumes "proxy_inv H s" and "\<And>d. map_of (m_ovDataSet s) p = Some d \<Longrightarrow> ov_ok (f d)"
  shows "proxy_inv H (ov_upd p f s)"
proof (cases "map_of (m_ovDataSet s) p")
  case (Some d)
  then have "\<forall>x \<in> ran ((map_of (m_ovDataSet s))(p \<mapsto> f d)). ov_ok x"
    using assms by (intro ran_upd_ok) (auto simp: proxy_inv_def)
  moreover have "p \<in> dom (map_of (m_ovDataSet s))" using Some by blast
  ultimately show ?thesis
    using assms(1) by (auto simp: proxy_inv_def ov_upd_def Some insert_absorb)
qed (use assms in \<open>simp add: ov_upd_def\<close>)

lemma newOV_DATA_frame [simp]:
  "m_socketMap (snd (newOV_DATA E s)) = m_socketMap s"
  "inflight (snd (newOV_DATA E s)) = inflight s"
  "m_proxyAddress (snd (newOV_DATA E s)) = m_proxyAddress s"
  "m_pProxyHandler (snd (newOV_DATA E s)) = m_pProxyHandler s"
  "next_ov (snd (newOV_DATA E s)) = next_ov s + 1"
  "fst (newOV_DATA E s) = next_ov s"
  "map_of (m_ovDataSet (snd (newOV_DATA E s))) = (map_of (m_ovDataSet s))(next_ov s \<mapsto> new_OV_DATA)"
  by (simp_all add: newOV_DATA_def Let_def emit_eq)

lemma newOV_DATA_inv:
  assumes "proxy_inv H s"
  shows "proxy_inv (insert (next_ov s) H) (snd (newOV_DATA E s)) \<and> next_ov s \<notin> H"
proof -
  have "\<forall>d \<in> ran ((map_of (m_ovDataSet s))(next_ov s \<mapsto> new_OV_DATA)). ov_ok d"
    using assms(1) by (intro ran_upd_ok) (auto simp: proxy_inv_def)
  moreover have "\<And>q. q \<in> set (inflight s) \<union> H \<Longrightarrow> q < next_ov s"
    using assms(1) by (simp add: proxy_inv_def)
  ultimately show ?thesis
    using assms(1) by (auto simp: proxy_inv_def less_Suc_eq)
qed

lemma deleteOV_DATA_frame [simp]:
  "m_socketMap (deleteOV_DATA E p s) = m_socketMap s"
  "inflight (deleteOV_DATA E p s) = inflight s"
  "m_proxyAddress (deleteOV_DATA E p s) = m_proxyAddress s"
  "m_pProxyHandler (deleteOV_DATA E p s) = m_pProxyHandler s"
  "next_ov (deleteOV_DATA E p s) = next_ov s"
  "map_of (m_ovDataSet (deleteOV_DATA E p s)) = (map_of (m_ovDataSet s))(p := None)"
  by (auto simp: deleteOV_DATA_def Let_def emit_eq split: option.splits)

lemma ran_None_ok: "\<forall>d \<in> ran m. P d \<Longrightarrow> \<forall>d \<in> ran (m(k := None)). P d"
  by (auto simp: ran_def)

lemma deleteOV_DATA_inv:
  assumes "proxy_inv (insert p H) s" "p \<notin> H"
  shows "proxy_inv H (deleteOV_DATA E p s)"
proof -
  have "\<forall>d \<in> ran ((map_of (m_ovDataSet s))(p := None)). ov_ok d"
    using assms(1) by (intro ran_None_ok) (auto simp: proxy_inv_def)
  then show ?thesis
    using assms by (auto simp: proxy_inv_def)
qed

lemma inv_submitted:
  "proxy_inv (insert p H) s \<Longrightarrow> p \<notin> H \<Longrightarrow> proxy_inv H (s\<lparr>inflight := inflight s @ [p]\<rparr>)"
  by (auto simp: proxy_inv_def)

lemma proxy_inv_trace [simp]: "proxy_inv H (s\<lparr>trace := t\<rparr>) = proxy_inv H s"
  by (simp add: proxy_inv_def)

lemma postCompletion_frame [simp]:
  "m_socketMap (snd (postCompletion E sk n p s)) = m_socketMap s"
  "m_ovDataSet (snd (postCompletion E sk n p s)) = m_ovDataSet s"
  "m_proxyAddress (snd (postCompletion E sk n p s)) = m_proxyAddress s"
  "m_pProxyHandler (snd (postCompletion E sk n p s)) = m_pProxyHandler s"
  by (simp_all add: postCompletion_def sys_def Let_def)

lemma postCompletion_inv:
  assumes "proxy_inv (insert p H) s" "p \<notin> H"
  shows "proxy_inv (if fst (postCompletion E sk n p s) then H else insert p H)
           (snd (postCompletion E sk n p s))"
  using assms inv_submitted [of p H "s\<lparr>trace := t\<rparr>" for t]
  by (auto simp: postCompletion_def sys_def Let_def)

lemma post_or_delete_frame [simp]:
  "m_socketMap (post_or_delete E sk p s) = m_socketMap s"
  "m_proxyAddress (post_or_delete E sk p s) = m_proxyAddress s"
  "m_pProxyHandler (post_or_delete E sk p s) = m_pProxyHandler s"
  by (simp_all add: post_or_delete_def split_def Let_def)

lemma post_or_delete_inv:
  assumes "proxy_inv (insert p H) s" "p \<notin> H"
  shows "proxy_inv H (post_or_delete E sk p s)"
  using postCompletion_inv [OF assms, of E sk 0] deleteOV_DATA_inv [OF _ assms(2)]
  by (auto simp: post_or_delete_def split_def Let_def split: if_splits)

lemma submit_frame [simp]:
  "m_socketMap (snd (submit E ok c p s)) = m_socketMap s"
  "m_ovDataSet (snd (submit E ok c p s)) = m_ovDataSet s"
  "m_proxyAddress (snd (submit E ok c p s)) = m_proxyAddress s"
  "m_pProxyHandler (snd (submit E ok c p s)) = m_pProxyHandler s"
  by (simp_all add: submit_def sys_def Let_def)

lemma submit_inv:
  assumes "proxy_inv (insert p H) s" "p \<notin> H"
  shows "proxy_inv (if fst (submit E ok c p s) then H else insert p H) (snd (submit E ok c p s))"
  using assms inv_submitted [of p H "s\<lparr>trace := t\<rparr>" for t]
  by (auto simp: submit_def sys_def Let_def split: if_splits)

section \<open>Starting operations\<close>

lemma fresh_held:
  assumes "proxy_inv H s"
  shows "next_ov s \<notin> H" "proxy_inv (insert (next_ov s) H) (snd (newOV_DATA E s))"
  using newOV_DATA_inv [OF assms] by simp_all

lemma startConnect_frame [simp]:
  "m_socketMap (snd (startConnect E sk a cid s)) = m_socketMap s"
  "m_proxyAddress (snd (startConnect E sk a cid s)) = m_proxyAddress s"
  "m_pProxyHandler (snd (startConnect E sk a cid s)) = m_pProxyHandler s"
  by (simp_all add: startConnect_def split_def Let_def)

lemma startConnect_inv:
  assumes "proxy_inv H s"
  shows "proxy_inv H (snd (startConnect E sk a cid s))"
proof -
  let ?p = "next_ov s"
  let ?t = "emit E (Net (Bind sk)) (ov_upd ?p (\<lambda>d. d\<lparr>ov_type := OVT_CONNECT, ov_id := cid\<rparr>)
     (snd (newOV_DATA E s)))"
  have "proxy_inv (insert ?p H) ?t"
    using fresh_held [OF assms] by (auto intro!: ov_upd_inv simp: ov_ok_def)
  from submit_inv [OF this fresh_held(1) [OF assms], of E "\<lambda>r. r \<noteq> 0" "Net (ConnectEx sk a ?p)"]
  show ?thesis
    using fresh_held(1) [OF assms]
    by (simp add: startConnect_def split_def Let_def deleteOV_DATA_inv split: if_splits)
qed

lemma startTcpSend_frame [simp]:
  "m_socketMap (snd (startTcpSend E sk b cid s)) = m_socketMap s"
  "m_proxyAddress (snd (startTcpSend E sk b cid s)) = m_proxyAddress s"
  "m_pProxyHandler (snd (startTcpSend E sk b cid s)) = m_pProxyHandler s"
  by (simp_all add: startTcpSend_def split_def Let_def)

lemma startTcpSend_inv:
  assumes "proxy_inv H s"
  shows "proxy_inv H (snd (startTcpSend E sk b cid s))"
proof -
  let ?p = "next_ov s"
  let ?u = "ov_upd ?p (\<lambda>d. d\<lparr>ov_id := cid, ov_type := OVT_TCP_SEND\<rparr>) (snd (newOV_DATA E s))"
  let ?t = "if 0 < length b then ov_upd ?p (\<lambda>d. d\<lparr>ov_buffer := b\<rparr>) ?u else ?u"
  have "proxy_inv (insert ?p H) ?u"
    using fresh_held [OF assms] by (auto intro!: ov_upd_inv simp: ov_ok_def)
  then have t: "proxy_inv (insert ?p H) ?t"
    using fresh_held [OF assms] by (auto intro!: ov_upd_inv simp: ov_ok_def)
  have fail: "proxy_inv (insert ?p H) r \<Longrightarrow>
      proxy_inv H (post_or_delete E sk ?p (ov_upd ?p (\<lambda>d. d\<lparr>ov_type := OVT_TCP_RECEIVE, ov_buffer := []\<rparr>) r))" for r :: "'a udp_proxy_scheme"
    using fresh_held(1) [OF assms]
    by (auto intro!: post_or_delete_inv ov_upd_inv simp: ov_ok_def)
  show ?thesis
    using submit_inv [OF t fresh_held(1) [OF assms], of E "\<lambda>r. r = 0" "Net (WSASend sk b ?p)"]
    by (simp add: startTcpSend_def split_def Let_def fail split: if_splits)
qed

lemma rearm_inv:
  assumes "proxy_inv (insert p H) s" "p \<notin> H"
  shows "fst (submit E okf c p s) \<Longrightarrow> proxy_inv H (snd (submit E okf c p s))"
    and "\<not> fst (submit E okf c p s) \<Longrightarrow> proxy_inv H (post_or_delete E sk p (snd (submit E okf c p s)))"
  using submit_inv [OF assms, of E okf c] post_or_delete_inv [OF _ assms(2)]
  by (auto split: if_splits)

text \<open>Re-arming a receive with the object the handler holds, and with a new one.\<close>

lemma startTcpReceive_held:
  assumes "proxy_inv (insert p H) s" "p \<notin> H"
  shows "\<exists>s'. startTcpReceive E sk cid (Some p) s = Some (True, s') \<and> proxy_inv H s'
    \<and> m_socketMap s' = m_socketMap s \<and> m_pProxyHandler s' = m_pProxyHandler s"
proof -
  obtain d where "map_of (m_ovDataSet s) p = Some d"
    using proxy_inv_live [OF assms(1), of p] by auto
  then show ?thesis
    by (simp add: startTcpReceive_def split_def Let_def rearm_inv [OF assms])
qed

lemma startTcpReceive_new:
  assumes "proxy_inv H s"
  shows "\<exists>s'. startTcpReceive E sk cid None s = Some (True, s') \<and> proxy_inv H s'
    \<and> m_socketMap s' = m_socketMap s \<and> m_pProxyHandler s' = m_pProxyHandler s"
proof -
  let ?p = "next_ov s"
  let ?t = "ov_upd ?p (\<lambda>d. d\<lparr>ov_type := OVT_TCP_RECEIVE, ov_id := cid, ov_buffer := replicate PACKET_SIZE 0\<rparr>)
     (snd (newOV_DATA E s))"
  have "proxy_inv (insert ?p H) ?t"
    using fresh_held [OF assms] by (auto intro!: ov_upd_inv simp: ov_ok_def)
  then show ?thesis
    by (simp add: startTcpReceive_def split_def Let_def rearm_inv fresh_held(1) [OF assms])
qed

lemma startUdpReceive_held:
  assumes "proxy_inv (insert p H) s" "p \<notin> H"
  shows "\<exists>s'. startUdpReceive E sk cid (Some p) s = Some (True, s') \<and> proxy_inv H s'
    \<and> m_socketMap s' = m_socketMap s \<and> m_pProxyHandler s' = m_pProxyHandler s"
proof -
  obtain d where d: "map_of (m_ovDataSet s) p = Some d" "ov_ok d"
    using proxy_inv_live [OF assms(1), of p] by auto
  have "proxy_inv (insert p H) (ov_upd p (\<lambda>d. d\<lparr>ov_remoteAddressLen := int NF_MAX_ADDRESS_LENGTH\<rparr>) s)"
    using d by (intro ov_upd_inv [OF assms(1)]) (simp add: ov_ok_def)
  then show ?thesis
    by (simp add: startUdpReceive_def split_def Let_def d rearm_inv assms(2))
qed

lemma startUdpReceive_new:
  assumes "proxy_inv H s"
  shows "\<exists>s'. startUdpReceive E sk cid None s = Some (True, s') \<and> proxy_inv H s'
    \<and> m_socketMap s' = m_socketMap s \<and> m_pProxyHandler s' = m_pProxyHandler s"
proof -
  let ?p = "next_ov s"
  let ?t = "ov_upd ?p (\<lambda>d. d\<lparr>ov_type := OVT_UDP_RECEIVE, ov_id := cid, ov_buffer := replicate PACKET_SIZE 0\<rparr>)
     (snd (newOV_DATA E s))"
  have "proxy_inv (insert ?p H) ?t"
    using fresh_held [OF assms] by (auto intro!: ov_upd_inv simp: ov_ok_def)
  then have "proxy_inv (insert ?p H) (ov_upd ?p (\<lambda>d. d\<lparr>ov_remoteAddressLen := int NF_MAX_ADDRESS_LENGTH\<rparr>) ?t)"
    by (auto intro!: ov_upd_inv simp: ov_ok_def)
  then show ?thesis
    by (simp add: startUdpReceive_def split_def Let_def rearm_inv fresh_held(1) [OF assms])
qed

section \<open>The life of a connection\<close>

text \<open>The enumerators of \<open>PROXY_STATE\<close> in declaration order, and the order they induce.\<close>

fun state_num :: "PROXY_STATE \<Rightarrow> nat" where
  "state_num PS_NONE = 0"
| "state_num PS_AUTH = 1"
| "state_num PS_AUTH_NEGOTIATION = 2"
| "state_num PS_UDP_ASSOC = 3"
| "state_num PS_CONNECTED = 4"
| "state_num PS_CLOSED = 5"

lemma state_num_inj: "state_num a = state_num b \<Longrightarrow> a = b"
  by (cases a; cases b) simp_all

instantiation PROXY_STATE :: linorder
begin

definition less_eq_PROXY_STATE :: "PROXY_STATE \<Rightarrow> PROXY_STATE \<Rightarrow> bool" where
  "a \<le> b \<longleftrightarrow> state_num a \<le> state_num b"

definition less_PROXY_STATE :: "PROXY_STATE \<Rightarrow> PROXY_STATE \<Rightarrow> bool" where
  "a < b \<longleftrightarrow> state_num a < state_num b"

instance
  by standard (auto simp: less_eq_PROXY_STATE_def less_PROXY_STATE_def state_num_inj)

end

text \<open>
  How a connection may change in one operation: its sockets and credentials are fixed, its state
  only advances, the relay address is fixed once the association is established.
\<close>

definition pd_step :: "PROXY_DATA \<Rightarrow> PROXY_DATA \<Rightarrow> bool" where
  "pd_step pd pd' \<longleftrightarrow>
     tcpSocket pd' = tcpSocket pd \<and> udpSocket pd' = udpSocket pd \<and>
     userName pd' = userName pd \<and> userPassword pd' = userPassword pd \<and>
     proxyState pd \<le> proxyState pd' \<and>
     (PS_CONNECTED \<le> proxyState pd \<longrightarrow> pd_remoteAddress pd' = pd_remoteAddress pd \<and>
        pd_remoteAddressLen pd' = pd_remoteAddressLen pd) \<and>
     (udpRecvStarted pd \<longrightarrow> udpRecvStarted pd')"

definition pd_settled :: "PROXY_DATA \<Rightarrow> bool" where
  "pd_settled pd \<longleftrightarrow> proxyState pd \<noteq> PS_CLOSED \<and>
     (proxyState pd = PS_CONNECTED \<longrightarrow> udpSendPackets pd = []) \<and>
     (udpRecvStarted pd \<longrightarrow> proxyState pd = PS_CONNECTED)"

definition conn_evolves :: "u64 set \<Rightarrow> 'a udp_proxy_scheme \<Rightarrow> 'b udp_proxy_scheme \<Rightarrow> bool" where
  "conn_evolves B s s' \<longleftrightarrow>
     dom (map_of (m_socketMap s)) \<subseteq> dom (map_of (m_socketMap s')) \<union> B \<and> (\<forall>c pd'. map_of (m_socketMap s') c = Some pd' \<longrightarrow>
     (\<exists>pd. map_of (m_socketMap s) c = Some pd \<and> pd_step pd pd' \<and> (pd_settled pd \<longrightarrow> pd_settled pd') \<and>
       (proxyState pd = PS_NONE \<longrightarrow> c \<notin> B \<longrightarrow> proxyState pd' = PS_NONE)))"

lemma pd_step_refl [simp]: "pd_step pd pd"
  by (simp add: pd_step_def)

lemma pd_step_trans: "pd_step a b \<Longrightarrow> pd_step b c \<Longrightarrow> pd_step a c"
  unfolding pd_step_def less_eq_PROXY_STATE_def
  by (cases "proxyState a"; cases "proxyState b"; cases "proxyState c"; simp)

lemma conn_evolves_refl [simp]: "m_socketMap s' = m_socketMap s \<Longrightarrow> conn_evolves B s s'"
  by (simp add: conn_evolves_def)

lemma conn_evolves_trans: "conn_evolves B a b \<Longrightarrow> conn_evolves B b c \<Longrightarrow> conn_evolves B a c"
  unfolding conn_evolves_def
proof (elim conjE, intro conjI)
  assume "dom (map_of (m_socketMap a)) \<subseteq> dom (map_of (m_socketMap b)) \<union> B"
    "dom (map_of (m_socketMap b)) \<subseteq> dom (map_of (m_socketMap c)) \<union> B"
  then show "dom (map_of (m_socketMap a)) \<subseteq> dom (map_of (m_socketMap c)) \<union> B" by blast
qed (meson pd_step_trans)

lemma conn_evolves_upd:
  assumes "map_of (m_socketMap s') = (map_of (m_socketMap s))(cid \<mapsto> pd')"
    and "map_of (m_socketMap s) cid = Some pd" and "pd_step pd pd'" and "pd_settled pd \<Longrightarrow> pd_settled pd'"
    and "proxyState pd = PS_NONE \<Longrightarrow> cid \<notin> B \<Longrightarrow> proxyState pd' = PS_NONE"
  shows "conn_evolves B s s'"
  using assms by (auto simp: conn_evolves_def)

lemma conn_evolves_erase:
  "map_of (m_socketMap s') = (map_of (m_socketMap s))(cid := None) \<Longrightarrow> cid \<in> B \<Longrightarrow> conn_evolves B s s'"
  by (auto simp: conn_evolves_def split: if_splits)

section \<open>Connections\<close>

lemma pd_upd_frame [simp]:
  "m_ovDataSet (pd_upd cid f s) = m_ovDataSet s" "inflight (pd_upd cid f s) = inflight s"
  "trace (pd_upd cid f s) = trace s" "m_proxyAddress (pd_upd cid f s) = m_proxyAddress s"
  "m_pProxyHandler (pd_upd cid f s) = m_pProxyHandler s" "next_ov (pd_upd cid f s) = next_ov s"
  "m_hIOCP (pd_upd cid f s) = m_hIOCP s"
  by (simp_all add: pd_upd_def split: option.splits)

lemma pd_upd_find:
  "map_of (m_socketMap s) cid = Some pd \<Longrightarrow>
   map_of (m_socketMap (pd_upd cid f s)) = (map_of (m_socketMap s))(cid \<mapsto> f pd)"
  by (simp add: pd_upd_def)

lemma pd_upd_inv:
  assumes "proxy_inv H s" and "\<And>pd. map_of (m_socketMap s) cid = Some pd \<Longrightarrow> pd_ok pd \<Longrightarrow> pd_ok (f pd)"
  shows "proxy_inv H (pd_upd cid f s)"
proof (cases "map_of (m_socketMap s) cid")
  case (Some pd)
  then have "pd_ok (f pd)" using assms proxy_inv_pd by blast
  then have "\<forall>x \<in> ran ((map_of (m_socketMap s))(cid \<mapsto> f pd)). pd_ok x"
    using assms by (intro ran_upd_ok) (auto simp: proxy_inv_def)
  then show ?thesis
    using assms(1) by (simp add: proxy_inv_def pd_upd_def Some m_sorted_insert)
qed (use assms in \<open>simp add: pd_upd_def\<close>)

section \<open>Sending\<close>

text \<open>What a caller of \<open>udpSend\<close> promises: the buffer holds \<open>len\<close> bytes and the address fits.\<close>

definition addr_readable :: "bytes \<Rightarrow> bool" where
  "addr_readable a \<longleftrightarrow> 24 \<le> length a \<or> (8 \<le> length a \<and> sa_family a = Some AF_INET)"

definition send_args_ok :: "bytes \<Rightarrow> int \<Rightarrow> bytes \<Rightarrow> int \<Rightarrow> bool" where
  "send_args_ok buf len ra ralen \<longleftrightarrow> (len > 0 \<longrightarrow> len \<le> int (length buf) \<and> addr_readable ra \<and>
     0 \<le> ralen \<and> ralen \<le> int (length ra) \<and> ralen \<le> int NF_MAX_ADDRESS_LENGTH)"

text \<open>
  A datagram for an established association has at least one byte: the code takes the address of the
  first element of the encapsulated datagram, which is empty otherwise.
\<close>

definition sendable :: "u64 \<Rightarrow> int \<Rightarrow> 'a udp_proxy_scheme \<Rightarrow> bool" where
  "sendable cid len s \<longleftrightarrow>
     (\<forall>pd. map_of (m_socketMap s) cid = Some pd \<longrightarrow> proxyState pd = PS_CONNECTED \<longrightarrow> 0 < len)"

lemma udpSend_sendable: "udpSend E cid buf len ra ralen s = Some x \<Longrightarrow> sendable cid len s"
  by (auto simp: sendable_def udpSend_def udpSend_connected_def Let_def split_def bind_eq_Some_conv
      split: if_splits)

lemma udpSend_faults_iff:
  "\<not> sendable cid len s \<Longrightarrow> udpSend E cid buf len ra ralen s = None"
  using udpSend_sendable not_Some_eq by metis

lemma udp_datagram_nonempty [simp]: "udp_datagram ra payload = Some b \<Longrightarrow> b \<noteq> []"
  by (auto simp: udp_datagram_def bind_eq_Some_conv enc_SOCKS5_UDP_REQUEST_IPv4_def
      enc_SOCKS5_UDP_REQUEST_IPv6_def split: if_splits)

lemma udp_datagram_total: "addr_readable ra \<Longrightarrow> \<exists>b. udp_datagram ra payload = Some b"
  by (cases "sa_family ra"; cases "sin_addr ra"; cases "sin6_addr ra"; cases "sin_port ra")
    (auto simp: udp_datagram_def addr_readable_def)

lemma memcpy_from_total: "0 \<le> n \<Longrightarrow> n \<le> int (length b) \<Longrightarrow> memcpy_from b n = Some (take (nat n) b)"
  by (auto simp: memcpy_from_def rdn_def)

lemma new_UDP_PACKET_ok:
  assumes "send_args_ok buf len ra ralen" "0 < len"
  shows "\<exists>p. new_UDP_PACKET buf len ra ralen = Some p \<and> pk_ok p \<and> pk_buffer p = take (nat len) buf"
proof -
  have "\<exists>x. wrn 0 (take (nat ralen) ra) (replicate NF_MAX_ADDRESS_LENGTH 0) = Some x"
    using assms by (intro not_None_eq [THEN iffD1]) (simp add: send_args_ok_def, linarith)
  then obtain x where x: "wrn 0 (take (nat ralen) ra) (replicate NF_MAX_ADDRESS_LENGTH 0) = Some x" ..
  with assms show ?thesis
    by (auto simp: new_UDP_PACKET_def send_args_ok_def memcpy_from_total pk_ok_def
        dest!: wrn_length)
qed

lemma udpSend_connected_ok:
  assumes "proxy_inv H s" "map_of (m_socketMap s) cid = Some pd" "send_args_ok buf len ra ralen" "0 < len"
  shows "\<exists>r s' pd'. udpSend_connected E cid pd buf len ra s = Some (r, s') \<and> proxy_inv H s'
    \<and> map_of (m_socketMap s') = (map_of (m_socketMap s))(cid \<mapsto> pd')
    \<and> pd' \<in> {pd, pd\<lparr>udpRecvStarted := True\<rparr>} \<and> m_pProxyHandler s' = m_pProxyHandler s"
proof -
  let ?p = "next_ov s"
  have p: "?p \<notin> H" by (rule fresh_held [OF assms(1)])
  obtain b where b: "(if len > 0 then do { b \<leftarrow> memcpy_from buf len; udp_datagram ra b } else Some []) = Some b" "b \<noteq> []"
    using assms(3,4) udp_datagram_total [of ra "take (nat len) buf"]
    by (auto simp: send_args_ok_def memcpy_from_total)
  let ?t = "ov_upd ?p (\<lambda>d. d\<lparr>ov_buffer := b\<rparr>)
    (ov_upd ?p (\<lambda>d. d\<lparr>ov_type := OVT_UDP_SEND, ov_id := cid\<rparr>) (snd (newOV_DATA E s)))"
  let ?sub = "submit E (\<lambda>r. r = 0) (Net (WSASendTo (udpSocket pd) b
      (take (nat (pd_remoteAddressLen pd)) (pd_remoteAddress pd)) ?p)) ?p ?t"
  have t: "proxy_inv (insert ?p H) ?t"
    using fresh_held [OF assms(1)] by (auto intro!: ov_upd_inv simp: ov_ok_def)
  show ?thesis
  proof (cases "fst ?sub")
    case False
    have "proxy_inv (insert ?p H) (snd ?sub)"
      using submit_inv [OF t p, of E "\<lambda>r. r = 0"] False by presburger
    let ?x = "post_or_delete E (udpSocket pd) ?p
        (ov_upd ?p (\<lambda>d. d\<lparr>ov_type := OVT_UDP_RECEIVE, ov_buffer := []\<rparr>) (snd ?sub))"
    have "proxy_inv H ?x"
      using \<open>proxy_inv (insert ?p H) (snd ?sub)\<close> p
      by (auto intro!: post_or_delete_inv ov_upd_inv simp: ov_ok_def)
    moreover have "udpSend_connected E cid pd buf len ra s = Some (False, ?x)"
      using False by (simp add: udpSend_connected_def split_def Let_def b)
    moreover have "map_of (m_socketMap ?x) = (map_of (m_socketMap s))(cid \<mapsto> pd)"
      using assms(2) by (simp add: fun_upd_idem)
    ultimately show ?thesis by auto
  next
    case True
    have u: "proxy_inv H (snd ?sub)"
      using submit_inv [OF t p, of E "\<lambda>r. r = 0"] True by presburger
    show ?thesis
    proof (cases "udpRecvStarted pd")
      case True
      then have "udpSend_connected E cid pd buf len ra s = Some (True, snd ?sub)"
        using \<open>fst ?sub\<close> by (simp add: udpSend_connected_def split_def Let_def b)
      moreover have "map_of (m_socketMap (snd ?sub)) = (map_of (m_socketMap s))(cid \<mapsto> pd)"
        using assms(2) by (simp add: fun_upd_idem)
      ultimately show ?thesis using u by auto
    next
      case False
      let ?v = "pd_upd cid (\<lambda>pd. pd\<lparr>udpRecvStarted := True\<rparr>) (snd ?sub)"
      have "proxy_inv H ?v"
        using u by (rule pd_upd_inv) (simp add: pd_ok_def)
      from startUdpReceive_new [OF this, of E "udpSocket pd" cid] obtain s' where s':
        "startUdpReceive E (udpSocket pd) cid None ?v = Some (True, s')" "proxy_inv H s'"
        "m_socketMap s' = m_socketMap ?v" "m_pProxyHandler s' = m_pProxyHandler ?v" by blast
      moreover have "map_of (m_socketMap ?v) = (map_of (m_socketMap s))(cid \<mapsto> pd\<lparr>udpRecvStarted := True\<rparr>)"
        using assms(2) by (simp add: pd_upd_find)
      moreover have "udpSend_connected E cid pd buf len ra s = Some (True, s')"
        using False \<open>fst ?sub\<close> s'(1) by (simp add: udpSend_connected_def split_def Let_def b)
      ultimately show ?thesis by auto
    qed
  qed
qed

text \<open>The effect of \<open>udpSend\<close> on the connection it is called for.\<close>

lemma enter_leave_inv: "proxy_inv H s \<Longrightarrow> proxy_inv H (leave_cs E s)"
  by simp

definition send_effect :: "u64 \<Rightarrow> 'a udp_proxy_scheme \<Rightarrow> 'b udp_proxy_scheme \<Rightarrow> bool" where
  "send_effect cid s s' \<longleftrightarrow> (case map_of (m_socketMap s) cid of
       None \<Rightarrow> map_of (m_socketMap s') = map_of (m_socketMap s)
     | Some pd \<Rightarrow> \<exists>pd'. map_of (m_socketMap s') = (map_of (m_socketMap s))(cid \<mapsto> pd') \<and>
         (if proxyState pd = PS_CONNECTED then pd' \<in> {pd, pd\<lparr>udpRecvStarted := True\<rparr>}
          else \<exists>q. pd' = pd\<lparr>udpSendPackets := udpSendPackets pd @ q\<rparr>))"

lemma send_effectI:
  assumes "map_of (m_socketMap s) cid = Some pd"
    and "map_of (m_socketMap s') = (map_of (m_socketMap s))(cid \<mapsto> pd')"
    and "if proxyState pd = PS_CONNECTED then pd' \<in> {pd, pd\<lparr>udpRecvStarted := True\<rparr>}
          else \<exists>q. pd' = pd\<lparr>udpSendPackets := udpSendPackets pd @ q\<rparr>"
  shows "send_effect cid s s'"
  unfolding send_effect_def assms(1) option.case using assms(2,3) by blast

lemma udpSend_queue_ok:
  assumes "proxy_inv H s" "send_args_ok buf len ra ralen"
    and "map_of (m_socketMap s) cid = Some pd" "proxyState pd \<noteq> PS_CONNECTED"
  shows "\<exists>s'. udpSend E cid buf len ra ralen s = Some (True, s') \<and> proxy_inv H s'
    \<and> m_pProxyHandler s' = m_pProxyHandler s \<and> send_effect cid s s'"
proof (cases "0 < len")
  case True
  from new_UDP_PACKET_ok [OF assms(2) True] obtain p where
    p: "new_UDP_PACKET buf len ra ralen = Some p" "pk_ok p" by blast
  let ?t = "pd_upd cid (\<lambda>pd. pd\<lparr>udpSendPackets := udpSendPackets pd @ [p]\<rparr>) (enter_cs E s)"
  let ?pd = "pd\<lparr>udpSendPackets := udpSendPackets pd @ [p]\<rparr>"
  have "udpSend E cid buf len ra ralen s = Some (True, leave_cs E ?t)"
    using assms(3,4) True p by (simp add: udpSend_def Let_def)
  moreover have "proxy_inv H (leave_cs E ?t)"
    using assms(1) p(2) by (auto intro!: pd_upd_inv simp: pd_ok_def)
  moreover have "send_effect cid s (leave_cs E ?t)"
    by (rule send_effectI [OF assms(3), of _ ?pd]) (use assms(3,4) in \<open>auto simp: pd_upd_find\<close>)
  ultimately show ?thesis by auto
next
  case False
  let ?t = "leave_cs E (enter_cs E s)"
  have "udpSend E cid buf len ra ralen s = Some (True, ?t)"
    using assms(3,4) False by (simp add: udpSend_def Let_def)
  moreover have "send_effect cid s ?t"
    by (rule send_effectI [OF assms(3), of _ pd])
      (use assms(3,4) in \<open>auto simp: fun_upd_idem intro!: exI [of _ "[]"]\<close>)
  ultimately show ?thesis using assms(1) by auto
qed

lemma udpSend_ok:
  assumes "proxy_inv H s" "send_args_ok buf len ra ralen" "sendable cid len s"
  shows "\<exists>r s'. udpSend E cid buf len ra ralen s = Some (r, s') \<and> proxy_inv H s'
    \<and> m_pProxyHandler s' = m_pProxyHandler s \<and> send_effect cid s s'"
proof (cases "map_of (m_socketMap s) cid")
  case None
  then have "udpSend E cid buf len ra ralen s = Some (False, leave_cs E (enter_cs E s))"
    by (simp add: udpSend_def)
  moreover have "send_effect cid s (leave_cs E (enter_cs E s))"
    by (simp add: send_effect_def None)
  ultimately show ?thesis using assms(1) by auto
next
  case (Some pd)
  show ?thesis
  proof (cases "proxyState pd = PS_CONNECTED")
    case True
    have "proxy_inv H (enter_cs E s)" "map_of (m_socketMap (enter_cs E s)) cid = Some pd"
      using assms(1) Some by simp_all
    moreover have "0 < len" using assms(3) Some True by (simp add: sendable_def)
    ultimately obtain r t pd' where
      t: "udpSend_connected E cid pd buf len ra (enter_cs E s) = Some (r, t)" "proxy_inv H t"
      "map_of (m_socketMap t) = (map_of (m_socketMap (enter_cs E s)))(cid \<mapsto> pd')"
      "pd' \<in> {pd, pd\<lparr>udpRecvStarted := True\<rparr>}" "m_pProxyHandler t = m_pProxyHandler (enter_cs E s)"
      using udpSend_connected_ok [OF _ _ assms(2), of H "enter_cs E s" cid pd E] by blast
    have "send_effect cid s (leave_cs E t)"
      by (rule send_effectI [OF Some, of _ pd']) (use t(3,4) True in simp_all)
    then show ?thesis
      using True Some t by (auto simp: udpSend_def Let_def)
  qed (use udpSend_queue_ok [OF assms(1,2) Some] in blast)
qed

lemma flush_packets_ok:
  assumes "proxy_inv H s" "map_of (m_socketMap s) cid = Some pd" "proxyState pd = PS_CONNECTED"
  shows "\<exists>s' pd'. flush_packets E cid s = Some s' \<and> proxy_inv H s'
    \<and> m_pProxyHandler s' = m_pProxyHandler s
    \<and> map_of (m_socketMap s') = (map_of (m_socketMap s))(cid \<mapsto> pd')
    \<and> pd' \<in> {pd\<lparr>udpSendPackets := []\<rparr>, pd\<lparr>udpSendPackets := [], udpRecvStarted := True\<rparr>}"
  using assms
proof (induction "udpSendPackets pd" arbitrary: s pd)
  case Nil
  have "flush_packets E cid s = Some s"
    using Nil.prems(2) Nil.hyps [symmetric] by (subst flush_packets.simps) simp
  moreover have "pd = pd\<lparr>udpSendPackets := []\<rparr>"
    using Nil.hyps [symmetric] by simp
  ultimately show ?case
    using Nil.prems by (metis fun_upd_triv insertI1)
next
  case (Cons p ps)
  have pd: "pd_ok pd" by (rule proxy_inv_pd [OF Cons.prems(1,2)])
  then have "pk_ok p" unfolding pd_ok_def by (metis Cons.hyps(2) list.set_intros(1))
  then have args: "send_args_ok (pk_buffer p) (int (length (pk_buffer p))) (pk_remoteAddress p) (pk_remoteAddressLen p)"
    by (auto simp: send_args_ok_def addr_readable_def pk_ok_def NF_MAX_ADDRESS_LENGTH_def)
  have "sendable cid (int (length (pk_buffer p))) s"
    using \<open>pk_ok p\<close> by (simp add: sendable_def pk_ok_def)
  from udpSend_ok [OF Cons.prems(1) args this, of E] Cons.prems(2,3)
  obtain r s1 pd1 where s1: "udpSend E cid (pk_buffer p) (int (length (pk_buffer p))) (pk_remoteAddress p)
        (pk_remoteAddressLen p) s = Some (r, s1)" "proxy_inv H s1" "m_pProxyHandler s1 = m_pProxyHandler s"
      "map_of (m_socketMap s1) = (map_of (m_socketMap s))(cid \<mapsto> pd1)"
    and pd1: "pd1 \<in> {pd, pd\<lparr>udpRecvStarted := True\<rparr>}"
    unfolding send_effect_def by auto
  let ?f = "\<lambda>pd. pd\<lparr>udpSendPackets := tl (udpSendPackets pd)\<rparr>"
  let ?s2 = "pd_upd cid ?f s1"
  have ps: "udpSendPackets (?f pd1) = ps" "proxyState (?f pd1) = PS_CONNECTED"
    using pd1 Cons.hyps(2) [symmetric] Cons.prems(3) by auto
  have find2: "map_of (m_socketMap ?s2) = (map_of (m_socketMap s))(cid \<mapsto> ?f pd1)"
    using s1(4) by (simp add: pd_upd_find)
  have inv2: "proxy_inv H ?s2"
    using s1(2) by (rule pd_upd_inv) (auto simp: pd_ok_def dest: in_set_tlD)
  from Cons.hyps(1) [of "?f pd1" ?s2] inv2 find2 ps obtain s' pd' where
    "flush_packets E cid ?s2 = Some s'" "proxy_inv H s'" "m_pProxyHandler s' = m_pProxyHandler ?s2"
    "map_of (m_socketMap s') = (map_of (m_socketMap ?s2))(cid \<mapsto> pd')"
    "pd' \<in> {?f pd1\<lparr>udpSendPackets := []\<rparr>, ?f pd1\<lparr>udpSendPackets := [], udpRecvStarted := True\<rparr>}"
    by auto
  moreover have "flush_packets E cid s = flush_packets E cid ?s2"
    using s1(1) Cons.prems(2) Cons.hyps(2) [symmetric] by (subst flush_packets.simps) simp
  ultimately show ?case
    using pd1 s1(3) find2 by auto
qed

text \<open>Induction over the runs of the loop that end.\<close>

lemma flush_packets_induct [consumes 1, case_names empty send]:
  assumes "flush_packets E cid s = Some s'"
    and empty: "\<And>s. P s s"
    and send: "\<And>s pd (p :: UDP_PACKET) ps r t s'. map_of (m_socketMap s) cid = Some pd \<Longrightarrow>
      udpSendPackets pd = p # ps \<Longrightarrow> udpSend E cid (pk_buffer p) (int (length (pk_buffer p))) (pk_remoteAddress p)
        (pk_remoteAddressLen p) s = Some (r, t) \<Longrightarrow>
      P (pd_upd cid (\<lambda>pd. pd\<lparr>udpSendPackets := tl (udpSendPackets pd)\<rparr>) t) s' \<Longrightarrow> P s s'"
  shows "P s s'"
proof -
  have "E' = E \<longrightarrow> cid' = cid \<longrightarrow> P s s'" if "flush_packets E' cid' s = Some s'" for E' cid'
  proof (rule flush_packets.raw_induct [where P = "\<lambda>E' cid' s s'. E' = E \<longrightarrow> cid' = cid \<longrightarrow> P s s'",
        OF _ that], goal_cases)
    case (1 flush E' cid' s s')
    from 1(2) obtain pd where pd: "map_of (m_socketMap s) cid' = Some pd"
      by (auto simp: bind_eq_Some_conv)
    show ?case
    proof (cases "udpSendPackets pd")
      case Nil
      with 1(2) pd empty show ?thesis by simp
    next
      case (Cons p ps)
      with 1(2) pd obtain r t where u:
        "udpSend E' cid' (pk_buffer p) (int (length (pk_buffer p))) (pk_remoteAddress p) (pk_remoteAddressLen p) s = Some (r, t)"
        and f: "flush E' cid' (pd_upd cid' (\<lambda>pd. pd\<lparr>udpSendPackets := tl (udpSendPackets pd)\<rparr>) t) = Some s'"
        by (auto simp: bind_eq_Some_conv)
      from 1(1) [rule_format, OF f] u pd Cons show ?thesis
        by (auto intro: send)
    qed
  qed
  with assms(1) show ?thesis by blast
qed

section \<open>The replies of the proxy\<close>

text \<open>
  \<open>handled B H s r\<close>: the call returned, in a state that satisfies the invariant with \<open>H\<close> held, and
  the connections evolved, only those of \<open>B\<close> from the initial state.
\<close>

definition handled :: "u64 set \<Rightarrow> ovp set \<Rightarrow> 'a udp_proxy_scheme \<Rightarrow> 'a udp_proxy_scheme option \<Rightarrow> bool" where
  "handled B H s r \<longleftrightarrow> (\<exists>s'. r = Some s' \<and> proxy_inv H s' \<and> conn_evolves B s s' \<and>
     m_pProxyHandler s' = m_pProxyHandler s)"

lemma handledI:
  "proxy_inv H s' \<Longrightarrow> conn_evolves B s s' \<Longrightarrow> m_pProxyHandler s' = m_pProxyHandler s \<Longrightarrow> handled B H s (Some s')"
  by (simp add: handled_def)

lemma handled_same: "proxy_inv H s \<Longrightarrow> handled B H s (Some s)"
  by (simp add: handled_def)

lemma handled_bind:
  assumes "handled B H s r"
    and "\<And>t. proxy_inv H t \<Longrightarrow> conn_evolves B s t \<Longrightarrow> m_pProxyHandler t = m_pProxyHandler s \<Longrightarrow>
      handled B K t (f t)"
  shows "handled B K s (Option.bind r f)"
proof -
  from assms(1) obtain t where t: "r = Some t" "proxy_inv H t" "conn_evolves B s t"
    "m_pProxyHandler t = m_pProxyHandler s" by (auto simp: handled_def)
  from assms(2) [OF t(2-4)] obtain u where "f t = Some u" "proxy_inv K u" "conn_evolves B t u"
    "m_pProxyHandler u = m_pProxyHandler t" by (auto simp: handled_def)
  with t show ?thesis using conn_evolves_trans by (auto simp: handled_def)
qed

lemma set_state_frame [simp]:
  "m_pProxyHandler (set_state cid st s) = m_pProxyHandler s"
  "m_ovDataSet (set_state cid st s) = m_ovDataSet s"
  "m_proxyAddress (set_state cid st s) = m_proxyAddress s"
  by (simp_all add: set_state_def)

lemma set_state_inv: "proxy_inv H s \<Longrightarrow> proxy_inv H (set_state cid st s)"
  unfolding set_state_def by (rule pd_upd_inv) (simp_all add: pd_ok_def)

lemma send_and_advance_ok:
  assumes "proxy_inv H s" "map_of (m_socketMap s) cid = Some pd"
    and "proxyState pd \<le> st" "st < PS_CONNECTED" "proxyState pd = PS_NONE \<longrightarrow> cid \<in> B"
  shows "handled B H s (Some (send_and_advance E cid pd' msg st s))"
proof -
  let ?t = "snd (startTcpSend E (tcpSocket pd') msg cid s)"
  have st: "st \<noteq> PS_CONNECTED" "st \<noteq> PS_CLOSED" "\<not> PS_CONNECTED \<le> proxyState pd" "proxyState pd \<noteq> PS_CONNECTED"
    using assms(3,4) by (auto simp: less_PROXY_STATE_def less_eq_PROXY_STATE_def)
  have t: "proxy_inv H ?t" by (rule startTcpSend_inv [OF assms(1)])
  have "conn_evolves B s (set_state cid st ?t)"
    by (rule conn_evolves_upd [where cid = cid and pd = pd and pd' = "pd\<lparr>proxyState := st\<rparr>"])
      (use assms st in \<open>auto simp: set_state_def pd_upd_find pd_step_def pd_settled_def\<close>)
  then show ?thesis
    using t set_state_inv [OF t, of cid st]
    by (auto simp: send_and_advance_def split_def Let_def intro!: handledI)
qed

lemma relay_address_ok:
  assumes "length pa = NF_MAX_ADDRESS_LENGTH" "22 \<le> length buf"
  shows "\<exists>r. relay_address pa buf ty = Some r \<and> (\<forall>a. r = Some a \<longrightarrow> length a \<le> NF_MAX_ADDRESS_LENGTH)"
proof -
  obtain r4 where r4: "dec_SOCKS5_RESPONSE_IPv4 buf = Some r4"
    using s5r4.dec_total [of buf] assms(2) by (auto simp: sizeof_SOCKS5_RESPONSE_IPv4_def)
  obtain r6 where r6: "dec_SOCKS5_RESPONSE_IPv6 buf = Some r6"
    using s5r6.dec_total [of buf] assms(2) by (auto simp: sizeof_SOCKS5_RESPONSE_IPv6_def)
  obtain a where a: "sin_addr pa = Some a"
    using assms(1) by (cases "sin_addr pa") (auto simp: NF_MAX_ADDRESS_LENGTH_def)
  obtain a6 where a6: "sin6_addr pa = Some a6" "length a6 = 16"
    using assms(1) by (cases "sin6_addr pa") (auto simp: NF_MAX_ADDRESS_LENGTH_def sin6_addr_def dest: rdn_length)
  show ?thesis
    by (simp add: relay_address_def r4 r6 a a6 NF_MAX_ADDRESS_LENGTH_def)
qed

lemma reply_auth_ok:
  assumes "proxy_inv H s" "map_of (m_socketMap s) cid = Some pd" "proxyState pd = PS_AUTH"
    and "2 \<le> length buf"
  shows "handled B H s (reply_auth E cid pd n buf s)"
proof -
  obtain pr where "dec_SOCK5_AUTH_RESPONSE buf = Some pr"
    using s5ar.dec_total [of buf] assms(4) by (auto simp: sizeof_SOCK5_AUTH_RESPONSE_def)
  then show ?thesis
    using assms by (simp add: reply_auth_def handled_same send_and_advance_ok [OF assms(1,2)]
        less_PROXY_STATE_def less_eq_PROXY_STATE_def)
qed

lemma reply_auth_negotiation_ok:
  assumes "proxy_inv H s" "map_of (m_socketMap s) cid = Some pd" "proxyState pd = PS_AUTH_NEGOTIATION"
    and "2 \<le> length buf"
  shows "handled B H s (reply_auth_negotiation E cid pd n buf s)"
proof -
  obtain pr where "dec_SOCK5_AUTH_RESPONSE buf = Some pr"
    using s5ar.dec_total [of buf] assms(4) by (auto simp: sizeof_SOCK5_AUTH_RESPONSE_def)
  then show ?thesis
    using assms by (simp add: reply_auth_negotiation_def handled_same send_and_advance_ok [OF assms(1,2)]
        less_PROXY_STATE_def less_eq_PROXY_STATE_def)
qed

lemma connect_and_flush_ok:
  assumes "proxy_inv H s" "map_of (m_socketMap s) cid = Some pd" "proxyState pd = PS_UDP_ASSOC"
    and "length ra = NF_MAX_ADDRESS_LENGTH"
  shows "handled B H s (flush_packets E cid (set_state cid PS_CONNECTED
           (pd_upd cid (\<lambda>pd. pd\<lparr>pd_remoteAddress := ra, pd_remoteAddressLen := n\<rparr>) s)))"
proof -
  let ?f = "\<lambda>pd. pd\<lparr>pd_remoteAddress := ra, pd_remoteAddressLen := n\<rparr>"
  let ?t = "set_state cid PS_CONNECTED (pd_upd cid ?f s)"
  let ?pd = "(?f pd)\<lparr>proxyState := PS_CONNECTED\<rparr>"
  have "proxy_inv H (pd_upd cid ?f s)"
    using assms(1) by (rule pd_upd_inv) (use assms(4) in \<open>simp add: pd_ok_def\<close>)
  then have t: "proxy_inv H ?t" by (rule set_state_inv)
  have find: "map_of (m_socketMap ?t) = (map_of (m_socketMap s))(cid \<mapsto> ?pd)"
    using assms(2) by (simp add: set_state_def pd_upd_find)
  then have "map_of (m_socketMap ?t) cid = Some ?pd" "proxyState ?pd = PS_CONNECTED" by simp_all
  from flush_packets_ok [OF t this, of E] obtain s' pd' where
    s': "flush_packets E cid ?t = Some s'" "proxy_inv H s'" "m_pProxyHandler s' = m_pProxyHandler ?t"
    "map_of (m_socketMap s') = (map_of (m_socketMap ?t))(cid \<mapsto> pd')"
    and pd': "pd' \<in> {?pd\<lparr>udpSendPackets := []\<rparr>, ?pd\<lparr>udpSendPackets := [], udpRecvStarted := True\<rparr>}"
    by blast
  have "conn_evolves B s s'"
    by (rule conn_evolves_upd [where cid = cid and pd = pd and pd' = pd'])
      (use s'(4) find assms(2,3) pd' in
        \<open>auto simp: pd_step_def pd_settled_def less_eq_PROXY_STATE_def\<close>)
  with s' show ?thesis by (simp add: handled_def)
qed

lemma reply_udp_assoc_ok:
  assumes "proxy_inv H s" "map_of (m_socketMap s) cid = Some pd" "proxyState pd = PS_UDP_ASSOC"
    and "22 \<le> length buf"
  shows "handled B H s (reply_udp_assoc E cid pd n buf s)"
proof -
  obtain pr where pr: "dec_SOCKS5_RESPONSE buf = Some pr"
    using s5r.dec_total [of buf] assms(4) by (auto simp: sizeof_SOCKS5_RESPONSE_def)
  have "length (m_proxyAddress s) = NF_MAX_ADDRESS_LENGTH" using assms(1) by (simp add: proxy_inv_def)
  from relay_address_ok [OF this assms(4)] obtain r where
    r: "relay_address (m_proxyAddress s) buf (s5r_address_type pr) = Some r"
    "\<And>a. r = Some a \<Longrightarrow> length a \<le> NF_MAX_ADDRESS_LENGTH" by blast
  show ?thesis
  proof (cases r)
    case None
    with r pr assms(1) show ?thesis by (simp add: reply_udp_assoc_def handled_same)
  next
    case (Some a)
    have "length (pd_remoteAddress pd) = NF_MAX_ADDRESS_LENGTH"
      using proxy_inv_pd [OF assms(1,2)] by (simp add: pd_ok_def)
    moreover obtain ra where "wrn 0 a (pd_remoteAddress pd) = Some ra"
      using r(2) [OF Some] calculation by (cases "wrn 0 a (pd_remoteAddress pd)") auto
    ultimately show ?thesis
      using r pr assms(1) connect_and_flush_ok [OF assms(1-3), of ra B E "int (length a)"] Some
      by (simp add: reply_udp_assoc_def handled_same Let_def wrn_length)
  qed
qed

lemma tcp_reply_ok:
  assumes "proxy_inv H s" "map_of (m_socketMap s) cid = Some pd" "22 \<le> length buf"
  shows "handled B H s (tcp_reply E cid pd n buf s)"
  using assms by (cases "proxyState pd")
    (simp_all add: tcp_reply_def handled_same reply_auth_ok reply_auth_negotiation_ok reply_udp_assoc_ok)

section \<open>Completion handlers\<close>

lemma handled_enter: "handled B H (enter_cs E s) r \<Longrightarrow> handled B H s r"
  by (auto simp: handled_def conn_evolves_def)

lemma handled_delete:
  "proxy_inv (insert p H) s \<Longrightarrow> p \<notin> H \<Longrightarrow> handled B H s (Some (deleteOV_DATA E p s))"
  by (simp add: handledI deleteOV_DATA_inv)

lemma onTcpReceiveComplete_ok:
  assumes "proxy_inv (insert p H) s" "p \<notin> H"
    and "map_of (m_ovDataSet s) p = Some d" "ov_type d = OVT_TCP_RECEIVE"
    and "unat n \<le> length (ov_buffer d)"
  shows "handled B H s (onTcpReceiveComplete E sk n p err s)"
proof (cases "n = 0")
  case True
  then show ?thesis using assms(1,2) by (simp add: onTcpReceiveComplete_def handled_delete)
next
  case False
  have "ov_ok d" using proxy_inv_live [OF assms(1), of p] assms(3) by auto
  then have buf: "length (ov_buffer d) = PACKET_SIZE"
    using False assms(4,5) by (auto simp: ov_ok_def unat_eq_0 [symmetric] simp del: unat_eq_0)
  have reply: "handled B (insert p H) (enter_cs E s) (case map_of (m_socketMap s) (ov_id d) of
      None \<Rightarrow> Some (enter_cs E s)
    | Some pd \<Rightarrow> tcp_reply E (ov_id d) pd n (ov_buffer d) (enter_cs E s))"
    using assms(1) buf by (auto simp: handled_same PACKET_SIZE_def intro!: tcp_reply_ok split: option.split)
  have rearm: "handled B H t (do {
        d \<leftarrow> map_of (m_ovDataSet (leave_cs E t)) p;
        (r, s) \<leftarrow> startTcpReceive E sk (ov_id d) (Some p) (leave_cs E t);
        Some s })" if t: "proxy_inv (insert p H) t" for t :: "'a udp_proxy_scheme"
  proof -
    from proxy_inv_live [OF t, of p] obtain d where d: "map_of (m_ovDataSet t) p = Some d" by auto
    from t have "proxy_inv (insert p H) (leave_cs E t)" by simp
    from startTcpReceive_held [OF this assms(2), of E sk "ov_id d"] obtain u where
      "startTcpReceive E sk (ov_id d) (Some p) (leave_cs E t) = Some (True, u)" "proxy_inv H u"
      "m_socketMap u = m_socketMap (leave_cs E t)" "m_pProxyHandler u = m_pProxyHandler (leave_cs E t)"
      by blast
    with d show ?thesis by (simp add: handledI)
  qed
  show ?thesis
    using handled_enter [OF handled_bind [OF reply rearm]] False assms(3)
    by (simp add: onTcpReceiveComplete_def Let_def)
qed

lemma deleteProxyConnection_frame [simp]:
  "m_ovDataSet (deleteProxyConnection E cid s) = m_ovDataSet s"
  "inflight (deleteProxyConnection E cid s) = inflight s"
  "m_proxyAddress (deleteProxyConnection E cid s) = m_proxyAddress s"
  "m_pProxyHandler (deleteProxyConnection E cid s) = m_pProxyHandler s"
  "next_ov (deleteProxyConnection E cid s) = next_ov s"
  "map_of (m_socketMap (deleteProxyConnection E cid s)) = (map_of (m_socketMap s))(cid := None)"
  by (auto simp: deleteProxyConnection_def delete_PROXY_DATA_def emit_eq Let_def split: option.splits)

lemma deleteProxyConnection_inv:
  assumes "proxy_inv H s" shows "proxy_inv H (deleteProxyConnection E cid s)"
proof -
  have "\<forall>x \<in> ran ((map_of (m_socketMap s))(cid := None)). pd_ok x"
    using assms by (intro ran_None_ok) (auto simp: proxy_inv_def)
  moreover have "m_sorted (m_socketMap (deleteProxyConnection E cid s))"
    using assms by (simp add: proxy_inv_def deleteProxyConnection_def delete_PROXY_DATA_def Let_def
        m_sorted_erase split: option.split)
  ultimately show ?thesis using assms by (simp add: proxy_inv_def)
qed

lemma onConnectComplete_ok:
  assumes "proxy_inv (insert p H) s" "p \<notin> H" "map_of (m_ovDataSet s) p = Some d"
  shows "\<exists>s'. onConnectComplete E sk n p err s = Some s' \<and> proxy_inv H s' \<and>
    m_pProxyHandler s' = m_pProxyHandler s \<and>
    ((\<forall>pd. map_of (m_socketMap s) (ov_id d) = Some pd \<longrightarrow> proxyState pd = PS_NONE) \<longrightarrow>
      conn_evolves {ov_id d} s s')"
proof (cases "err = 0")
  case False
  let ?t = "deleteOV_DATA E p (deleteProxyConnection E (ov_id d) s)"
  have "proxy_inv H ?t"
    by (rule deleteOV_DATA_inv [OF deleteProxyConnection_inv [OF assms(1)] assms(2)])
  moreover have "conn_evolves {ov_id d} s ?t" by (rule conn_evolves_erase [of _ _ "ov_id d"]) simp_all
  ultimately show ?thesis using False assms(3) by (simp add: onConnectComplete_def)
next
  case True
  show ?thesis
  proof (cases "map_of (m_socketMap s) (ov_id d)")
    case None
    with True assms show ?thesis by (simp add: onConnectComplete_def Let_def deleteOV_DATA_inv)
  next
    case (Some pd)
    let ?s1 = "emit E (Net (SetSockOpt sk)) (emit E (Net (SetSockOpt sk)) (enter_cs E s))"
    let ?s2 = "send_and_advance E (ov_id d) pd (greeting pd) PS_AUTH ?s1"
    have inv1: "proxy_inv (insert p H) ?s1" using assms(1) by simp
    have t: "proxy_inv (insert p H) (snd (startTcpSend E (tcpSocket pd) (greeting pd) (ov_id d) ?s1))"
      by (rule startTcpSend_inv [OF inv1])
    have inv2: "proxy_inv (insert p H) ?s2"
      using set_state_inv [OF t, of "ov_id d" PS_AUTH] t by (simp add: send_and_advance_def split_def Let_def)
    have h2: "m_pProxyHandler ?s2 = m_pProxyHandler s"
      by (simp add: send_and_advance_def split_def Let_def)
    from startTcpReceive_new [OF inv2, of E "tcpSocket pd" "ov_id d"] obtain s3 where s3:
      "startTcpReceive E (tcpSocket pd) (ov_id d) None ?s2 = Some (True, s3)" "proxy_inv (insert p H) s3"
      "m_socketMap s3 = m_socketMap ?s2" "m_pProxyHandler s3 = m_pProxyHandler ?s2" by blast
    let ?u = "leave_cs E (deleteOV_DATA E p s3)"
    have "proxy_inv H ?u" using deleteOV_DATA_inv [OF s3(2) assms(2)] by simp
    moreover have "onConnectComplete E sk n p err s = Some ?u"
      using True Some assms(3) s3(1) by (simp add: onConnectComplete_def Let_def)
    moreover have "conn_evolves {ov_id d} s ?u" if "proxyState pd = PS_NONE"
    proof -
      have "handled {ov_id d} (insert p H) ?s1 (Some ?s2)"
        by (rule send_and_advance_ok [OF inv1, of _ pd])
          (use Some that in \<open>simp_all add: less_eq_PROXY_STATE_def less_PROXY_STATE_def\<close>)
      then show ?thesis using s3(3) by (auto simp: handled_def conn_evolves_def)
    qed
    ultimately show ?thesis using s3(4) h2 Some by auto
  qed
qed

text \<open>
  What the proxy asks of the object behind \<open>m_pProxyHandler\<close>: the call returns and leaves the
  proxy's own data alone.
\<close>

definition receiver_ok :: "'a udp_proxy_scheme recv_fun \<Rightarrow> bool" where
  "receiver_ok recv \<longleftrightarrow> (\<forall>cid buf len addr alen s. \<exists>s'.
     recv cid buf len addr alen s = Some s' \<and> proxy_data s' = proxy_data s)"

lemma receiver_handled:
  assumes "receiver_ok recv" "proxy_inv H s"
  shows "handled B H s (recv cid buf len addr alen s)"
proof -
  obtain s' where s': "recv cid buf len addr alen s = Some s'" "proxy_data s' = proxy_data s"
    using assms(1) unfolding receiver_ok_def by blast
  then have "m_socketMap s' = m_socketMap s" "m_pProxyHandler s' = m_pProxyHandler s"
    by (simp_all add: proxy_data_def)
  with s' assms(2) proxy_inv_data [OF s'(2), of H] show ?thesis by (simp add: handledI)
qed

lemma onUdpReceiveComplete_ok:
  assumes "proxy_inv (insert p H) s" "p \<notin> H" "receiver_ok recv" "m_pProxyHandler s"
    and "map_of (m_ovDataSet s) p = Some d" "ov_type d = OVT_UDP_RECEIVE"
    and "unat n \<le> length (ov_buffer d)"
  shows "handled B H s (onUdpReceiveComplete E recv sk n p err s)"
proof (cases "n = 0")
  case True
  then show ?thesis using assms(1,2) by (simp add: onUdpReceiveComplete_def handled_delete)
next
  case False
  have "ov_ok d" using proxy_inv_live [OF assms(1), of p] assms(5) by auto
  then have buf: "length (ov_buffer d) = PACKET_SIZE"
    using False assms(6,7) by (auto simp: ov_ok_def unat_eq_0 [symmetric] simp del: unat_eq_0)
  obtain q where q: "dec_SOCKS5_UDP_REQUEST (ov_buffer d) = Some q"
    using s5u.dec_total [of "ov_buffer d"] buf by (auto simp: sizeof_SOCKS5_UDP_REQUEST_def PACKET_SIZE_def)
  obtain q4 where q4: "dec_SOCKS5_UDP_REQUEST_IPv4 (ov_buffer d) = Some q4"
    using s5u4.dec_total [of "ov_buffer d"] buf by (auto simp: sizeof_SOCKS5_UDP_REQUEST_IPv4_def PACKET_SIZE_def)
  obtain q6 where q6: "dec_SOCKS5_UDP_REQUEST_IPv6 (ov_buffer d) = Some q6"
    using s5u6.dec_total [of "ov_buffer d"] buf by (auto simp: sizeof_SOCKS5_UDP_REQUEST_IPv6_def PACKET_SIZE_def)
  have rearm: "handled B H t (do {
        d \<leftarrow> map_of (m_ovDataSet t) p;
        (r, s) \<leftarrow> startUdpReceive E sk (ov_id d) (Some p) t;
        Some s })" if t: "proxy_inv (insert p H) t" for t :: "'a udp_proxy_scheme"
  proof -
    from proxy_inv_live [OF t, of p] obtain d where d: "map_of (m_ovDataSet t) p = Some d" by auto
    from startUdpReceive_held [OF t assms(2), of E sk "ov_id d"] obtain u where
      "startUdpReceive E sk (ov_id d) (Some p) t = Some (True, u)" "proxy_inv H u"
      "m_socketMap u = m_socketMap t" "m_pProxyHandler u = m_pProxyHandler t"
      by blast
    with d show ?thesis by (simp add: handledI)
  qed
  show ?thesis
    unfolding onUdpReceiveComplete_def if_not_P [OF False] assms(5) Option.bind.bind_lunit q q4 q6 Let_def
      if_P [OF assms(4)]
    by (rule handled_bind [where H = "insert p H"])
      (use receiver_handled [OF assms(3,1)] assms(1) rearm in
        \<open>auto simp: handled_same split: if_split\<close>)
qed

section \<open>The port's view\<close>

text \<open>
  \<open>deliver\<close> is what the platform does when it dequeues the packet of an accepted request: the
  request leaves the ledger and the received bytes are in the request's buffer. \<open>legal\<close> packets are
  time-outs without an object, other errors without an object when the port could not be created, and
  completions of accepted requests that transferred no more than the buffer holds.
\<close>

definition is_receive :: "OV_DATA \<Rightarrow> bool" where
  "is_receive d \<longleftrightarrow> ov_type d \<in> {OVT_TCP_RECEIVE, OVT_UDP_RECEIVE}"

definition deliver :: "completion \<Rightarrow> 'a udp_proxy_scheme \<Rightarrow> 'a udp_proxy_scheme" where
  "deliver c s = (case cq_overlapped c of
       None \<Rightarrow> s
     | Some p \<Rightarrow> ov_upd p (\<lambda>d. if is_receive d
           then d\<lparr>ov_buffer := cq_data c @ drop (length (cq_data c)) (ov_buffer d)\<rparr> else d)
         (s\<lparr>inflight := remove1 p (inflight s)\<rparr>))"

definition legal :: "'a udp_proxy_scheme \<Rightarrow> completion \<Rightarrow> bool" where
  "legal s c \<longleftrightarrow> (case cq_overlapped c of
       None \<Rightarrow> is_timeout c \<or> port_error c \<and> no_port s
     | Some p \<Rightarrow> \<not> is_timeout c \<and> p \<in> set (inflight s) \<and>
         length (cq_data c) = unat (cq_transferred c) \<and>
         (case map_of (m_ovDataSet s) p of
            None \<Rightarrow> True
          | Some d \<Rightarrow> is_receive d \<longrightarrow> unat (cq_transferred c) \<le> length (ov_buffer d)))"

text \<open>
  A connect completion finds its connection in the initial state (a connection identifier is
  connected once).
\<close>

definition connect_first :: "'a udp_proxy_scheme \<Rightarrow> completion \<Rightarrow> bool" where
  "connect_first s c \<longleftrightarrow> (\<forall>p d pd. cq_overlapped c = Some p \<longrightarrow> map_of (m_ovDataSet s) p = Some d \<longrightarrow>
     ov_type d = OVT_CONNECT \<longrightarrow> map_of (m_socketMap s) (ov_id d) = Some pd \<longrightarrow> proxyState pd = PS_NONE)"

definition connecting :: "'a udp_proxy_scheme \<Rightarrow> completion \<Rightarrow> u64 set" where
  "connecting s c = {i. \<exists>p d. cq_overlapped c = Some p \<and> map_of (m_ovDataSet s) p = Some d \<and>
     ov_type d = OVT_CONNECT \<and> ov_id d = i}"

lemma deliver_frame [simp]:
  "m_socketMap (deliver c s) = m_socketMap s" "m_pProxyHandler (deliver c s) = m_pProxyHandler s"
  "trace (deliver c s) = trace s"
  by (simp_all add: deliver_def split: option.split)

lemma deliver_inv:
  assumes "proxy_inv H s" "legal s c" "cq_overlapped c = Some p"
  shows "proxy_inv (insert p H) (deliver c s)"
    and "\<exists>d. map_of (m_ovDataSet (deliver c s)) p = Some d \<and>
           (is_receive d \<longrightarrow> unat (cq_transferred c) \<le> length (ov_buffer d)) \<and>
           (\<forall>e. map_of (m_ovDataSet s) p = Some e \<longrightarrow> ov_type d = ov_type e \<and> ov_id d = ov_id e)"
proof -
  let ?t = "s\<lparr>inflight := remove1 p (inflight s)\<rparr>"
  let ?f = "\<lambda>d. if is_receive d
           then d\<lparr>ov_buffer := cq_data c @ drop (length (cq_data c)) (ov_buffer d)\<rparr> else d"
  have p: "p \<in> set (inflight s)" using assms(2,3) by (simp add: legal_def)
  from proxy_inv_live [OF assms(1), of p] p obtain d where
    d: "map_of (m_ovDataSet s) p = Some d" "ov_ok d" by auto
  have len: "is_receive d \<Longrightarrow> length (cq_data c) = unat (cq_transferred c) \<and>
      unat (cq_transferred c) \<le> length (ov_buffer d)"
    using assms(2,3) d(1) by (simp add: legal_def)
  have t: "proxy_inv (insert p H) ?t"
    using assms(1) p by (auto simp: proxy_inv_def)
  have "ov_ok (?f d)" using d(2) len by (auto simp: ov_ok_def is_receive_def)
  then show "proxy_inv (insert p H) (deliver c s)"
    using t d(1) unfolding deliver_def assms(3) option.case by (intro ov_upd_inv) auto
  show "\<exists>d. map_of (m_ovDataSet (deliver c s)) p = Some d \<and>
           (is_receive d \<longrightarrow> unat (cq_transferred c) \<le> length (ov_buffer d)) \<and>
           (\<forall>e. map_of (m_ovDataSet s) p = Some e \<longrightarrow> ov_type d = ov_type e \<and> ov_id d = ov_id e)"
    using d(1) len by (auto simp: deliver_def assms(3) is_receive_def)
qed

lemma onComplete_ok:
  assumes "receiver_ok recv" "proxy_inv {p} s" "m_pProxyHandler s"
    and d: "map_of (m_ovDataSet s) p = Some d" "is_receive d \<longrightarrow> unat n \<le> length (ov_buffer d)"
  shows "\<exists>s'. onComplete E recv sk n (Some p) err s = Some s' \<and> proxy_inv {} s' \<and>
    m_pProxyHandler s' = m_pProxyHandler s \<and>
    ((ov_type d = OVT_CONNECT \<longrightarrow> (\<forall>pd. map_of (m_socketMap s) (ov_id d) = Some pd \<longrightarrow> proxyState pd = PS_NONE))
       \<longrightarrow> conn_evolves (if ov_type d = OVT_CONNECT then {ov_id d} else {}) s s')"
proof (cases "ov_type d = OVT_CONNECT")
  case True
  with onConnectComplete_ok [of p "{}" s d E sk n err] assms show ?thesis
    by (auto simp: onComplete_def)
next
  case False
  have "handled {} {} s (onComplete E recv sk n (Some p) err s)"
    using False onTcpReceiveComplete_ok [of p "{}" s d n "{}" E sk err]
      onUdpReceiveComplete_ok [of p "{}" s recv d n "{}" E sk err] handled_delete [of p "{}" s "{}" E] assms
    by (cases "ov_type d")
      (simp_all add: onComplete_def is_receive_def onTcpSendComplete_def onUdpSendComplete_def)
  with False show ?thesis by (auto simp: handled_def)
qed

definition proxy_running :: "'a udp_proxy_scheme \<Rightarrow> bool" where
  "proxy_running s \<longleftrightarrow> proxy_inv {} s \<and> m_pProxyHandler s"

lemma port_error_faults: "port_error c \<Longrightarrow> worker_body (onComplete E recv) c s = None"
  by (simp add: port_error_def worker_body_def onComplete_def)

lemma worker_body_defined: "worker_body (onComplete E recv) c s = Some t \<Longrightarrow> \<not> port_error c"
  by (cases "port_error c") (simp_all add: port_error_faults)

lemma timeout_noop:
  "legal s c \<Longrightarrow> cq_overlapped c = None \<Longrightarrow> worker_body (onComplete E recv) c (deliver c s) = Some t \<Longrightarrow> t = s"
  using worker_body_defined [of E recv c "deliver c s" t]
  by (auto simp: legal_def worker_body_def is_timeout_def deliver_def)

text \<open>A packet with an object, or a time-out: what a port that exists delivers.\<close>

lemma legal_port: "legal s c \<Longrightarrow> \<not> no_port s \<Longrightarrow> \<not> port_error c"
  by (auto simp: legal_def split: option.splits)

lemma worker_body_ok:
  assumes "receiver_ok recv" "proxy_running s" "legal s c" "\<not> port_error c"
  shows "\<exists>s'. worker_body (onComplete E recv) c (deliver c s) = Some s' \<and> proxy_running s' \<and>
    (connect_first s c \<longrightarrow> conn_evolves (connecting s c) s s')"
proof (cases "cq_overlapped c")
  case None
  then show ?thesis using assms
    by (simp add: legal_def worker_body_def is_timeout_def deliver_def proxy_running_def)
next
  case (Some p)
  from assms(2) have inv: "proxy_inv {} s" and h: "m_pProxyHandler (deliver c s)"
    by (simp_all add: proxy_running_def)
  from deliver_inv(2) [OF inv assms(3) Some] obtain d where d:
    "map_of (m_ovDataSet (deliver c s)) p = Some d"
    "is_receive d \<longrightarrow> unat (cq_transferred c) \<le> length (ov_buffer d)"
    "\<forall>e. map_of (m_ovDataSet s) p = Some e \<longrightarrow> ov_type d = ov_type e \<and> ov_id d = ov_id e" by blast
  have p: "p \<in> set (inflight s)" using assms(3) Some by (simp add: legal_def)
  from proxy_inv_live [OF inv, of p] p obtain e where e: "map_of (m_ovDataSet s) p = Some e" by auto
  have body: "worker_body (onComplete E recv) c (deliver c s) =
      onComplete E recv (cq_socket c) (cq_transferred c) (Some p) (if cq_ok c then 0 else cq_error c) (deliver c s)"
    using assms(3) Some by (auto simp: worker_body_def legal_def is_timeout_def)
  from onComplete_ok [OF assms(1) deliver_inv(1) [OF inv assms(3) Some] h d(1,2),
      of E "cq_socket c" "if cq_ok c then 0 else cq_error c"] obtain s' where
    s': "onComplete E recv (cq_socket c) (cq_transferred c) (Some p) (if cq_ok c then 0 else cq_error c)
       (deliver c s) = Some s'" "proxy_inv {} s'" "m_pProxyHandler s' = m_pProxyHandler (deliver c s)"
    "(ov_type d = OVT_CONNECT \<longrightarrow> (\<forall>pd. map_of (m_socketMap (deliver c s)) (ov_id d) = Some pd \<longrightarrow>
        proxyState pd = PS_NONE)) \<longrightarrow>
        conn_evolves (if ov_type d = OVT_CONNECT then {ov_id d} else {}) (deliver c s) s'" by blast
  have "(if ov_type d = OVT_CONNECT then {ov_id d} else {}) = connecting s c"
    using d(3) e Some by (auto simp: connecting_def)
  then have "conn_evolves (connecting s c) s s'" if "connect_first s c"
    using that s'(4) d(3) e Some unfolding connect_first_def by (auto simp: conn_evolves_def)
  with s' body h show ?thesis by (auto simp: proxy_running_def)
qed

text \<open>The proxy is a completion handler whatever well-behaved receiver it is given.\<close>

locale udp_receiver =
  fixes E :: env
    and recv :: "'a udp_proxy_scheme recv_fun"
  assumes receiver: "receiver_ok recv"
begin

lemma complete_running:
  "proxy_running s \<Longrightarrow> legal s c \<and> \<not> port_error c \<Longrightarrow>
   \<exists>s'. worker_body (onComplete E recv) c (deliver c s) = Some s' \<and> proxy_running s'"
  using worker_body_ok [OF receiver] by blast

end

sublocale udp_receiver \<subseteq> proxy: completion_handler proxy_running "\<lambda>s c. legal s c \<and> \<not> port_error c" deliver "onComplete E recv"
  by unfold_locales (rule complete_running)

end
