(* ===== verification/Udp_Proxy_Connects.thy ===== *)
theory Udp_Proxy_Connects
  imports Udp_Proxy_Inv
begin

text \<open>
  Outstanding connect requests. Only \<open>startConnect\<close> adds one, and a connect completion removes its
  own, so a connection identifier that is created once is connected once. This discharges the
  condition \<open>connect_first\<close> of \<open>Udp_Proxy_Inv\<close>.
\<close>

section \<open>Operations that add no connect request\<close>

definition connects :: "'a udp_proxy_scheme \<Rightarrow> (ovp \<times> u64) set" where
  "connects s = {(p, i). \<exists>d. map_of (m_ovDataSet s) p = Some d \<and> ov_type d = OVT_CONNECT \<and> ov_id d = i}"

definition within :: "(ovp \<times> u64) set \<Rightarrow> 'a udp_proxy_scheme \<Rightarrow> bool" where
  "within C s \<longleftrightarrow> connects s \<subseteq> C"

named_theorems within_intros \<open>operations that add no connect request\<close>

lemma within_emit [simp]:
  "within C (emit E c s) = within C s" "within C (pd_upd cid f s) = within C s"
  "within C (set_state cid st s) = within C s" "within C (deleteProxyConnection E cid s) = within C s"
  "within C (snd (submit E ok c p s)) = within C s" "within C (snd (postCompletion E sk n p s)) = within C s"
  by (simp_all add: within_def connects_def)

lemma within_delete [within_intros]: "within C s \<Longrightarrow> within C (deleteOV_DATA E p s)"
  by (auto simp: within_def connects_def split: if_splits)

lemma within_post_or_delete [within_intros]: "within C s \<Longrightarrow> within C (post_or_delete E sk p s)"
  by (simp add: post_or_delete_def split_def Let_def within_delete)

lemma within_new:
  assumes "\<And>d. ov_type (f d) \<noteq> OVT_CONNECT" "within C s"
  shows "within C (ov_upd (next_ov s) f (snd (newOV_DATA E s)))"
  using assms by (fastforce simp: within_def connects_def split: if_splits)

lemma within_upd:
  assumes "\<And>d. ov_type (f d) = OVT_CONNECT \<Longrightarrow> ov_type d = OVT_CONNECT \<and> ov_id (f d) = ov_id d"
    and "within C s"
  shows "within C (ov_upd p f s)"
  using assms by (fastforce simp: within_def connects_def split: if_splits)

lemma within_startTcpSend [within_intros]:
  assumes "within C s"
  shows "within C (snd (startTcpSend E sk b cid s))"
proof -
  have "within C (ov_upd (next_ov s) (\<lambda>d. d\<lparr>ov_id := cid, ov_type := OVT_TCP_SEND\<rparr>) (snd (newOV_DATA E s)))"
    by (rule within_new) (simp_all add: assms)
  then show ?thesis
    unfolding startTcpSend_def split_def Let_def
    by (auto intro!: within_post_or_delete within_upd)
qed

lemma within_startTcpReceive:
  assumes "startTcpReceive E sk cid pov s = Some (r, s')" "within C s"
  shows "within C s'"
proof -
  have "within C (ov_upd (next_ov s) (\<lambda>d. d\<lparr>ov_type := OVT_TCP_RECEIVE, ov_id := cid,
       ov_buffer := replicate PACKET_SIZE 0\<rparr>) (snd (newOV_DATA E s)))"
    by (rule within_new) (simp_all add: assms)
  with assms show ?thesis
    by (cases pov) (auto simp: startTcpReceive_def split_def Let_def bind_eq_Some_conv within_post_or_delete
      split: if_splits)
qed

lemma within_startUdpReceive:
  assumes "startUdpReceive E sk cid pov s = Some (r, s')" "within C s"
  shows "within C s'"
proof -
  have "within C (ov_upd (next_ov s) (\<lambda>d. d\<lparr>ov_type := OVT_UDP_RECEIVE, ov_id := cid,
       ov_buffer := replicate PACKET_SIZE 0\<rparr>) (snd (newOV_DATA E s)))"
    by (rule within_new) (simp_all add: assms)
  moreover have "within C t \<Longrightarrow> within C (ov_upd p (\<lambda>d. d\<lparr>ov_remoteAddressLen := n\<rparr>) t)" for p n and t :: "'a udp_proxy_scheme"
    by (rule within_upd) simp_all
  ultimately show ?thesis using assms
    by (cases pov) (auto simp: startUdpReceive_def split_def Let_def bind_eq_Some_conv within_post_or_delete
      split: if_splits)
qed

lemma within_udpSend_connected:
  assumes "udpSend_connected E cid pd buf len ra s = Some (r, s')" "within C s"
  shows "within C s'"
proof -
  have "within C (ov_upd (next_ov s) (\<lambda>d. d\<lparr>ov_type := OVT_UDP_SEND, ov_id := cid\<rparr>) (snd (newOV_DATA E s)))"
    by (rule within_new) (simp_all add: assms)
  moreover have "within C t \<Longrightarrow> within C (ov_upd p (\<lambda>d. d\<lparr>ov_buffer := b\<rparr>) t)"
    "within C t \<Longrightarrow> within C (ov_upd p (\<lambda>d. d\<lparr>ov_type := OVT_UDP_RECEIVE, ov_buffer := b\<rparr>) t)" for p b and t :: "'a udp_proxy_scheme"
    by (rule within_upd, simp_all)+
  ultimately show ?thesis using assms
    by (auto simp: udpSend_connected_def split_def Let_def bind_eq_Some_conv within_post_or_delete
      split: if_splits dest!: within_startUdpReceive)
qed

lemma within_udpSend:
  "udpSend E cid buf len ra ralen s = Some (r, s') \<Longrightarrow> within C s \<Longrightarrow> within C s'"
  by (auto simp: udpSend_def split_def Let_def bind_eq_Some_conv
      split: if_splits option.splits dest!: within_udpSend_connected)

lemma within_flush: "flush_packets E cid s = Some s' \<Longrightarrow> within C s \<longrightarrow> within C s'"
  by (induction rule: flush_packets_induct) (auto dest: within_udpSend)

lemma within_send_and_advance [within_intros]:
  "within C s \<Longrightarrow> within C (send_and_advance E cid pd msg st s)"
  by (simp add: send_and_advance_def split_def Let_def within_startTcpSend)

lemma within_tcp_reply:
  "tcp_reply E cid pd n buf s = Some s' \<Longrightarrow> within C s \<Longrightarrow> within C s'"
  by (auto simp: tcp_reply_def reply_auth_def reply_auth_negotiation_def reply_udp_assoc_def Let_def
      bind_eq_Some_conv within_send_and_advance
      split: PROXY_STATE.splits if_splits option.splits dest!: within_flush)

section \<open>Completions\<close>

lemma within_onTcpReceiveComplete:
  "onTcpReceiveComplete E sk n p err s = Some s' \<Longrightarrow> within C s \<Longrightarrow> within C s'"
  by (auto simp: onTcpReceiveComplete_def Let_def bind_eq_Some_conv within_delete
      split: if_splits option.splits dest!: within_startTcpReceive within_tcp_reply)

lemma within_receiver:
  "receiver_ok recv \<Longrightarrow> recv cid buf len a alen s = Some s' \<Longrightarrow> within C s \<Longrightarrow> within C s'"
proof -
  assume "receiver_ok recv" and r: "recv cid buf len a alen s = Some s'" and w: "within C s"
  from this(1) have "\<exists>t. recv cid buf len a alen s = Some t \<and> proxy_data t = proxy_data s"
    by (simp add: receiver_ok_def)
  with r have "m_ovDataSet s' = m_ovDataSet s" by (auto simp: proxy_data_def)
  with w show ?thesis by (simp add: within_def connects_def)
qed

lemma within_onUdpReceiveComplete:
  assumes "receiver_ok recv" "onUdpReceiveComplete E recv sk n p err s = Some s'" "within C s"
  shows "within C s'"
  using assms(2,3)
  by (auto simp: onUdpReceiveComplete_def Let_def bind_eq_Some_conv within_delete
      split: if_splits dest!: within_startUdpReceive within_receiver [OF assms(1)])

lemma within_onConnectComplete:
  assumes "onConnectComplete E sk n p err s = Some s'" "within C s"
  shows "within {x \<in> C. fst x \<noteq> p} s'"
proof -
  have del: "within {x \<in> C. fst x \<noteq> p} (deleteOV_DATA E p t)" if "within C t" for t :: "'a udp_proxy_scheme"
    using that by (auto simp: within_def connects_def split: if_splits)
  show ?thesis using assms
    by (auto simp: onConnectComplete_def Let_def bind_eq_Some_conv within_send_and_advance intro!: del
        split: if_splits option.splits dest!: within_startTcpReceive)
qed

lemma connects_upd_same:
  assumes "\<And>d. ov_type (f d) = ov_type d \<and> ov_id (f d) = ov_id d"
  shows "connects (ov_upd p f s) = connects s"
proof -
  have "ov_type (f d) = ov_type d" "ov_id (f d) = ov_id d" for d using assms by auto
  then show ?thesis by (auto simp: connects_def split: if_splits)
qed

lemma connects_deliver: "connects (deliver c s) = connects s"
proof (cases "cq_overlapped c")
  case (Some p)
  have "connects (s\<lparr>inflight := remove1 p (inflight s)\<rparr>) = connects s" by (simp add: connects_def)
  then show ?thesis unfolding deliver_def Some option.case
    by (subst connects_upd_same) simp_all
qed (simp add: deliver_def)

lemma within_worker_body:
  assumes "receiver_ok recv" "legal s c" "worker_body (onComplete E recv) c (deliver c s) = Some s'"
  shows "within {x \<in> connects s. snd x \<notin> connecting s c \<or> Some (fst x) \<noteq> cq_overlapped c} s'"
proof (cases "cq_overlapped c")
  case None
  from timeout_noop [OF assms(2) this assms(3)] have "s' = s" .
  with None show ?thesis by (simp add: within_def)
next
  case (Some p)
  have run: "onComplete E recv (cq_socket c) (cq_transferred c) (Some p) (if cq_ok c then 0 else cq_error c)
      (deliver c s) = Some s'"
    using assms(2,3) Some by (auto simp: worker_body_def legal_def is_timeout_def split: if_splits)
  have base: "within (connects s) (deliver c s)" by (simp add: within_def connects_deliver)
  from run obtain d where d: "map_of (m_ovDataSet (deliver c s)) p = Some d"
    by (auto simp: onComplete_def bind_eq_Some_conv)
  show ?thesis
  proof (cases "ov_type d = OVT_CONNECT")
    case True
    with run d have "onConnectComplete E (cq_socket c) (cq_transferred c) p
        (if cq_ok c then 0 else cq_error c) (deliver c s) = Some s'"
      by (simp add: onComplete_def)
    from within_onConnectComplete [OF this base] show ?thesis
      by (auto simp: within_def Some)
  next
    case False
    have "within (connects s) s'"
      using run d False base
      by (cases "ov_type d") (auto simp: onComplete_def onTcpSendComplete_def onUdpSendComplete_def
          intro: within_delete within_onTcpReceiveComplete within_onUdpReceiveComplete [OF assms(1)])
    moreover have "(p, i) \<notin> connects s" for i
      unfolding connects_deliver [of c s, symmetric] using False d by (simp add: connects_def)
    ultimately show ?thesis by (auto simp: within_def Some)
  qed
qed

lemma connecting_connects: "i \<in> connecting s c \<longleftrightarrow> (\<exists>p. cq_overlapped c = Some p \<and> (p, i) \<in> connects s)"
  by (auto simp: connecting_def connects_def)

lemma within_startConnect:
  "within (insert (next_ov s, cid) (connects s)) (snd (startConnect E sk a cid s))"
  by (auto simp: within_def connects_def startConnect_def split_def Let_def split: if_splits)

section \<open>One connect per connection\<close>

definition connects_once :: "'a udp_proxy_scheme \<Rightarrow> bool" where
  "connects_once s \<longleftrightarrow> inj_on snd (connects s) \<and>
     (\<forall>p i pd. (p, i) \<in> connects s \<longrightarrow> map_of (m_socketMap s) i = Some pd \<longrightarrow> proxyState pd = PS_NONE) \<and>
     (\<forall>i pd. map_of (m_socketMap s) i = Some pd \<longrightarrow> pd_settled pd)"

lemma connects_once_first: "connects_once s \<Longrightarrow> connect_first s c"
  by (auto simp: connects_once_def connect_first_def connects_def)

lemma connects_once_mono:
  assumes "connects_once s" "within C s'" "C \<subseteq> connects s" "conn_evolves B s s'"
    and "\<And>p i. (p, i) \<in> C \<Longrightarrow> i \<notin> B"
  shows "connects_once s'"
proof -
  have sub: "connects s' \<subseteq> connects s" using assms(2,3) by (auto simp: within_def)
  then have "inj_on snd (connects s')" using assms(1) by (auto simp: connects_once_def inj_on_subset)
  moreover have "proxyState pd' = PS_NONE" if "(p, i) \<in> connects s'" "map_of (m_socketMap s') i = Some pd'" for p i pd'
  proof -
    from assms(4) that(2) obtain pd where pd: "map_of (m_socketMap s) i = Some pd"
      "proxyState pd = PS_NONE \<longrightarrow> i \<notin> B \<longrightarrow> proxyState pd' = PS_NONE"
      unfolding conn_evolves_def by blast
    moreover have "(p, i) \<in> connects s" "i \<notin> B" using that(1) sub assms(2,5) by (auto simp: within_def)
    ultimately show ?thesis using assms(1) by (auto simp: connects_once_def)
  qed
  moreover have "pd_settled pd'" if "map_of (m_socketMap s') i = Some pd'" for i pd'
    using assms(1,4) that unfolding conn_evolves_def connects_once_def by blast
  ultimately show ?thesis by (auto simp: connects_once_def)
qed

lemma send_effect_evolves:
  assumes "send_effect cid s s'"
  shows "conn_evolves {} s s'"
proof (cases "map_of (m_socketMap s) cid")
  case None
  with assms show ?thesis by (simp add: send_effect_def conn_evolves_def)
next
  case (Some pd)
  with assms obtain pd' where pd': "map_of (m_socketMap s') = (map_of (m_socketMap s))(cid \<mapsto> pd')"
    "if proxyState pd = PS_CONNECTED then pd' \<in> {pd, pd\<lparr>udpRecvStarted := True\<rparr>}
          else \<exists>q. pd' = pd\<lparr>udpSendPackets := udpSendPackets pd @ q\<rparr>"
    by (auto simp: send_effect_def)
  show ?thesis
    by (rule conn_evolves_upd [OF pd'(1) Some])
      (use pd'(2) in \<open>auto simp: pd_step_def pd_settled_def split: if_splits\<close>)
qed

lemma connects_once_complete:
  assumes "receiver_ok recv" "proxy_running s" "connects_once s" "legal s c"
    and "worker_body (onComplete E recv) c (deliver c s) = Some s'"
  shows "connects_once s'"
proof (rule connects_once_mono [OF assms(3) within_worker_body [OF assms(1,4,5)]])
  show "conn_evolves (connecting s c) s s'"
    using worker_body_ok [OF assms(1,2,4) worker_body_defined [OF assms(5)], of E] assms(5) connects_once_first [OF assms(3)] by auto
  show "i \<notin> connecting s c" if "(p, i) \<in> {x \<in> connects s. snd x \<notin> connecting s c \<or> Some (fst x) \<noteq> cq_overlapped c}" for p i
    using that assms(3) unfolding connecting_connects connects_once_def inj_on_def by fastforce
qed auto

lemma connects_once_send:
  assumes "proxy_running s" "connects_once s" "send_args_ok buf len ra ralen"
    and "udpSend E cid buf len ra ralen s = Some (r, s')"
  shows "connects_once s'"
proof (rule connects_once_mono [OF assms(2)])
  show "within (connects s) s'" by (rule within_udpSend [OF assms(4)]) (simp add: within_def)
  have "proxy_inv {} s" using assms(1) by (simp add: proxy_running_def)
  then show "conn_evolves {} s s'"
    using udpSend_ok [of "{}" s buf len ra ralen cid E] udpSend_sendable [OF assms(4)] assms(3,4) send_effect_evolves by auto
qed auto

lemma connects_once_delete:
  assumes "connects_once s" shows "connects_once (deleteProxyConnection E cid s)"
proof -
  have "connects (deleteProxyConnection E cid s) = connects s" by (simp add: connects_def)
  with assms show ?thesis by (auto simp: connects_once_def split: if_splits)
qed

end
