(* ===== verification/Udp_Proxy_Safety.thy ===== *)
theory Udp_Proxy_Safety
  imports Udp_Proxy_Connects "HOL-Library.Multiset"
begin

text \<open>
  The running proxy as a state machine: completions dequeued by the worker thread, datagrams from
  the driver's thread, creation and deletion of connections, in any order (each operation is one
  step). The invariant of \<open>Udp_Proxy_Inv\<close> holds in every reachable state, and with it the safety
  properties of the proxy.
\<close>

section \<open>Creating connections, starting and stopping\<close>

lemma delete_PROXY_DATA_data [simp]: "proxy_data (delete_PROXY_DATA E pd s) = proxy_data s"
  by (simp add: delete_PROXY_DATA_def Let_def)

lemma sys_data [simp]: "proxy_data (snd (sys E c s)) = proxy_data s"
  by (simp add: proxy_data_def sys_snd)

lemma sys_fields [simp]:
  "m_socketMap (snd (sys E c s)) = m_socketMap s" "m_userName (snd (sys E c s)) = m_userName s"
  "m_userPassword (snd (sys E c s)) = m_userPassword s" "m_pProxyHandler (snd (sys E c s)) = m_pProxyHandler s"
  by (simp_all add: sys_snd)

lemma registerSocket_data [simp]: "proxy_data (snd (registerSocket E sk s)) = proxy_data s"
  by (simp add: registerSocket_def sys_def Let_def proxy_data_def)

lemma proxy_inv_sys [simp]:
  "proxy_inv H (snd (sys E c s)) = proxy_inv H s" "proxy_inv H (snd (registerSocket E sk s)) = proxy_inv H s"
  by (rule proxy_inv_data, simp)+

lemma registerSocket_fields [simp]:
  "m_socketMap (snd (registerSocket E sk s)) = m_socketMap s"
  "m_pProxyHandler (snd (registerSocket E sk s)) = m_pProxyHandler s"
  by (simp_all add: registerSocket_def sys_def Let_def)

text \<open>The connection object \<open>createProxyConnection\<close> puts into the map.\<close>

definition fresh_connection :: "env \<Rightarrow> 'a udp_proxy_scheme \<Rightarrow> PROXY_DATA" where
  "fresh_connection E s =
     (let (tcp, t) = sys E (Net (WSASocket SOCK_STREAM)) s;
          (udp, t) = sys E (Net (WSASocket SOCK_DGRAM)) t
      in new_PROXY_DATA\<lparr>tcpSocket := tcp, udpSocket := udp, userName := m_userName s,
           userPassword := m_userPassword s\<rparr>)"

lemma fresh_connection_fields [simp]:
  "proxyState (fresh_connection E s) = PS_NONE" "udpSendPackets (fresh_connection E s) = []"
  "udpRecvStarted (fresh_connection E s) = False"
  "userName (fresh_connection E s) = m_userName s" "userPassword (fresh_connection E s) = m_userPassword s"
  by (simp_all add: fresh_connection_def new_PROXY_DATA_def split_def Let_def)

lemma fresh_connection_ok: "pd_ok (fresh_connection E s)" "pd_settled (fresh_connection E s)"
  by (simp_all add: pd_ok_def pd_settled_def fresh_connection_def new_PROXY_DATA_def split_def Let_def)

text \<open>The three steps after the sockets exist: register both, connect.\<close>

definition connection_start :: "env \<Rightarrow> u64 \<Rightarrow> sock \<Rightarrow> sock \<Rightarrow> 'a udp_proxy_scheme \<Rightarrow> bool \<times> 'a udp_proxy_scheme" where
  "connection_start E cid tcp udp s =
     (let (r1, s) = registerSocket E tcp s;
          (r2, s) = (if r1 then registerSocket E udp s else (False, s))
      in if r2 then startConnect E tcp (take (nat (m_proxyAddressLen s)) (m_proxyAddress s)) cid s
         else (False, s))"

lemma connection_start_inv:
  assumes "proxy_inv H s"
  shows "proxy_inv H (snd (connection_start E cid tcp udp s))"
    and "m_socketMap (snd (connection_start E cid tcp udp s)) = m_socketMap s"
    and "m_pProxyHandler (snd (connection_start E cid tcp udp s)) = m_pProxyHandler s"
  using assms by (simp_all add: connection_start_def split_def Let_def startConnect_inv)

lemma createProxyConnection_cases:
  fixes E s cid
  defines "t1 \<equiv> snd (sys E (Net (WSASocket SOCK_STREAM)) s)"
  defines "tcp \<equiv> fst (sys E (Net (WSASocket SOCK_STREAM)) s)"
  defines "t2 \<equiv> snd (sys E (Net (WSASocket SOCK_DGRAM)) t1)"
  defines "udp \<equiv> fst (sys E (Net (WSASocket SOCK_DGRAM)) t1)"
  defines "t3 \<equiv> leave_cs E ((enter_cs E t2)\<lparr>m_socketMap := m_insert cid (fresh_connection E s) (m_socketMap s)\<rparr>)"
  defines "t4 \<equiv> connection_start E cid tcp udp t3"
  shows "createProxyConnection E cid s =
     (if tcp = INVALID_SOCKET then (False, t1)
      else if udp = INVALID_SOCKET then (False, emit E (Net (Closesocket tcp)) t2)
      else if fst t4 then (True, snd t4) else (False, deleteProxyConnection E cid (snd t4)))"
  unfolding createProxyConnection_def t1_def tcp_def t2_def udp_def t3_def t4_def
    connection_start_def fresh_connection_def split_def Let_def
  by (simp split: if_split)

lemma createProxyConnection_ok:
  assumes "proxy_inv H s"
  shows "proxy_inv H (snd (createProxyConnection E cid s))"
    and "m_pProxyHandler (snd (createProxyConnection E cid s)) = m_pProxyHandler s"
    and "fst (createProxyConnection E cid s) \<Longrightarrow>
      map_of (m_socketMap (snd (createProxyConnection E cid s))) =
      (map_of (m_socketMap s))(cid \<mapsto> fresh_connection E s)"
    and "\<not> fst (createProxyConnection E cid s) \<Longrightarrow>
      map_of (m_socketMap (snd (createProxyConnection E cid s))) \<subseteq>\<^sub>m map_of (m_socketMap s)"
proof -
  let ?t2 = "snd (sys E (Net (WSASocket SOCK_DGRAM)) (snd (sys E (Net (WSASocket SOCK_STREAM)) s)))"
  let ?t3 = "leave_cs E ((enter_cs E ?t2)\<lparr>m_socketMap := m_insert cid (fresh_connection E s) (m_socketMap s)\<rparr>)"
  have "\<forall>x \<in> ran ((map_of (m_socketMap s))(cid \<mapsto> fresh_connection E s)). pd_ok x"
    using assms fresh_connection_ok by (intro ran_upd_ok) (auto simp: proxy_inv_def)
  moreover have "proxy_inv H (enter_cs E ?t2)" using assms by simp
  ultimately have t3: "proxy_inv H ?t3" by (simp add: proxy_inv_def m_sorted_insert)
  note t4 = connection_start_inv [OF t3]
  show "proxy_inv H (snd (createProxyConnection E cid s))"
    unfolding createProxyConnection_cases using assms t4 by (simp add: deleteProxyConnection_inv)
  show "m_pProxyHandler (snd (createProxyConnection E cid s)) = m_pProxyHandler s"
    unfolding createProxyConnection_cases by (simp add: t4(3))
  show "fst (createProxyConnection E cid s) \<Longrightarrow>
      map_of (m_socketMap (snd (createProxyConnection E cid s))) =
      (map_of (m_socketMap s))(cid \<mapsto> fresh_connection E s)"
    unfolding createProxyConnection_cases by (auto simp: t4(2) split: if_splits)
  show "\<not> fst (createProxyConnection E cid s) \<Longrightarrow>
      map_of (m_socketMap (snd (createProxyConnection E cid s))) \<subseteq>\<^sub>m map_of (m_socketMap s)"
    unfolding createProxyConnection_cases by (auto simp: t4(2) map_le_def split: if_splits)
qed

lemma initExtensions_data [simp]:
  "m_ovDataSet (snd (initExtensions E s)) = m_ovDataSet s"
  "m_socketMap (snd (initExtensions E s)) = m_socketMap s"
  "inflight (snd (initExtensions E s)) = inflight s"
  "m_proxyAddress (snd (initExtensions E s)) = m_proxyAddress s"
  by (simp_all add: initExtensions_def sys_def emit_eq Let_def)

lemma IOCPService_init_data [simp]:
  "m_ovDataSet (snd (IOCPService_init E s)) = m_ovDataSet s"
  "m_socketMap (snd (IOCPService_init E s)) = m_socketMap s"
  "inflight (snd (IOCPService_init E s)) = inflight s"
  "m_proxyAddress (snd (IOCPService_init E s)) = m_proxyAddress s"
  by (simp_all add: IOCPService_init_def sys_def emit_eq Attach_def Let_def)

text \<open>The sockets a run has opened (every call that returned one) and closed, in order.\<close>

definition opened_sockets :: "trace \<Rightarrow> sock list" where
  "opened_sockets tr = List.map_filter (\<lambda>(c, r). case c of
     Net (Socket _) \<Rightarrow> if r \<noteq> INVALID_SOCKET then Some r else None
   | Net (WSASocket _) \<Rightarrow> if r \<noteq> INVALID_SOCKET then Some r else None
   | _ \<Rightarrow> None) tr"

definition closed_sockets :: "trace \<Rightarrow> sock list" where
  "closed_sockets tr = List.map_filter (\<lambda>(c, r). case c of
     Net (Closesocket sk) \<Rightarrow> Some sk | _ \<Rightarrow> None) tr"

definition proxy_idle :: "'a udp_proxy_scheme \<Rightarrow> bool" where
  "proxy_idle s \<longleftrightarrow> m_ovDataSet s = [] \<and> m_socketMap s = [] \<and> inflight s = [] \<and>
     length (m_proxyAddress s) = NF_MAX_ADDRESS_LENGTH \<and>
     mset (opened_sockets (trace s)) = mset (closed_sockets (trace s))"

lemma UDPProxy_init_ok:
  assumes "proxy_idle s" "0 \<le> n" "n \<le> int NF_MAX_ADDRESS_LENGTH" "n \<le> int (length a)"
  shows "\<exists>r s'. UDPProxy_init E a n user pass s = Some (r, s') \<and> (r \<longrightarrow> proxy_running s' \<and>
    m_socketMap s' = [] \<and> inflight s' = [] \<and> take (nat n) (m_proxyAddress s') = take (nat n) a \<and>
    m_userName s' = user \<and> m_userPassword s' = pass)"
proof -
  let ?t = "snd (IOCPService_init E (snd (initExtensions E s)))"
  have len: "length (m_proxyAddress ?t) = NF_MAX_ADDRESS_LENGTH" using assms(1) by (simp add: proxy_idle_def)
  then have "wrn 0 (take (nat n) a) (m_proxyAddress ?t) \<noteq> None"
    using assms by (simp add: wrn_def len nat_le_iff min_le_iff_disj)
  then obtain pa where pa: "wrn 0 (take (nat n) a) (m_proxyAddress ?t) = Some pa" by blast
  then have "length pa = NF_MAX_ADDRESS_LENGTH" "take (nat n) pa = take (nat n) a"
    using len assms by (auto simp: wrn_def split: if_splits)
  with pa assms show ?thesis
    by (auto simp: UDPProxy_init_def split_def Let_def memcpy_from_total proxy_running_def
        proxy_inv_def proxy_idle_def m_sorted_def)
qed

lemma delete_PROXY_DATA_map [simp]:
  "m_socketMap (delete_PROXY_DATA E pd s) = m_socketMap s"
  "m_ovDataSet (delete_PROXY_DATA E pd s) = m_ovDataSet s"
  "inflight (delete_PROXY_DATA E pd s) = inflight s"
  by (simp_all add: delete_PROXY_DATA_def Let_def)

lemma free_connections_data [simp]:
  "m_ovDataSet (free_connections E m s) = m_ovDataSet s"
  "inflight (free_connections E m s) = inflight s"
  "m_socketMap s = m \<Longrightarrow> m_socketMap (free_connections E m s) = []"
  by (induction E m s rule: free_connections.induct) simp_all

section \<open>The running proxy\<close>

text \<open>
  The driver numbers its UDP endpoints and does not reuse the number of a live one: a connection is
  created for a number that no connection and no outstanding connect request has.
\<close>

definition unused_id :: "u64 \<Rightarrow> 'a udp_proxy_scheme \<Rightarrow> bool" where
  "unused_id cid s \<longleftrightarrow> map_of (m_socketMap s) cid = None \<and> cid \<notin> snd ` connects s"

inductive proxy_step :: "env \<Rightarrow> 'a udp_proxy_scheme recv_fun \<Rightarrow> 'a udp_proxy_scheme \<Rightarrow>
    'a udp_proxy_scheme \<Rightarrow> bool" for E recv where
  step_complete: "legal s c \<Longrightarrow> worker_body (onComplete E recv) c (deliver c s) = Some s' \<Longrightarrow>
    proxy_step E recv s s'"
| step_send: "send_args_ok buf len ra ralen \<Longrightarrow> udpSend E cid buf len ra ralen s = Some (r, s') \<Longrightarrow>
    proxy_step E recv s s'"
| step_create: "unused_id cid s \<Longrightarrow> proxy_step E recv s (snd (createProxyConnection E cid s))"
| step_delete: "proxy_step E recv s (deleteProxyConnection E cid s)"

inductive proxy_reach :: "env \<Rightarrow> 'a udp_proxy_scheme recv_fun \<Rightarrow> 'a udp_proxy_scheme \<Rightarrow> bool" for E recv where
  reach_init: "proxy_idle s \<Longrightarrow> 0 \<le> n \<Longrightarrow> n \<le> int NF_MAX_ADDRESS_LENGTH \<Longrightarrow> n \<le> int (length a) \<Longrightarrow>
    UDPProxy_init E a n user pass s = Some (True, s') \<Longrightarrow> proxy_reach E recv s'"
| reach_step: "proxy_reach E recv s \<Longrightarrow> proxy_step E recv s s' \<Longrightarrow> proxy_reach E recv s'"

inductive_cases proxy_stepE: "proxy_step E recv s s'"

lemma proxy_step_running:
  assumes "receiver_ok recv" "proxy_step E recv s s'" "proxy_running s"
  shows "proxy_running s'"
  using assms(2)
proof cases
  case (step_complete c)
  with worker_body_ok [OF assms(1,3) step_complete(1) worker_body_defined [OF step_complete(2)], of E] show ?thesis by auto
next
  case (step_send buf len ra ralen cid r)
  have "proxy_inv {} s" using assms(3) by (simp add: proxy_running_def)
  from udpSend_ok [OF this step_send(1) udpSend_sendable [OF step_send(2)], of E] step_send(2) assms(3) show ?thesis
    by (auto simp: proxy_running_def)
next
  case (step_create cid)
  with assms(3) createProxyConnection_ok(1,2) [of "{}" s E cid] show ?thesis
    by (simp add: proxy_running_def)
next
  case (step_delete cid)
  with assms(3) deleteProxyConnection_inv [of "{}" s E cid] show ?thesis
    by (simp add: proxy_running_def)
qed

lemma connection_start_connects:
  "\<exists>p. within (insert (p, cid) (connects s)) (snd (connection_start E cid tcp udp s))"
proof -
  have reg: "connects (snd (registerSocket E sk t)) = connects t"
    "within C (snd (registerSocket E sk t)) = within C t" for C sk and t :: "'a udp_proxy_scheme"
    using registerSocket_data [of E sk t] by (simp_all add: connects_def within_def proxy_data_def)
  let ?t = "snd (registerSocket E udp (snd (registerSocket E tcp s)))"
  have "connects ?t = connects s" "within (insert (next_ov ?t, cid) (connects s)) s"
    by (simp_all add: reg within_def subset_insertI)
  with within_startConnect [of ?t cid E tcp] reg show ?thesis
    by (intro exI [of _ "next_ov ?t"]) (simp add: connection_start_def split_def Let_def)
qed

lemma connects_once_create:
  assumes "proxy_inv H s" "connects_once s" "unused_id cid s"
  shows "connects_once (snd (createProxyConnection E cid s))"
proof -
  let ?s' = "snd (createProxyConnection E cid s)"
  have "\<exists>p. within (insert (p, cid) (connects s)) ?s'"
  proof -
    let ?t1 = "snd (sys E (Net (WSASocket SOCK_STREAM)) s)"
    let ?t2 = "snd (sys E (Net (WSASocket SOCK_DGRAM)) ?t1)"
    let ?t3 = "leave_cs E ((enter_cs E ?t2)\<lparr>m_socketMap := m_insert cid (fresh_connection E s) (m_socketMap s)\<rparr>)"
    have "connects ?t3 = connects s" "connects ?t2 = connects s" "connects ?t1 = connects s"
      by (simp_all add: connects_def sys_snd)
    then have w: "within (insert (p, cid) (connects s)) ?t2" "within (insert (p, cid) (connects s)) ?t1" for p
      by (simp_all add: within_def subset_insertI)
    obtain p where "within (insert (p, cid) (connects ?t3)) (snd (connection_start E cid
        (fst (sys E (Net (WSASocket SOCK_STREAM)) s)) (fst (sys E (Net (WSASocket SOCK_DGRAM)) ?t1)) ?t3))"
      using connection_start_connects by blast
    with w \<open>connects ?t3 = connects s\<close> show ?thesis
      unfolding createProxyConnection_cases by (intro exI [of _ p]) simp
  qed
  then obtain p where w: "connects ?s' \<subseteq> insert (p, cid) (connects s)" by (auto simp: within_def)
  have new: "map_of (m_socketMap s) cid = None" "\<And>q. (q, cid) \<notin> connects s"
    using assms(3) by (force simp: unused_id_def)+
  have find: "map_of (m_socketMap ?s') i = Some pd \<Longrightarrow>
      if i = cid then pd = fresh_connection E s else map_of (m_socketMap s) i = Some pd" for i pd
    using createProxyConnection_ok(3,4) [OF assms(1), of E cid] new(1)
    by (cases "fst (createProxyConnection E cid s)") (auto simp: map_le_def dom_def split: if_splits)
  show ?thesis
    unfolding connects_once_def
  proof (intro conjI allI impI)
    show "inj_on snd (connects ?s')"
    proof (rule inj_on_subset [OF _ w])
      have "inj_on snd (connects s)" using assms(2) by (simp add: connects_once_def)
      moreover have "cid \<notin> snd ` connects s" using new(2) by force
      ultimately show "inj_on snd (insert (p, cid) (connects s))" by auto
    qed
    show "proxyState pd = PS_NONE" if "(q, i) \<in> connects ?s'" "map_of (m_socketMap ?s') i = Some pd" for q i pd
    proof (cases "i = cid")
      case False
      then have "(q, i) \<in> connects s" using w that(1) by auto
      with False find [OF that(2)] assms(2) show ?thesis by (auto simp: connects_once_def)
    qed (use find [OF that(2)] in simp)
    show "pd_settled pd" if "map_of (m_socketMap ?s') i = Some pd" for i pd
      using find [OF that] assms(2) fresh_connection_ok unfolding connects_once_def by (auto split: if_splits)
  qed
qed

lemma proxy_step_once:
  assumes "receiver_ok recv" "proxy_step E recv s s'" "proxy_running s" "connects_once s"
  shows "connects_once s'"
  using assms(2)
proof cases
  case (step_create cid)
  have "proxy_inv {} s" using assms(3) by (simp add: proxy_running_def)
  from connects_once_create [OF this assms(4) step_create(2)] show ?thesis
    by (simp add: step_create(1))
qed (use assms connects_once_complete connects_once_send connects_once_delete in blast)+

lemma proxy_reach_inv:
  assumes "receiver_ok recv" "proxy_reach E recv s"
  shows "proxy_running s" "connects_once s"
  using assms(2)
proof induction
  case (reach_init s n a user pass s')
  from UDPProxy_init_ok [OF reach_init(1-4), of E user pass] reach_init(5)
  have s': "proxy_running s'" "m_socketMap s' = []" "inflight s' = []" by auto
  show "proxy_running s'" by (fact s')
  have "dom (map_of (m_ovDataSet s')) = set (inflight s')" using s' by (simp add: proxy_running_def proxy_inv_def)
  then show "connects_once s'" using s' by (auto simp: connects_once_def connects_def)
qed (use assms(1) proxy_step_running proxy_step_once in blast)+

section \<open>A concrete run\<close>

text \<open>
  For closed examples: a platform on which every call succeeds, a receiver that ignores its
  datagrams, a proxy at 127.0.0.1:1080, one connection whose connect request is pending.
\<close>

definition example_env :: env where
  "example_env = call_env (\<lambda>c. case c of
       Net (WSASend _ _ _) \<Rightarrow> 0 | Net (WSASendTo _ _ _ _) \<Rightarrow> 0 | Net (WSARecv _ _) \<Rightarrow> 0
     | Net (WSARecvFrom _ _) \<Rightarrow> 0 | Net (WSASocket SOCK_STREAM) \<Rightarrow> 3 | Net (WSASocket SOCK_DGRAM) \<Rightarrow> 4
     | _ \<Rightarrow> 1)"

definition ignore_datagram :: "udp_proxy recv_fun" where
  "ignore_datagram cid buf len a alen s = Some s"

definition example_address :: bytes where
  "example_address = mk_sockaddr_in 0x3804 0x100007f"

definition example_idle :: udp_proxy where
  "example_idle = \<lparr>trace = [], inflight = [], m_h = \<lambda>_. INVALID_HANDLE_VALUE,
     m_hIOCP = INVALID_HANDLE_VALUE, m_pHandler = False, m_ovDataSet = [], next_ov = 0,
     m_socketMap = [], m_pConnectEx = 0, m_proxyAddress = replicate NF_MAX_ADDRESS_LENGTH 0,
     m_proxyAddressLen = 0, m_userName = [], m_userPassword = [], m_pProxyHandler = False\<rparr>"

definition example_running :: udp_proxy where
  "example_running = (case UDPProxy_init example_env example_address 16 [] [] example_idle of
     Some (_, s) \<Rightarrow> s | None \<Rightarrow> example_idle)"

definition example_connecting :: udp_proxy where
  "example_connecting = snd (createProxyConnection example_env 7 example_running)"

definition example_connected :: completion where
  "example_connected = \<lparr>cq_ok = True, cq_socket = 3, cq_transferred = 0, cq_overlapped = Some 0,
     cq_error = 0, cq_data = [], cq_stop = False\<rparr>"

lemma ignore_datagram_ok: "receiver_ok ignore_datagram"
  by (simp add: receiver_ok_def ignore_datagram_def)

lemma example_init: "UDPProxy_init example_env example_address 16 [] [] example_idle = Some (True, example_running)"
  by (simp add: example_running_def UDPProxy_init_def initExtensions_def IOCPService_init_def sys_def emit_eq
      example_env_def example_idle_def Attach_def Let_def memcpy_from_def rdn_def example_address_def wrn_def
      INVALID_SOCKET_def INVALID_HANDLE_VALUE_def NF_MAX_ADDRESS_LENGTH_def split: if_splits)

lemma example_reach_running: "proxy_reach example_env ignore_datagram example_running"
  by (rule reach_init [OF _ _ _ _ example_init])
    (simp_all add: proxy_idle_def example_idle_def example_address_def opened_sockets_def
      closed_sockets_def map_filter_simps NF_MAX_ADDRESS_LENGTH_def)

lemma example_running_fields:
  "m_socketMap example_running = []" "m_ovDataSet example_running = []" "inflight example_running = []"
  "next_ov example_running = 0" "m_hIOCP example_running = 1" "m_userName example_running = []"
  by (simp_all add: example_running_def UDPProxy_init_def initExtensions_def IOCPService_init_def sys_def emit_eq
      example_env_def example_idle_def Attach_def Let_def memcpy_from_def rdn_def example_address_def wrn_def
      INVALID_SOCKET_def INVALID_HANDLE_VALUE_def NF_MAX_ADDRESS_LENGTH_def)

lemma example_connecting_fields:
  "inflight example_connecting = [0]"
  "m_ovDataSet example_connecting = [(0, new_OV_DATA\<lparr>ov_type := OVT_CONNECT, ov_id := 7\<rparr>)]"
  "m_socketMap example_connecting = [(7, new_PROXY_DATA\<lparr>tcpSocket := 3, udpSocket := 4,
     userName := [], userPassword := m_userPassword example_running\<rparr>)]"
  by (simp_all add: example_connecting_def createProxyConnection_def example_running_fields sys_def emit_eq
      example_env_def Let_def INVALID_SOCKET_def registerSocket_def startConnect_def submit_def
      newOV_DATA_def ov_upd_def new_OV_DATA_def)

lemma example_reach_connecting: "proxy_reach example_env ignore_datagram example_connecting"
  unfolding example_connecting_def
  by (rule reach_step [OF example_reach_running], rule step_create)
    (simp add: unused_id_def connects_def example_running_fields)

lemma example_legal: "legal example_connecting example_connected"
  by (simp add: legal_def example_connected_def is_timeout_def example_connecting_fields)

definition example_authenticating :: udp_proxy where
  "example_authenticating = (case worker_body (onComplete example_env ignore_datagram) example_connected
     (deliver example_connected example_connecting) of Some s \<Rightarrow> s | None \<Rightarrow> example_connecting)"

lemma example_authenticating_step:
  "worker_body (onComplete example_env ignore_datagram) example_connected
     (deliver example_connected example_connecting) = Some example_authenticating"
proof -
  have "proxy_running example_connecting"
    by (rule proxy_reach_inv(1) [OF ignore_datagram_ok example_reach_connecting])
  then have "\<exists>s'. worker_body (onComplete example_env ignore_datagram) example_connected
      (deliver example_connected example_connecting) = Some s' \<and> proxy_running s' \<and>
      (connect_first example_connecting example_connected \<longrightarrow>
        conn_evolves (connecting example_connecting example_connected) example_connecting s')"
    by (rule worker_body_ok [OF ignore_datagram_ok _ example_legal]) (simp add: example_connected_def)
  then obtain s' where "worker_body (onComplete example_env ignore_datagram) example_connected
      (deliver example_connected example_connecting) = Some s'"
    by (elim exE conjE)
  then show ?thesis by (simp add: example_authenticating_def)
qed

lemma startTcpReceive_map:
  "startTcpReceive E sk cid pov s = Some (r, s') \<Longrightarrow> m_socketMap s' = m_socketMap s"
  by (cases pov) (auto simp: startTcpReceive_def split_def Let_def bind_eq_Some_conv)

lemma example_send_ok: "fst (startTcpSend example_env sk b cid s)"
  by (simp add: startTcpSend_def submit_def sys_def split_def Let_def example_env_def)

lemma example_authenticating_state:
  "map_option proxyState (map_of (m_socketMap example_authenticating) 7) = Some PS_AUTH"
proof -
  let ?s = "deliver example_connected example_connecting"
  have ov: "map_of (m_ovDataSet ?s) 0 = Some (new_OV_DATA\<lparr>ov_type := OVT_CONNECT, ov_id := 7\<rparr>)"
    by (simp add: deliver_def example_connected_def example_connecting_fields is_receive_def)
  obtain pd where pd: "map_of (m_socketMap ?s) 7 = Some pd"
    by (simp add: example_connecting_fields)
  have step: "onConnectComplete example_env 3 0 0 0 ?s = Some example_authenticating"
    using example_authenticating_step ov
    by (simp add: worker_body_def onComplete_def example_connected_def)
  then obtain y where y: "leave_cs example_env (deleteOV_DATA example_env 0 y) = example_authenticating"
    "m_socketMap y = m_socketMap (pd_upd 7 (\<lambda>pd. pd\<lparr>proxyState := PS_AUTH\<rparr>) (snd (startTcpSend example_env
       (tcpSocket pd) (greeting pd) 7 (emit example_env (Net (SetSockOpt 3)) (emit example_env
       (Net (SetSockOpt 3)) (enter_cs example_env ?s))))))"
    using ov pd
    by (auto simp: onConnectComplete_def bind_eq_Some_conv send_and_advance_def set_state_def
        example_send_ok split_def Let_def dest!: startTcpReceive_map)
  show ?thesis using pd y(2) unfolding y(1) [symmetric] by (simp add: pd_upd_find)
qed

section \<open>Properties\<close>

text \<open>
  The proxy faults on nothing but an error of a port that does not exist and an empty datagram for
  an established association. In every reachable state each other completion is handled (no access
  to a freed or missing request object, no read outside a buffer, no endless loop, no call through
  a null handler) and each other datagram passed to udpSend is processed.
\<close>

lemma proxy_never_faults:
  assumes "receiver_ok recv" "proxy_reach E recv s"
  shows "(legal s c \<longrightarrow> \<not> port_error c \<longrightarrow> (\<exists>s'. worker_body (onComplete E recv) c (deliver c s) = Some s'))
    \<and> (send_args_ok buf len ra ralen \<longrightarrow> sendable cid len s \<longrightarrow> (\<exists>r s'. udpSend E cid buf len ra ralen s = Some (r, s')))"
proof -
  have run: "proxy_running s" by (rule proxy_reach_inv(1) [OF assms])
  then have "proxy_inv {} s" by (simp add: proxy_running_def)
  from udpSend_ok [OF this, of buf len ra ralen cid E] worker_body_ok [OF assms(1) run, of c E]
  show ?thesis by blast
qed

text \<open>
  Request objects are owned exactly: between operations the live \<open>OV_DATA\<close> objects are exactly
  the ones the platform still owes a completion, and it owes one completion for each. So none is
  freed early, freed twice, or leaked.
\<close>

lemma request_objects_owned:
  assumes "receiver_ok recv" "proxy_reach E recv s"
  shows "distinct (inflight s) \<and> dom (map_of (m_ovDataSet s)) = set (inflight s)"
  using proxy_reach_inv(1) [OF assms] by (simp add: proxy_running_def proxy_inv_def)

text \<open>
  C16: a connection only moves forward. Whatever completion is handled, a surviving connection keeps
  its sockets and credentials, its state does not go back in the order none, authentication,
  negotiation, association, connected, and its relay address is fixed once it is connected; and a
  connected connection has no datagram left in its queue.
\<close>

theorem connection_advances:
  assumes "receiver_ok recv" "proxy_reach E recv s" "legal s c"
    and "worker_body (onComplete E recv) c (deliver c s) = Some s'"
    and "map_of (m_socketMap s') cid = Some pd'"
  shows "\<exists>pd. map_of (m_socketMap s) cid = Some pd \<and>
    tcpSocket pd' = tcpSocket pd \<and> udpSocket pd' = udpSocket pd \<and>
    userName pd' = userName pd \<and> userPassword pd' = userPassword pd \<and>
    state_num (proxyState pd) \<le> state_num (proxyState pd') \<and>
    (proxyState pd = PS_CONNECTED \<longrightarrow> pd_remoteAddress pd' = pd_remoteAddress pd) \<and>
    proxyState pd' \<noteq> PS_CLOSED \<and> (proxyState pd' = PS_CONNECTED \<longrightarrow> udpSendPackets pd' = []) \<and>
    (udpRecvStarted pd' \<longrightarrow> proxyState pd' = PS_CONNECTED)"
proof -
  note inv = proxy_reach_inv [OF assms(1,2)]
  have "conn_evolves (connecting s c) s s'"
    using worker_body_ok [OF assms(1) inv(1) assms(3) worker_body_defined [OF assms(4)], of E] assms(4) connects_once_first [OF inv(2)] by auto
  then obtain pd where "map_of (m_socketMap s) cid = Some pd" "pd_step pd pd'"
    using assms(5) unfolding conn_evolves_def by blast
  moreover have "pd_settled pd'"
    using connects_once_complete [OF assms(1) inv assms(3,4)] assms(5) by (auto simp: connects_once_def)
  ultimately show ?thesis by (auto simp: pd_step_def pd_settled_def less_eq_PROXY_STATE_def)
qed

theorem connection_advances_witness:
  "\<exists>pd'. map_of (m_socketMap example_authenticating) 7 = Some pd' \<and> proxyState pd' = PS_AUTH \<and>
     tcpSocket pd' = 3 \<and> udpSocket pd' = 4"
proof -
  obtain pd' where pd': "map_of (m_socketMap example_authenticating) 7 = Some pd'" "proxyState pd' = PS_AUTH"
    using example_authenticating_state by auto
  from connection_advances [OF ignore_datagram_ok example_reach_connecting example_legal
      example_authenticating_step pd'(1)] pd' show ?thesis
    by (simp add: example_connecting_fields(3))
qed

text \<open>
  Stopping the proxy empties it: no request object and no connection is left. The requests the
  platform had accepted are not waited for.
\<close>

lemma free_empties_proxy:
  "m_ovDataSet (UDPProxy_free E s) = [] \<and> m_socketMap (UDPProxy_free E s) = []
   \<and> inflight (UDPProxy_free E s) = inflight s"
proof -
  have "inflight (IOCPService_free E s) = inflight s" "m_socketMap (IOCPService_free E s) = m_socketMap s"
    by (simp_all add: IOCPService_free_def Close_def Let_def emit_eq)
  then show ?thesis by (simp add: UDPProxy_free_def Let_def)
qed

end
