(* ===== verification/Udp_Proxy_Trace.thy ===== *)
theory Udp_Proxy_Trace
  imports Udp_Proxy_Safety
begin

text \<open>
  What the proxy's operations may call. A \<open>monitor\<close> is a property of call sequences that holds of
  the requests the proxy makes and is closed under concatenation and critical sections; every
  operation extends the trace by a sequence the monitor accepts. The lock discipline and the
  socket ledger are interpreted here; later theories add the order of the datagrams, the words of
  the conversation and the types of the arguments.
\<close>

section \<open>Monitors\<close>

definition extends :: "(trace \<Rightarrow> bool) \<Rightarrow> 'a world_scheme \<Rightarrow> 'b world_scheme \<Rightarrow> bool" where
  "extends good s s' \<longleftrightarrow> (\<exists>tr. trace s' = trace s @ tr \<and> good tr)"

text \<open>The calls that concern requests on existing sockets, other than sending data.\<close>

definition request_call :: "api \<Rightarrow> bool" where
  "request_call c \<longleftrightarrow> (case c of
       Net n \<Rightarrow> (case n of
           PostQueuedCompletionStatus _ _ _ _ \<Rightarrow> True | WSAGetLastError \<Rightarrow> True | Bind _ \<Rightarrow> True
         | SetSockOpt _ \<Rightarrow> True | ConnectEx _ _ _ \<Rightarrow> True
         | WSARecv _ _ \<Rightarrow> True | WSARecvFrom _ _ \<Rightarrow> True | _ \<Rightarrow> False)
     | _ \<Rightarrow> False)"

lemma request_call_simps [simp]:
  "request_call (Net (PostQueuedCompletionStatus h n sk p))" "request_call (Net WSAGetLastError)"
  "request_call (Net (Bind sk))" "request_call (Net (SetSockOpt sk))"
  "request_call (Net (ConnectEx sk b p))" "request_call (Net (WSARecv sk p))" "request_call (Net (WSARecvFrom sk p))"
  by (simp_all add: request_call_def)

locale monitor =
  fixes good :: "trace \<Rightarrow> bool"
  assumes good_Nil: "good []"
    and good_append: "good xs \<Longrightarrow> good ys \<Longrightarrow> good (xs @ ys)"
    and good_request: "request_call c \<Longrightarrow> good [(c, r)]"
    and good_section: "good tr \<Longrightarrow> good ((Sync (Acquire ProxyCs), r) # tr @ [(Sync (Release ProxyCs), r')])"
begin

lemma ext_refl [simp]: "trace t = trace s \<Longrightarrow> extends good s t"
  by (simp add: extends_def good_Nil)

lemma ext_trans: "extends good s t \<Longrightarrow> extends good t u \<Longrightarrow> extends good s u"
  unfolding extends_def using good_append by (metis append.assoc)

lemma ext_same: "extends good s t \<Longrightarrow> trace u = trace t \<Longrightarrow> extends good s u"
  by (simp add: extends_def)

lemma ext_call: "good [(c, r)] \<Longrightarrow> trace u = trace t @ [(c, r)] \<Longrightarrow> extends good s t \<Longrightarrow> extends good s u"
  by (rule ext_trans [of s t]) (auto simp: extends_def)

lemma ext_emit: "request_call c \<Longrightarrow> extends good s t \<Longrightarrow> extends good s (emit E c t)"
  by (rule ext_call [OF good_request]) (simp_all add: emit_eq)

lemma ext_section:
  assumes "extends good (enter_cs E t) u" "extends good s t"
  shows "extends good s (leave_cs E u)"
proof -
  from assms(1) have "extends good t (leave_cs E u)"
    using good_section by (auto simp: extends_def emit_eq)
  with assms(2) show ?thesis by (rule ext_trans)
qed

lemma ext_fields:
  assumes "extends good s t"
  shows "extends good s (ov_upd p f t)" "extends good s (pd_upd cid g t)" "extends good s (set_state cid st t)"
    "extends good s (t\<lparr>m_ovDataSet := x\<rparr>)" "extends good s (t\<lparr>m_socketMap := y\<rparr>)"
    "extends good s (t\<lparr>next_ov := n\<rparr>)"
  using assms by (simp_all add: extends_def set_state_def)

lemma ext_from_fields [simp]:
  "extends good (pd_upd cid g t) u = extends good t u" "extends good (set_state cid st t) u = extends good t u"
  by (simp_all add: extends_def set_state_def)

lemma ext_submit:
  assumes "good [(c, os E (trace t) c)]" "extends good s t"
  shows "extends good s (snd (submit E ok c p t))"
proof -
  have 1: "extends good s (snd (sys E c t))"
    by (rule ext_call [OF assms(1) _ assms(2)]) (simp add: sys_snd)
  then have "extends good s (snd (sys E (Net WSAGetLastError) (snd (sys E c t))))"
    using ext_emit [of "Net WSAGetLastError" s _ E] by (simp add: emit_def)
  with 1 show ?thesis
    by (simp add: submit_def split_def Let_def extends_def)
qed

lemma ext_newOV: "extends good s t \<Longrightarrow> extends good s (snd (newOV_DATA E t))"
  unfolding newOV_DATA_def Let_def snd_conv
  by (rule ext_section [where t = "t\<lparr>next_ov := next_ov t + 1\<rparr>", OF ext_fields(4)])
    (simp_all add: ext_fields(6))

lemma ext_deleteOV: "extends good s t \<Longrightarrow> extends good s (deleteOV_DATA E p t)"
  unfolding deleteOV_DATA_def Let_def
  by (auto split: option.split intro!: ext_section ext_fields(4))

lemma ext_post_or_delete: 
  assumes "extends good s t" shows "extends good s (post_or_delete E sk p t)"
proof -
  have "extends good s (snd (postCompletion E sk 0 p t))"
    using ext_emit [OF _ assms, of _ E] by (simp add: postCompletion_def split_def Let_def emit_def extends_def)
  then show ?thesis by (simp add: post_or_delete_def split_def Let_def ext_deleteOV)
qed

lemmas ext_intros = ext_emit ext_fields ext_submit ext_newOV ext_deleteOV ext_post_or_delete good_request

lemma ext_startConnect: "extends good s t \<Longrightarrow> extends good s (snd (startConnect E sk a cid t))"
  by (simp add: startConnect_def split_def Let_def ext_intros)

lemma ext_startTcpReceive:
  "startTcpReceive E sk cid pov t = Some (r, u) \<Longrightarrow> extends good s t \<Longrightarrow> extends good s u"
  by (cases pov) (auto simp: startTcpReceive_def split_def Let_def bind_eq_Some_conv ext_intros)

lemma ext_startUdpReceive:
  "startUdpReceive E sk cid pov t = Some (r, u) \<Longrightarrow> extends good s t \<Longrightarrow> extends good s u"
  by (cases pov) (auto simp: startUdpReceive_def split_def Let_def bind_eq_Some_conv ext_intros)

lemma ext_weaken: "(\<And>tr. good tr \<Longrightarrow> P tr) \<Longrightarrow> extends good t u \<Longrightarrow> extends P t u"
  by (auto simp: extends_def)

lemma ext_onUdpReceiveComplete:
  assumes "onUdpReceiveComplete E recv sk n p err t = Some u"
    and P: "\<And>tr. good tr \<Longrightarrow> P tr" "\<And>xs ys. P xs \<Longrightarrow> P ys \<Longrightarrow> P (xs @ ys)"
    and recv: "\<And>cid b l a al t u. recv cid b l a al t = Some u \<Longrightarrow> extends P t u"
  shows "extends P t u"
proof (cases "n = 0")
  case True
  with assms(1) show ?thesis
    by (auto simp: onUdpReceiveComplete_def ext_deleteOV intro: ext_weaken [OF P(1)])
next
  case False
  have refl: "extends P s s" for s :: "'b udp_proxy_scheme" by (rule ext_weaken, erule P(1)) simp_all
  from assms(1) False obtain v i r where v: "extends P t v"
    and u: "startUdpReceive E sk i (Some p) v = Some (r, u)"
    by (auto simp: onUdpReceiveComplete_def Let_def bind_eq_Some_conv split: if_splits
        intro: refl dest!: recv)
  have "extends P v u" by (rule ext_weaken, erule P(1), rule ext_startUdpReceive [OF u]) simp_all
  with v P(2) show ?thesis unfolding extends_def by (metis append.assoc)
qed

end

text \<open>Monitors that also accept data sent over TCP, datagrams, and both.\<close>

locale tcp_monitor = monitor +
  assumes good_send: "good [(Net (WSASend sk b p), r)]"
begin

lemma ext_startTcpSend: "extends good s t \<Longrightarrow> extends good s (snd (startTcpSend E sk b cid t))"
  by (simp add: startTcpSend_def split_def Let_def ext_intros good_send)

lemma ext_send_and_advance:
  "extends good s t \<Longrightarrow> extends good s (send_and_advance E cid pd msg st t)"
  by (simp add: send_and_advance_def split_def Let_def ext_startTcpSend ext_fields)

lemma ext_onConnectComplete:
  assumes "onConnectComplete E sk n p 0 t = Some u" "extends good s t"
  shows "extends good s u"
proof -
  from assms(1) obtain v where "u = leave_cs E v" "extends good (enter_cs E t) v"
    by (auto simp: onConnectComplete_def Let_def bind_eq_Some_conv ext_deleteOV ext_send_and_advance ext_emit
        split: option.splits dest!: ext_startTcpReceive [where s = "enter_cs E t"])
  with ext_section [OF _ assms(2)] show ?thesis by simp
qed

end

locale send_monitor = monitor +
  assumes good_sendto: "good [(Net (WSASendTo sk b a p), r)]"
begin

lemma ext_udpSend_connected:
  "udpSend_connected E cid pd buf len ra t = Some (r, u) \<Longrightarrow> extends good s t \<Longrightarrow> extends good s u"
  by (auto simp: udpSend_connected_def split_def Let_def bind_eq_Some_conv ext_intros good_sendto
      split: if_splits dest!: ext_startUdpReceive)

lemma ext_udpSend:
  assumes "udpSend E cid buf len ra ralen t = Some (r, u)" "extends good s t"
  shows "extends good s u"
proof -
  from assms(1) obtain v where "u = leave_cs E v" "extends good (enter_cs E t) v"
    by (auto simp: udpSend_def Let_def bind_eq_Some_conv ext_fields split: option.splits if_splits
        dest!: ext_udpSend_connected [where s = "enter_cs E t"])
  with ext_section [OF _ assms(2)] show ?thesis by simp
qed

lemma ext_flush: "flush_packets E cid t = Some u \<Longrightarrow> extends good t u"
proof (induction rule: flush_packets_induct)
  case (send s pd p ps r t s')
  have "extends good s t" by (rule ext_udpSend [OF send(3)]) simp
  then show ?case using send(4) by (auto intro: ext_trans)
qed simp

end

locale call_monitor = tcp_monitor + send_monitor
begin

lemma ext_tcp_reply:
  "tcp_reply E cid pd n buf t = Some u \<Longrightarrow> extends good s t \<Longrightarrow> extends good s u"
  by (auto simp: tcp_reply_def reply_auth_def reply_auth_negotiation_def reply_udp_assoc_def Let_def
      bind_eq_Some_conv ext_send_and_advance ext_fields
      split: PROXY_STATE.splits if_splits option.splits dest!: ext_flush)
    (erule (1) ext_trans)

lemma ext_onTcpReceiveComplete:
  assumes "onTcpReceiveComplete E sk n p err t = Some u" "extends good s t"
  shows "extends good s u"
proof (cases "n = 0")
  case True
  with assms show ?thesis by (auto simp: onTcpReceiveComplete_def ext_deleteOV)
next
  case False
  with assms(1) obtain d v i r where
    v: "(case map_of (m_socketMap t) (ov_id (d :: OV_DATA)) of None \<Rightarrow> Some (enter_cs E t)
       | Some pd \<Rightarrow> tcp_reply E (ov_id d) pd n (ov_buffer d) (enter_cs E t)) = Some v"
    and u: "startTcpReceive E sk i (Some p) (leave_cs E v) = Some (r, u)"
    unfolding onTcpReceiveComplete_def Let_def by (simp add: bind_eq_Some_conv split_paired_Ex) blast
  from v have "extends good (enter_cs E t) v"
    by (auto split: option.splits dest: ext_tcp_reply [where s = "enter_cs E t"])
  with ext_section [OF _ assms(2)] u ext_startTcpReceive show ?thesis by blast
qed

text \<open>A completion, given what the receiver and the deletion of a failed connection call.\<close>

lemma ext_onComplete:
  assumes "onComplete E recv sk n (Some p) err t = Some u" "map_of (m_ovDataSet t) p = Some d"
    and P: "\<And>tr. good tr \<Longrightarrow> P tr" "\<And>xs ys. P xs \<Longrightarrow> P ys \<Longrightarrow> P (xs @ ys)"
    and recv: "\<And>cid b l a al t u. recv cid b l a al t = Some u \<Longrightarrow> extends P t u"
    and del: "ov_type d = OVT_CONNECT \<Longrightarrow> err \<noteq> 0 \<Longrightarrow> extends P t (deleteProxyConnection E (ov_id d) t)"
  shows "extends P t u"
proof (cases "ov_type d")
  case OVT_CONNECT
  show ?thesis
  proof (cases "err = 0")
    case True
    with assms(1,2) OVT_CONNECT show ?thesis
      by (auto simp: onComplete_def intro!: ext_weaken [OF P(1)] elim!: ext_onConnectComplete)
  next
    case False
    let ?v = "deleteProxyConnection E (ov_id d) t"
    have "extends P ?v (deleteOV_DATA E p ?v)" by (rule ext_weaken, erule P(1), rule ext_deleteOV) simp_all
    with del [OF OVT_CONNECT False] P(2) have "extends P t (deleteOV_DATA E p ?v)"
      unfolding extends_def by (metis append.assoc)
    with assms(1,2) OVT_CONNECT False show ?thesis by (simp add: onComplete_def onConnectComplete_def)
  qed
next
  case OVT_UDP_RECEIVE
  with assms(1,2) show ?thesis
    by (auto simp: onComplete_def intro: ext_onUdpReceiveComplete [OF _ P recv])
next
  case OVT_TCP_RECEIVE
  with assms(1,2) show ?thesis
    by (auto simp: onComplete_def intro!: ext_weaken [OF P(1)] elim!: ext_onTcpReceiveComplete)
qed (use assms(1,2) in \<open>auto simp: onComplete_def onTcpSendComplete_def onUdpSendComplete_def
    intro!: ext_weaken [OF P(1)] ext_deleteOV\<close>)

end

section \<open>Lock discipline\<close>

definition lock_neutral :: "trace \<Rightarrow> bool" where
  "lock_neutral tr \<longleftrightarrow> (\<forall>d m. lock_run tr (d, m) = Some (d, m))"

lemma lock_act_other:
  "request_call c \<Longrightarrow> lock_act c l = Some l" "lock_act (Net n) l = Some l"
  by (auto simp: lock_act_def request_call_def)

interpretation locks: call_monitor lock_neutral
proof unfold_locales
  fix tr r r' assume "lock_neutral tr"
  then show "lock_neutral ((Sync (Acquire ProxyCs), r) # tr @ [(Sync (Release ProxyCs), r')])"
    by (simp add: lock_neutral_def lock_run_append lock_act_def)
qed (auto simp: lock_neutral_def lock_run_append lock_act_other)

definition unlocked_neutral :: "trace \<Rightarrow> bool" where
  "unlocked_neutral tr \<longleftrightarrow> lock_run tr (0, False) = Some (0, False)"

lemma unlocked_neutral_append: "unlocked_neutral xs \<Longrightarrow> unlocked_neutral ys \<Longrightarrow> unlocked_neutral (xs @ ys)"
  by (simp add: unlocked_neutral_def lock_run_append)

lemma lock_neutral_unlocked: "lock_neutral tr \<Longrightarrow> unlocked_neutral tr"
  by (simp add: lock_neutral_def unlocked_neutral_def)

lemma locks_net: "extends lock_neutral s t \<Longrightarrow> extends lock_neutral s (emit E (Net n) t)"
  by (rule locks.ext_call [of "Net n"]) (simp_all add: lock_neutral_def lock_act_other emit_eq)

lemma locks_delete_PROXY_DATA:
  "extends lock_neutral s t \<Longrightarrow> extends lock_neutral s (delete_PROXY_DATA E pd t)"
  by (simp add: delete_PROXY_DATA_def Let_def locks_net)

lemma locks_deleteProxyConnection: 
  "extends lock_neutral s t \<Longrightarrow> extends lock_neutral s (deleteProxyConnection E cid t)"
  unfolding deleteProxyConnection_def Let_def
  by (rule locks.ext_section) (auto split: option.split intro!: locks.ext_fields locks_delete_PROXY_DATA)

text \<open>\<open>receiver_calls P recv\<close>: the receiver makes only sequences of calls that satisfy \<open>P\<close>.\<close>

definition receiver_calls :: "(trace \<Rightarrow> bool) \<Rightarrow> 'a udp_proxy_scheme recv_fun \<Rightarrow> bool" where
  "receiver_calls P recv \<longleftrightarrow> (\<forall>cid b l a al t u. recv cid b l a al t = Some u \<longrightarrow> extends P t u)"

lemma legal_object:
  assumes "proxy_running s" "legal s c" "cq_overlapped c = Some p"
  obtains d where "map_of (m_ovDataSet (deliver c s)) p = Some d"
    and "worker_body (onComplete E recv) c (deliver c s) =
      onComplete E recv (cq_socket c) (cq_transferred c) (Some p) (if cq_ok c then 0 else cq_error c) (deliver c s)"
proof -
  have "proxy_inv {} s" using assms(1) by (simp add: proxy_running_def)
  from deliver_inv(2) [OF this assms(2,3)] obtain d where "map_of (m_ovDataSet (deliver c s)) p = Some d"
    by auto
  then show thesis
    by (rule that) (use assms(2,3) in \<open>auto simp: worker_body_def legal_def is_timeout_def\<close>)
qed

lemma locks_createProxyConnection:
  "extends lock_neutral s (snd (createProxyConnection E cid s))"
proof -
  have start: "extends lock_neutral s (snd (connection_start E cid tcp udp t))"
    if "extends lock_neutral s t" for t :: "'b udp_proxy_scheme" and tcp udp
  proof -
    have reg: "extends lock_neutral s (snd (registerSocket E sk u))" if "extends lock_neutral s u"
      for sk and u :: "'b udp_proxy_scheme"
      using locks_net [OF that, of E] by (simp add: registerSocket_def emit_def split_def Let_def)
    show ?thesis using that
      by (simp add: connection_start_def split_def Let_def reg locks.ext_startConnect)
  qed
  let ?t1 = "snd (sys E (Net (WSASocket SOCK_STREAM)) s)"
  let ?t2 = "snd (sys E (Net (WSASocket SOCK_DGRAM)) ?t1)"
  have t1: "extends lock_neutral s ?t1"
    using locks_net [of s s E] by (simp add: emit_def)
  then have t2: "extends lock_neutral s ?t2"
    using locks_net [of s ?t1 E] by (simp add: emit_def)
  then have t3: "extends lock_neutral s (leave_cs E ((enter_cs E ?t2)\<lparr>m_socketMap := m_insert cid (fresh_connection E s) (m_socketMap s)\<rparr>))"
    by (intro locks.ext_section [OF _ t2] locks.ext_fields) simp
  show ?thesis
    unfolding createProxyConnection_cases
    using t1 locks_net [OF t2] start [OF t3] locks_deleteProxyConnection [OF start [OF t3]] by simp
qed

lemma proxy_step_locks:
  assumes "receiver_calls unlocked_neutral recv" "proxy_running s" "proxy_step E recv s s'"
  shows "extends unlocked_neutral s s'"
  using assms(3)
proof cases
  case (step_complete c)
  show ?thesis
  proof (cases "cq_overlapped c")
    case None
    with timeout_noop [OF step_complete(1) _ step_complete(2)] show ?thesis
      by (auto simp: extends_def unlocked_neutral_def)
  next
    case (Some p)
    from legal_object [OF assms(2) step_complete(1) Some] obtain d where d: "map_of (m_ovDataSet (deliver c s)) p = Some d"
      and r: "onComplete E recv (cq_socket c) (cq_transferred c) (Some p) (if cq_ok c then 0 else cq_error c)
        (deliver c s) = Some s'" using step_complete(2) by metis
    have del: "extends unlocked_neutral t (deleteProxyConnection E i t)" for i and t :: "'a udp_proxy_scheme"
      by (rule locks.ext_weaken, erule lock_neutral_unlocked, rule locks_deleteProxyConnection) simp
    have "extends unlocked_neutral (deliver c s) s'"
      by (rule locks.ext_onComplete [OF r d, where P = unlocked_neutral])
        (use lock_neutral_unlocked unlocked_neutral_append assms(1) del in \<open>auto simp: receiver_calls_def\<close>)
    then show ?thesis by (simp add: extends_def)
  qed
next
  case (step_send buf len ra ralen cid r)
  show ?thesis by (rule locks.ext_weaken, erule lock_neutral_unlocked, rule locks.ext_udpSend [OF step_send(2)]) simp
next
  case (step_create cid)
  then show ?thesis
    using locks_createProxyConnection by (auto intro: locks.ext_weaken lock_neutral_unlocked)
next
  case (step_delete cid)
  show ?thesis unfolding step_delete
    by (rule locks.ext_weaken, erule lock_neutral_unlocked, rule locks_deleteProxyConnection) simp
qed

section \<open>Sockets\<close>

definition no_sockets :: "trace \<Rightarrow> bool" where
  "no_sockets tr \<longleftrightarrow> opened_sockets tr = [] \<and> closed_sockets tr = []"

lemma sockets_append [simp]:
  "opened_sockets (xs @ ys) = opened_sockets xs @ opened_sockets ys"
  "closed_sockets (xs @ ys) = closed_sockets xs @ closed_sockets ys"
  by (simp_all add: opened_sockets_def closed_sockets_def map_filter_def)

lemma sockets_Cons [simp]:
  "opened_sockets ((c, r) # tr) = (case c of
     Net (Socket _) \<Rightarrow> (if r \<noteq> INVALID_SOCKET then [r] else [])
   | Net (WSASocket _) \<Rightarrow> (if r \<noteq> INVALID_SOCKET then [r] else [])
   | _ \<Rightarrow> []) @ opened_sockets tr"
  "closed_sockets ((c, r) # tr) = (case c of Net (Closesocket sk) \<Rightarrow> [sk] | _ \<Rightarrow> []) @ closed_sockets tr"
  by (auto simp: opened_sockets_def closed_sockets_def map_filter_simps split: api.splits net_call.splits)

lemma sockets_Nil [simp]: "opened_sockets [] = []" "closed_sockets [] = []"
  by (simp_all add: opened_sockets_def closed_sockets_def map_filter_simps)

interpretation sockets: call_monitor no_sockets
  by unfold_locales (auto simp: no_sockets_def request_call_def split: api.splits net_call.splits)

definition conn_sockets :: "PROXY_DATA \<Rightarrow> sock multiset" where
  "conn_sockets pd = {# sk \<in># {# tcpSocket pd, udpSocket pd #}. sk \<noteq> INVALID_SOCKET #}"

definition held_sockets :: "'a udp_proxy_scheme \<Rightarrow> sock multiset" where
  "held_sockets s = (\<Sum>c \<in> dom (map_of (m_socketMap s)). conn_sockets (the (map_of (m_socketMap s) c)))"

definition sockets_balanced :: "'a udp_proxy_scheme \<Rightarrow> bool" where
  "sockets_balanced s \<longleftrightarrow>
     mset (opened_sockets (trace s)) = mset (closed_sockets (trace s)) + held_sockets s"

lemma held_cong:
  assumes "dom (map_of (m_socketMap t)) = dom (map_of (m_socketMap s))"
    and "\<And>c pd pd'. map_of (m_socketMap s) c = Some pd \<Longrightarrow> map_of (m_socketMap t) c = Some pd' \<Longrightarrow>
      tcpSocket pd' = tcpSocket pd \<and> udpSocket pd' = udpSocket pd"
  shows "held_sockets t = held_sockets s"
  unfolding held_sockets_def assms(1)
proof (rule sum.cong [OF refl])
  fix c assume "c \<in> dom (map_of (m_socketMap s))"
  then have "c \<in> dom (map_of (m_socketMap t))" using assms(1) by simp
  then obtain pd' where pd': "map_of (m_socketMap t) c = Some pd'" by (auto simp: dom_def)
  from \<open>c \<in> dom (map_of (m_socketMap s))\<close> obtain pd where pd: "map_of (m_socketMap s) c = Some pd"
    by (auto simp: dom_def)
  from assms(2) [OF pd pd'] show "conn_sockets (the (map_of (m_socketMap t) c)) =
      conn_sockets (the (map_of (m_socketMap s) c))"
    by (simp add: pd pd' conn_sockets_def)
qed

lemma held_same: "map_of (m_socketMap t) = map_of (m_socketMap s) \<Longrightarrow> held_sockets t = held_sockets s"
  by (simp add: held_sockets_def)

lemma held_evolves: "conn_evolves {} s t \<Longrightarrow> held_sockets t = held_sockets s"
proof (rule held_cong)
  assume e: "conn_evolves {} s t"
  then show "dom (map_of (m_socketMap t)) = dom (map_of (m_socketMap s))"
    unfolding conn_evolves_def by (intro equalityI) (simp_all add: subset_iff dom_def, blast)
  fix c pd pd' assume "map_of (m_socketMap s) c = Some pd" "map_of (m_socketMap t) c = Some pd'"
  with e show "tcpSocket pd' = tcpSocket pd \<and> udpSocket pd' = udpSocket pd"
    unfolding conn_evolves_def pd_step_def by fastforce
qed

lemma held_erase:
  assumes "map_of (m_socketMap t) = (map_of (m_socketMap s))(cid := None)"
  shows "held_sockets s = held_sockets t +
    (case map_of (m_socketMap s) cid of None \<Rightarrow> {#} | Some pd \<Rightarrow> conn_sockets pd)"
proof (cases "map_of (m_socketMap s) cid")
  case None
  with assms have "map_of (m_socketMap t) = map_of (m_socketMap s)" by (simp add: fun_upd_idem)
  from held_same [OF this] None show ?thesis by simp
next
  case (Some pd)
  have "(\<Sum>c \<in> dom (map_of (m_socketMap s)) - {cid}. conn_sockets (the (map_of (m_socketMap t) c))) =
      (\<Sum>c \<in> dom (map_of (m_socketMap s)) - {cid}. conn_sockets (the (map_of (m_socketMap s) c)))"
    by (rule sum.cong) (simp_all add: assms)
  with Some show ?thesis
    unfolding held_sockets_def
    by (subst sum.remove [of _ cid]) (auto simp: finite_dom_map_of assms)
qed

lemma held_insert:
  assumes "map_of (m_socketMap t) = (map_of (m_socketMap s))(cid \<mapsto> pd)" "map_of (m_socketMap s) cid = None"
  shows "held_sockets t = held_sockets s + conn_sockets pd"
  using held_erase [of s t cid] assms by (simp add: fun_upd_idem)

lemma sockets_ext:
  assumes "extends no_sockets s t" "held_sockets t = held_sockets s" "sockets_balanced s"
  shows "sockets_balanced t"
  using assms by (auto simp: extends_def no_sockets_def sockets_balanced_def)

lemma delete_PROXY_DATA_sockets:
  "opened_sockets (trace (delete_PROXY_DATA E pd s)) = opened_sockets (trace s)"
  "mset (closed_sockets (trace (delete_PROXY_DATA E pd s))) = mset (closed_sockets (trace s)) + conn_sockets pd"
  by (simp_all add: delete_PROXY_DATA_def emit_eq conn_sockets_def Let_def)

lemma deleteProxyConnection_sockets:
  fixes s :: "'a udp_proxy_scheme" and E cid
  defines "t \<equiv> deleteProxyConnection E cid s"
  shows "opened_sockets (trace t) = opened_sockets (trace s)"
    and "mset (closed_sockets (trace t)) + held_sockets t = mset (closed_sockets (trace s)) + held_sockets s"
proof -
  show "opened_sockets (trace t) = opened_sockets (trace s)"
    unfolding t_def
    by (auto simp: deleteProxyConnection_def Let_def emit_eq [of E "Sync c" for c] delete_PROXY_DATA_sockets split: option.split)
  have "mset (closed_sockets (trace t)) = mset (closed_sockets (trace s)) +
      (case map_of (m_socketMap s) cid of None \<Rightarrow> {#} | Some pd \<Rightarrow> conn_sockets pd)"
    unfolding t_def
    by (auto simp: deleteProxyConnection_def Let_def emit_eq [of E "Sync c" for c] delete_PROXY_DATA_sockets split: option.split)
  then show "mset (closed_sockets (trace t)) + held_sockets t = mset (closed_sockets (trace s)) + held_sockets s"
    using held_erase [of t s cid] by (simp add: t_def)
qed

lemma deleteProxyConnection_balanced:
  "sockets_balanced s \<Longrightarrow> sockets_balanced (deleteProxyConnection E cid s)"
  by (simp add: sockets_balanced_def deleteProxyConnection_sockets)

lemma held_pd_upd:
  assumes "\<And>pd. tcpSocket (f pd) = tcpSocket pd \<and> udpSocket (f pd) = udpSocket pd"
  shows "held_sockets (pd_upd cid f t) = held_sockets t"
proof (cases "map_of (m_socketMap t) cid")
  case None
  then show ?thesis by (simp add: pd_upd_def)
next
  case (Some pd)
  then show ?thesis using assms
    by (intro held_cong) (auto simp: pd_upd_find split: if_splits)
qed

lemma onConnectComplete_held:
  assumes "onConnectComplete E sk n p 0 t = Some u"
  shows "held_sockets u = held_sockets t"
proof -
  have adv: "held_sockets (send_and_advance E i pd msg st v) = held_sockets v"
    for i pd msg st and v :: "'a udp_proxy_scheme"
    using held_pd_upd [of "\<lambda>pd. pd\<lparr>proxyState := st\<rparr>" i "snd (startTcpSend E (tcpSocket pd) msg i v)"]
    by (simp add: send_and_advance_def split_def Let_def set_state_def held_sockets_def)
  from assms obtain d where d: "map_of (m_ovDataSet t) p = Some d"
    by (auto simp: onConnectComplete_def bind_eq_Some_conv)
  show ?thesis
  proof (cases "map_of (m_socketMap t) (ov_id d)")
    case None
    with assms d have "m_socketMap u = m_socketMap t" by (auto simp: onConnectComplete_def Let_def)
    then show ?thesis by (simp add: held_sockets_def)
  next
    case (Some pd)
    let ?v = "emit E (Net (SetSockOpt sk)) (emit E (Net (SetSockOpt sk)) (enter_cs E t))"
    from Some assms d have "m_socketMap u = m_socketMap (send_and_advance E (ov_id d) pd (greeting pd) PS_AUTH ?v)"
      by (auto simp: onConnectComplete_def Let_def bind_eq_Some_conv dest!: startTcpReceive_map)
    with adv [of "ov_id d" pd "greeting pd" PS_AUTH ?v] show ?thesis
      by (simp add: held_sockets_def)
  qed
qed

lemma connection_start_sockets:
  "extends no_sockets t (snd (connection_start E cid tcp udp t))"
proof -
  have reg: "extends no_sockets t (snd (registerSocket E sk u))" if "extends no_sockets t u"
    for sk and u :: "'a udp_proxy_scheme"
    by (rule sockets.ext_call [OF _ _ that, of "Net (CreateIoCompletionPort sk (m_hIOCP u) sk)"])
      (simp_all add: no_sockets_def registerSocket_def sys_snd split_def Let_def)
  show ?thesis
    by (simp add: connection_start_def split_def Let_def reg sockets.ext_startConnect)
qed

lemma connection_start_balanced:
  "sockets_balanced t \<Longrightarrow> sockets_balanced (snd (connection_start E cid tcp udp t))"
  by (rule sockets_ext [OF connection_start_sockets held_same]) (simp_all add: connection_start_def split_def Let_def)

lemma createProxyConnection_balanced:
  assumes "sockets_balanced s" "map_of (m_socketMap s) cid = None"
  shows "sockets_balanced (snd (createProxyConnection E cid s))"
proof -
  let ?t1 = "snd (sys E (Net (WSASocket SOCK_STREAM)) s)"
  let ?tcp = "fst (sys E (Net (WSASocket SOCK_STREAM)) s)"
  let ?t2 = "snd (sys E (Net (WSASocket SOCK_DGRAM)) ?t1)"
  let ?udp = "fst (sys E (Net (WSASocket SOCK_DGRAM)) ?t1)"
  let ?t3 = "leave_cs E ((enter_cs E ?t2)\<lparr>m_socketMap := m_insert cid (fresh_connection E s) (m_socketMap s)\<rparr>)"
  let ?t4 = "connection_start E cid ?tcp ?udp ?t3"
  have fresh: "tcpSocket (fresh_connection E s) = ?tcp" "udpSocket (fresh_connection E s) = ?udp"
    by (simp_all add: fresh_connection_def split_def Let_def)
  have held: "held_sockets ?t1 = held_sockets s" "held_sockets ?t2 = held_sockets s"
    "held_sockets (emit E c ?t2) = held_sockets s" for c
    by (simp_all add: held_sockets_def)
  have opened1: "opened_sockets (trace ?t1) = opened_sockets (trace s) @ (if ?tcp \<noteq> INVALID_SOCKET then [?tcp] else [])"
    "closed_sockets (trace ?t1) = closed_sockets (trace s)"
    by (simp_all add: sys_snd)
  have opened2: "opened_sockets (trace ?t2) = opened_sockets (trace ?t1) @ (if ?udp \<noteq> INVALID_SOCKET then [?udp] else [])"
    "closed_sockets (trace ?t2) = closed_sockets (trace ?t1)"
    by (simp_all add: sys_snd)
  have "map_of (m_socketMap ?t3) = (map_of (m_socketMap s))(cid \<mapsto> fresh_connection E s)" by simp
  from held_insert [OF this assms(2)] have "held_sockets ?t3 = held_sockets s + conn_sockets (fresh_connection E s)" .
  moreover have "opened_sockets (trace ?t3) = opened_sockets (trace ?t2)"
    "closed_sockets (trace ?t3) = closed_sockets (trace ?t2)"
    by (simp_all add: emit_eq)
  ultimately have "sockets_balanced ?t3" if "?tcp \<noteq> INVALID_SOCKET" "?udp \<noteq> INVALID_SOCKET"
    using that assms(1) opened1 opened2 by (simp add: sockets_balanced_def conn_sockets_def fresh)
  then have t4: "sockets_balanced (snd ?t4)" if "?tcp \<noteq> INVALID_SOCKET" "?udp \<noteq> INVALID_SOCKET"
    using that by (intro connection_start_balanced) simp
  show ?thesis
    unfolding createProxyConnection_cases
    using assms(1) opened1 opened2 held t4 deleteProxyConnection_balanced
    by (auto simp: sockets_balanced_def emit_eq)
qed

lemma deleteOV_DATA_balanced: "sockets_balanced t \<Longrightarrow> sockets_balanced (deleteOV_DATA E p t)"
  by (rule sockets_ext [OF sockets.ext_deleteOV held_same]) simp_all

lemma worker_body_sockets:
  assumes "receiver_ok recv" "receiver_calls no_sockets recv" "proxy_running s" "connects_once s" "legal s c"
    and "worker_body (onComplete E recv) c (deliver c s) = Some s'" "sockets_balanced s"
  shows "sockets_balanced s'"
proof (cases "cq_overlapped c")
  case None
  with timeout_noop [OF assms(5) _ assms(6)] assms(7) show ?thesis by simp
next
  case (Some p)
  let ?s = "deliver c s" and ?err = "if cq_ok c then 0 else cq_error c"
  from legal_object [OF assms(3,5) Some] obtain d where d: "map_of (m_ovDataSet ?s) p = Some d"
    and run: "onComplete E recv (cq_socket c) (cq_transferred c) (Some p) ?err ?s = Some s'"
    using assms(6) by metis
  have bal: "sockets_balanced ?s" using assms(7) by (simp add: sockets_balanced_def held_sockets_def)
  show ?thesis
  proof (cases "ov_type d = OVT_CONNECT \<and> ?err \<noteq> 0")
    case True
    then have "s' = deleteOV_DATA E p (deleteProxyConnection E (ov_id d) ?s)"
      using run d by (simp add: onComplete_def onConnectComplete_def)
    moreover have "sockets_balanced (deleteProxyConnection E (ov_id d) ?s)"
      by (rule deleteProxyConnection_balanced [OF bal])
    ultimately show ?thesis by (simp add: deleteOV_DATA_balanced)
  next
    case False
    have ext: "extends no_sockets ?s s'"
      by (rule sockets.ext_onComplete [OF run d])
        (use assms(2) False in \<open>auto simp: no_sockets_def receiver_calls_def\<close>)
    have "held_sockets s' = held_sockets ?s"
    proof (cases "ov_type d = OVT_CONNECT")
      case True
      with False run d show ?thesis by (auto simp: onComplete_def intro: onConnectComplete_held split: if_splits)
    next
      case other: False
      have "connecting s c = {}"
        using other deliver_inv(2) [of "{}" s c p] assms(3,5) Some d
        by (fastforce simp: connecting_def proxy_running_def)
      with worker_body_ok [OF assms(1,3,5) worker_body_defined [OF assms(6)], of E] assms(6) connects_once_first [OF assms(4), of c]
      have "conn_evolves {} s s'" by auto
      from held_evolves [OF this] show ?thesis by (simp add: held_sockets_def)
    qed
    from sockets_ext [OF ext this bal] show ?thesis .
  qed
qed

lemma proxy_step_sockets:
  assumes "receiver_ok recv" "receiver_calls no_sockets recv" "proxy_running s" "connects_once s"
    and "proxy_step E recv s s'" "sockets_balanced s"
  shows "sockets_balanced s'"
  using assms(5)
proof cases
  case (step_complete c)
  from worker_body_sockets [OF assms(1-4) step_complete assms(6)] show ?thesis .
next
  case (step_send buf len ra ralen cid r)
  have "proxy_inv {} s" using assms(3) by (simp add: proxy_running_def)
  from udpSend_ok [OF this step_send(1) udpSend_sendable [OF step_send(2)], of E] step_send(2) have "send_effect cid s s'" by auto
  from held_evolves [OF send_effect_evolves [OF this]] show ?thesis
    by (intro sockets_ext [OF _ _ assms(6)] sockets.ext_udpSend [OF step_send(2)]) simp_all
next
  case (step_create cid)
  then show ?thesis using createProxyConnection_balanced [OF assms(6)] by (simp add: unused_id_def)
next
  case (step_delete cid)
  then show ?thesis using deleteProxyConnection_balanced [OF assms(6)] by simp
qed

lemma UDPProxy_init_sockets:
  assumes "UDPProxy_init E a n user pass s = Some (r, s')" "sockets_balanced s"
  shows "sockets_balanced s'"
proof -
  let ?t = "snd (initExtensions E s)" and ?u = "snd (IOCPService_init E (snd (initExtensions E s)))"
  have t: "sockets_balanced ?t"
    using assms(2) by (simp add: initExtensions_def sys_def emit_eq sockets_balanced_def held_sockets_def Let_def)
  then have u: "sockets_balanced ?u"
    by (simp add: IOCPService_init_def sys_def emit_eq sockets_balanced_def held_sockets_def Attach_def Let_def)
  from assms(1) t u show ?thesis
    by (auto simp: UDPProxy_init_def split_def Let_def bind_eq_Some_conv sockets_balanced_def
        held_sockets_def split: if_splits)
qed

lemma proxy_reach_sockets:
  assumes "receiver_ok recv" "receiver_calls no_sockets recv" "proxy_reach E recv s"
  shows "sockets_balanced s"
  using assms(3)
proof induction
  case (reach_init s n a user pass s')
  then have "sockets_balanced s" by (simp add: proxy_idle_def sockets_balanced_def held_sockets_def)
  from UDPProxy_init_sockets [OF reach_init(5) this] show ?case .
next
  case (reach_step s s')
  from proxy_step_sockets [OF assms(1,2) proxy_reach_inv [OF assms(1) reach_step(1)] reach_step(2,3)]
  show ?case .
qed

lemma held_list:
  "m_sorted m \<Longrightarrow> m_socketMap s = m \<Longrightarrow> held_sockets s = (\<Sum>(c, pd) \<leftarrow> m. conn_sockets pd)"
proof (induction m arbitrary: s)
  case Nil
  then show ?case by (simp add: held_sockets_def)
next
  case (Cons x m)
  obtain k pd where x: "x = (k, pd)" by (cases x)
  have k: "map_of m k = None" "m_sorted m"
    using Cons.prems(1) x by (force simp: m_sorted_def map_of_eq_None_iff)+
  have "map_of (m_socketMap s) = (map_of (m_socketMap (s\<lparr>m_socketMap := m\<rparr>)))(k \<mapsto> pd)"
    using Cons.prems(2) x by simp
  from held_insert [OF this] k(1) have "held_sockets s = held_sockets (s\<lparr>m_socketMap := m\<rparr>) + conn_sockets pd"
    by simp
  with Cons.IH [OF k(2), of "s\<lparr>m_socketMap := m\<rparr>"] x show ?case by simp
qed

lemma free_connections_sockets:
  "opened_sockets (trace (free_connections E m s)) = opened_sockets (trace s)"
  "mset (closed_sockets (trace (free_connections E m s))) =
     mset (closed_sockets (trace s)) + (\<Sum>(c, pd) \<leftarrow> m. conn_sockets pd)"
  by (induction E m s rule: free_connections.induct) (simp_all add: delete_PROXY_DATA_sockets)

lemma UDPProxy_free_closes:
  assumes "sockets_balanced s" "proxy_running s"
  shows "mset (opened_sockets (trace (UDPProxy_free E s))) = mset (closed_sockets (trace (UDPProxy_free E s)))"
proof -
  have "m_sorted (m_socketMap s)" using assms(2) by (simp add: proxy_running_def proxy_inv_def)
  from held_list [OF this refl] have held: "held_sockets s = (\<Sum>(c, pd) \<leftarrow> m_socketMap s. conn_sockets pd)" .
  have "m_socketMap (IOCPService_free E s) = m_socketMap s"
    "opened_sockets (trace (IOCPService_free E s)) = opened_sockets (trace s)"
    "closed_sockets (trace (IOCPService_free E s)) = closed_sockets (trace s)"
    by (simp_all add: IOCPService_free_def Close_def Let_def emit_eq)
  with assms(1) held show ?thesis
    by (simp add: UDPProxy_free_def Let_def free_connections_sockets sockets_balanced_def)
qed

section \<open>Properties\<close>

text \<open>
  No socket leaks and none is closed twice: in every reachable state the sockets opened so far
  are, with multiplicity, the ones closed so far and the two of each connection; and stopping the
  proxy closes all that are left.
\<close>

lemma sockets_accounted:
  assumes "receiver_ok recv" "receiver_calls no_sockets recv" "proxy_reach E recv s"
  shows "mset (opened_sockets (trace s)) = mset (closed_sockets (trace s)) + held_sockets s
    \<and> mset (opened_sockets (trace (UDPProxy_free E s))) = mset (closed_sockets (trace (UDPProxy_free E s)))"
  using proxy_reach_sockets [OF assms] UDPProxy_free_closes [of s E] proxy_reach_inv(1) [OF assms(1,3)]
  by (simp add: sockets_balanced_def)

text \<open>
  The lock discipline. Whatever operation runs, it acquires and releases the two locks in a
  nested way and releases all it took: the critical section is never left locked, never released
  unlocked, and the non-recursive mutex is never taken twice nor while the critical section is held.
\<close>

lemma proxy_lock_discipline:
  assumes "receiver_ok recv" "receiver_calls unlocked_neutral recv" "proxy_reach E recv s"
    and "proxy_step E recv s s'"
  shows "\<exists>tr. trace s' = trace s @ tr \<and> lock_run tr (0, False) = Some (0, False)"
  using proxy_step_locks [OF assms(2) proxy_reach_inv(1) [OF assms(1,3)] assms(4)]
  by (simp add: extends_def unlocked_neutral_def)

end
