(* ===== verification/Udp_Fifo.thy ===== *)
theory Udp_Fifo
  imports Udp_Proxy_Trace
begin

text \<open>
  The contract of a connection as a first-in-first-out channel. \<open>outbox\<close> is the abstract state: the
  datagrams handed to the relay since the connection's socket was opened, followed by the ones that
  wait in its queue, as they will be encoded. Sending appends one datagram at the end, and no
  handler changes, reorders, drops or repeats what is there.
\<close>

section \<open>The abstract channel\<close>

definition sent_step :: "sock \<Rightarrow> bytes list \<Rightarrow> api \<times> u64 \<Rightarrow> bytes list" where
  "sent_step sk acc cr = (case fst cr of
       Net n \<Rightarrow> (case n of
           WSASendTo sk' b a p \<Rightarrow> if sk' = sk then acc @ [b] else acc
         | WSASocket ty \<Rightarrow> if snd cr = sk then [] else acc
         | _ \<Rightarrow> acc)
     | _ \<Rightarrow> acc)"

definition sent_on :: "sock \<Rightarrow> trace \<Rightarrow> bytes list" where
  "sent_on sk tr = foldl (sent_step sk) [] tr"

definition enc_packet :: "UDP_PACKET \<Rightarrow> bytes" where
  "enc_packet p = the (udp_datagram (pk_remoteAddress p) (pk_buffer p))"

definition outbox :: "trace \<Rightarrow> PROXY_DATA \<Rightarrow> bytes list" where
  "outbox tr pd = sent_on (udpSocket pd) tr @ map enc_packet (udpSendPackets pd)"

definition outboxes :: "'a udp_proxy_scheme \<Rightarrow> u64 \<Rightarrow> bytes list option" where
  "outboxes s cid = map_option (outbox (trace s)) (map_of (m_socketMap s) cid)"

section \<open>Operations that send no datagram\<close>

definition no_datagrams :: "trace \<Rightarrow> bool" where
  "no_datagrams tr \<longleftrightarrow> (\<forall>sk acc. foldl (sent_step sk) acc tr = acc)"

interpretation quiet: tcp_monitor no_datagrams
  by unfold_locales
    (auto simp: no_datagrams_def sent_step_def request_call_def split: api.splits net_call.splits)

lemma quiet_sent: "extends no_datagrams s t \<Longrightarrow> sent_on sk (trace t) = sent_on sk (trace s)"
  by (auto simp: extends_def no_datagrams_def sent_on_def)

lemma quiet_outboxes:
  "extends no_datagrams s t \<Longrightarrow> m_socketMap t = m_socketMap s \<Longrightarrow> outboxes t = outboxes s"
  by (rule ext, rename_tac c, case_tac "map_of (m_socketMap s) c") (simp_all add: outboxes_def outbox_def quiet_sent)

lemma outboxes_pd_upd:
  assumes "\<And>pd. udpSocket (f pd) = udpSocket pd \<and> udpSendPackets (f pd) = udpSendPackets pd"
  shows "outboxes (pd_upd cid f s) = outboxes s"
proof (cases "map_of (m_socketMap s) cid")
  case (Some pd)
  show ?thesis
    by (rule ext) (simp add: outboxes_def outbox_def pd_upd_find [OF Some] Some assms)
qed (simp add: pd_upd_def)

section \<open>Sending\<close>

lemma sent_submit:
  "sent_on sk (trace (snd (submit E ok (Net (WSASendTo sk' b a p)) p t))) =
   sent_on sk (trace t) @ (if sk = sk' then [b] else [])"
  by (simp add: submit_def sys_def Let_def sent_on_def sent_step_def)

lemma sent_sys_other:
  "no_datagrams [(c, os E (trace t) c)] \<Longrightarrow> sent_on sk (trace (emit E c t)) = sent_on sk (trace t)"
  by (simp add: emit_eq sent_on_def no_datagrams_def)

lemma sent_locks [simp]: "sent_on sk (trace (emit E (Sync c) t)) = sent_on sk (trace t)"
  by (rule sent_sys_other) (simp add: no_datagrams_def sent_step_def)

definition payload_buffer :: "bytes \<Rightarrow> int \<Rightarrow> bytes \<Rightarrow> bytes option" where
  "payload_buffer buf len ra =
     (if len > 0 then do { b \<leftarrow> memcpy_from buf len; udp_datagram ra b } else None)"

lemma sent_udpSend_connected:
  assumes "udpSend_connected E cid pd buf len ra s = Some (r, s')"
  shows "\<exists>b. payload_buffer buf len ra = Some b \<and>
    (\<forall>sk. sent_on sk (trace s') = sent_on sk (trace s) @ (if sk = udpSocket pd then [b] else []))"
proof -
  let ?p = "next_ov s"
  let ?u = "ov_upd ?p (\<lambda>d. d\<lparr>ov_type := OVT_UDP_SEND, ov_id := cid\<rparr>) (snd (newOV_DATA E s))"
  from assms obtain b where b: "payload_buffer buf len ra = Some b" "b \<noteq> []"
    by (cases "0 < len") (auto simp: udpSend_connected_def payload_buffer_def Let_def split_def bind_eq_Some_conv split: if_splits)
  then obtain x where len: "0 < len" "memcpy_from buf len = Some x" "udp_datagram ra x = Some b"
    by (auto simp: payload_buffer_def bind_eq_Some_conv split: if_splits)
  let ?t = "ov_upd ?p (\<lambda>d. d\<lparr>ov_buffer := b\<rparr>) ?u"
  let ?sub = "submit E (\<lambda>r. r = 0) (Net (WSASendTo (udpSocket pd) b
      (take (nat (pd_remoteAddressLen pd)) (pd_remoteAddress pd)) ?p)) ?p ?t"
  have t: "extends no_datagrams s ?t" by (intro quiet.ext_fields quiet.ext_newOV) simp
  have rest: "extends no_datagrams (snd ?sub) s'"
  proof (cases "fst ?sub")
    case False
    with assms b len have "s' = post_or_delete E (udpSocket pd) ?p
        (ov_upd ?p (\<lambda>d. d\<lparr>ov_type := OVT_UDP_RECEIVE, ov_buffer := []\<rparr>) (snd ?sub))"
      by (simp add: udpSend_connected_def payload_buffer_def Let_def split_def)
    then show ?thesis by (simp add: quiet.ext_post_or_delete quiet.ext_fields)
  next
    case True
    show ?thesis
    proof (cases "udpRecvStarted pd")
      case True
      with \<open>fst ?sub\<close> assms b len have "s' = snd ?sub"
        by (simp add: udpSend_connected_def payload_buffer_def Let_def split_def)
      then show ?thesis by simp
    next
      case False
      let ?v = "pd_upd cid (\<lambda>pd. pd\<lparr>udpRecvStarted := True\<rparr>) (snd ?sub)"
      from False \<open>fst ?sub\<close> assms b len obtain r' where "startUdpReceive E (udpSocket pd) cid None ?v = Some (r', s')"
        by (auto simp: udpSend_connected_def payload_buffer_def Let_def split_def bind_eq_Some_conv)
      then show ?thesis by (rule quiet.ext_startUdpReceive) (simp add: quiet.ext_fields)
    qed
  qed
  have "sent_on sk (trace s') = sent_on sk (trace s) @ (if sk = udpSocket pd then [b] else [])" for sk
    using quiet_sent [OF rest, of sk] quiet_sent [OF t, of sk]
      sent_submit [of sk E "\<lambda>r. r = 0" "udpSocket pd" b _ ?p ?t] by simp
  with b(1) show ?thesis by blast
qed

text \<open>Every connection has a datagram socket and no two share one.\<close>

definition own_sockets :: "'a udp_proxy_scheme \<Rightarrow> bool" where
  "own_sockets s \<longleftrightarrow> (\<forall>c pd. map_of (m_socketMap s) c = Some pd \<longrightarrow> udpSocket pd \<noteq> INVALID_SOCKET \<and>
     (\<forall>c' pd'. map_of (m_socketMap s) c' = Some pd' \<longrightarrow> c \<noteq> c' \<longrightarrow> udpSocket pd \<noteq> udpSocket pd'))"

lemma own_sockets_upd:
  assumes "own_sockets s" "map_of (m_socketMap s) cid = Some pd" "udpSocket pd' = udpSocket pd"
    and "map_of (m_socketMap s') = (map_of (m_socketMap s))(cid \<mapsto> pd')"
  shows "own_sockets s'"
  using assms unfolding own_sockets_def by auto

lemma sent_udpSend:
  assumes "udpSend E cid buf len ra ralen s = Some (r, s')"
    and "map_of (m_socketMap s) cid = Some pd" "proxyState pd = PS_CONNECTED"
  shows "\<exists>b. payload_buffer buf len ra = Some b \<and>
    (\<forall>sk. sent_on sk (trace s') = sent_on sk (trace s) @ (if sk = udpSocket pd then [b] else []))"
proof -
  from assms obtain t where "udpSend_connected E cid pd buf len ra (enter_cs E s) = Some (r, t)"
    and s': "s' = leave_cs E t"
    by (auto simp: udpSend_def Let_def bind_eq_Some_conv)
  from sent_udpSend_connected [OF this(1)] show ?thesis by (simp add: s')
qed

lemma payload_buffer_pos:
  "0 < len \<Longrightarrow> len \<le> int (length buf) \<Longrightarrow> payload_buffer buf len ra = udp_datagram ra (take (nat len) buf)"
  by (simp add: payload_buffer_def memcpy_from_total)

lemma outboxes_eqI:
  assumes "\<And>c. map_option (outbox (trace t)) (map_of (m_socketMap t) c) =
      map_option (outbox (trace s)) (map_of (m_socketMap s) c)"
  shows "outboxes t = outboxes s"
  by (rule ext) (simp add: outboxes_def assms)

text \<open>One turn of the loop: the head of the queue is sent and removed.\<close>

lemma flush_turn:
  assumes inv: "proxy_inv H s" "own_sockets s" and pd: "map_of (m_socketMap s) cid = Some pd"
    "proxyState pd = PS_CONNECTED" "udpSendPackets pd = p # ps"
    and send: "udpSend E cid (pk_buffer p) (int (length (pk_buffer p))) (pk_remoteAddress p)
      (pk_remoteAddressLen p) s = Some (r, t)"
  defines "u \<equiv> pd_upd cid (\<lambda>pd. pd\<lparr>udpSendPackets := tl (udpSendPackets pd)\<rparr>) t"
  shows "proxy_inv H u \<and> own_sockets u \<and> outboxes u = outboxes s \<and>
    (\<exists>pd'. map_of (m_socketMap u) cid = Some pd' \<and> proxyState pd' = PS_CONNECTED)"
proof -
  have p: "pk_ok p" using proxy_inv_pd [OF inv(1) pd(1)] pd(3) by (simp add: pd_ok_def)
  have args: "send_args_ok (pk_buffer p) (int (length (pk_buffer p))) (pk_remoteAddress p) (pk_remoteAddressLen p)"
    using p by (auto simp: send_args_ok_def addr_readable_def pk_ok_def NF_MAX_ADDRESS_LENGTH_def)
  have t: "proxy_inv H t" "send_effect cid s t"
    using udpSend_ok [OF inv(1) args udpSend_sendable [OF send], of E] send by auto
  then obtain pd1 where pd1: "map_of (m_socketMap t) = (map_of (m_socketMap s))(cid \<mapsto> pd1)"
    "pd1 \<in> {pd, pd\<lparr>udpRecvStarted := True\<rparr>}"
    using pd(1,2) by (auto simp: send_effect_def)
  let ?pd2 = "pd1\<lparr>udpSendPackets := ps\<rparr>"
  have u: "map_of (m_socketMap u) = (map_of (m_socketMap s))(cid \<mapsto> ?pd2)"
    using pd1 pd(3) by (auto simp: u_def pd_upd_find)
  have sk: "udpSocket ?pd2 = udpSocket pd" "udpSendPackets pd = p # udpSendPackets ?pd2" "proxyState ?pd2 = PS_CONNECTED"
    using pd1(2) pd by auto
  have enc: "payload_buffer (pk_buffer p) (int (length (pk_buffer p))) (pk_remoteAddress p) = Some (enc_packet p)"
    using p udp_datagram_total [of "pk_remoteAddress p" "pk_buffer p"]
    by (auto simp: payload_buffer_pos pk_ok_def enc_packet_def addr_readable_def NF_MAX_ADDRESS_LENGTH_def)
  have sent: "sent_on k (trace u) = sent_on k (trace s) @ (if k = udpSocket pd then [enc_packet p] else [])" for k
    using sent_udpSend [OF send pd(1,2)] enc by (simp add: u_def)
  have "outboxes u = outboxes s"
  proof (rule outboxes_eqI)
    fix c
    show "map_option (outbox (trace u)) (map_of (m_socketMap u) c) =
        map_option (outbox (trace s)) (map_of (m_socketMap s) c)"
    proof (cases "c = cid")
      case True
      then show ?thesis by (simp add: u pd(1) outbox_def sk sent)
    next
      case False
      then show ?thesis
        using inv(2) pd(1) by (cases "map_of (m_socketMap s) c") (auto simp: u outbox_def sent own_sockets_def)
    qed
  qed
  moreover have "proxy_inv H u"
    unfolding u_def using t(1) by (rule pd_upd_inv) (auto simp: pd_ok_def dest: in_set_tlD)
  moreover have "own_sockets u" by (rule own_sockets_upd [OF inv(2) pd(1) sk(1) u])
  ultimately show ?thesis using u sk(3) by simp
qed

lemma flush_outboxes:
  assumes "flush_packets E cid s = Some s'" "proxy_inv H s" "own_sockets s"
    and "map_of (m_socketMap s) cid = Some pd" "proxyState pd = PS_CONNECTED"
  shows "outboxes s' = outboxes s"
proof -
  have "proxy_inv H s \<and> own_sockets s \<and>
      (\<exists>pd. map_of (m_socketMap s) cid = Some pd \<and> proxyState pd = PS_CONNECTED) \<longrightarrow> outboxes s' = outboxes s"
    using assms(1)
  proof (induction rule: flush_packets_induct)
    case (send s pd p ps r t s')
    show ?case
    proof (intro impI, elim conjE exE)
      fix pd' assume a: "proxy_inv H s" "own_sockets s"
        "map_of (m_socketMap s) cid = Some pd'" "proxyState pd' = PS_CONNECTED"
      then have "proxyState pd = PS_CONNECTED" using send(1) by simp
      from flush_turn [OF a(1,2) send(1) this send(2,3)] send(4) show "outboxes s' = outboxes s" by auto
    qed
  qed simp
  with assms(2-5) show ?thesis by blast
qed

section \<open>Completions\<close>

lemma set_state_outboxes: "outboxes (set_state cid st s) = outboxes s"
  unfolding set_state_def by (rule outboxes_pd_upd) simp

lemma send_and_advance_outboxes: "outboxes (send_and_advance E cid pd msg st s) = outboxes s"
proof -
  let ?t = "snd (startTcpSend E (tcpSocket pd) msg cid s)"
  have "outboxes ?t = outboxes s" by (rule quiet_outboxes [OF quiet.ext_startTcpSend]) simp_all
  then show ?thesis by (simp add: send_and_advance_def split_def Let_def set_state_outboxes)
qed

lemma emit_outboxes:
  "no_datagrams [(c, os E (trace s) c)] \<Longrightarrow> outboxes (emit E c s) = outboxes s"
  by (rule quiet_outboxes [OF quiet.ext_call [where t = s]]) (simp_all add: emit_eq)

lemma locks_outboxes [simp]: "outboxes (emit E (Sync c) s) = outboxes s"
  by (rule emit_outboxes) (simp add: no_datagrams_def sent_step_def)

lemma deleteOV_outboxes [simp]: "outboxes (deleteOV_DATA E p s) = outboxes s"
  by (rule quiet_outboxes [OF quiet.ext_deleteOV]) simp_all

lemma own_sockets_same: "m_socketMap t = m_socketMap s \<Longrightarrow> own_sockets t = own_sockets s"
  by (simp add: own_sockets_def)

lemma tcp_reply_outboxes:
  assumes "tcp_reply E cid pd n buf s = Some s'" "proxy_inv H s" "own_sockets s"
    and pd: "map_of (m_socketMap s) cid = Some pd"
  shows "outboxes s' = outboxes s"
proof (cases "proxyState pd = PS_UDP_ASSOC")
  case False
  then show ?thesis using assms(1)
    by (cases "proxyState pd")
      (auto simp: tcp_reply_def reply_auth_def reply_auth_negotiation_def bind_eq_Some_conv
        send_and_advance_outboxes split: if_splits)
next
  case True
  show ?thesis
  proof (cases "s' = s")
    case False
    with True assms(1) obtain a ra where a: "wrn 0 a (pd_remoteAddress pd) = Some ra"
      and run: "flush_packets E cid (set_state cid PS_CONNECTED (pd_upd cid
        (\<lambda>pd. pd\<lparr>pd_remoteAddress := ra, pd_remoteAddressLen := int (length a)\<rparr>) s)) = Some s'"
      by (auto simp: tcp_reply_def reply_udp_assoc_def bind_eq_Some_conv Let_def split: if_splits option.splits)
    let ?f = "\<lambda>pd. pd\<lparr>pd_remoteAddress := ra, pd_remoteAddressLen := int (length a)\<rparr>"
    let ?t = "set_state cid PS_CONNECTED (pd_upd cid ?f s)"
    have find: "map_of (m_socketMap ?t) = (map_of (m_socketMap s))(cid \<mapsto> (?f pd)\<lparr>proxyState := PS_CONNECTED\<rparr>)"
      using pd by (simp add: set_state_def pd_upd_find)
    have "proxy_inv H (pd_upd cid ?f s)"
      using assms(2) by (rule pd_upd_inv) (use a proxy_inv_pd [OF assms(2) pd] in \<open>auto simp: pd_ok_def dest: wrn_length\<close>)
    then have "proxy_inv H ?t" by (rule set_state_inv)
    moreover have "own_sockets ?t" by (rule own_sockets_upd [OF assms(3) pd _ find]) simp
    ultimately have "outboxes s' = outboxes ?t"
      by (rule flush_outboxes [OF run]) (use find in auto)
    also have "\<dots> = outboxes s" by (simp add: set_state_outboxes outboxes_pd_upd)
    finally show ?thesis .
  qed simp
qed

lemma onTcpReceiveComplete_outboxes:
  assumes "onTcpReceiveComplete E sk n p err s = Some s'" "proxy_inv H s" "own_sockets s"
  shows "outboxes s' = outboxes s"
proof (cases "n = 0")
  case False
  with assms(1) obtain d v i r where
    v: "(case map_of (m_socketMap s) (ov_id (d :: OV_DATA)) of None \<Rightarrow> Some (enter_cs E s)
       | Some pd \<Rightarrow> tcp_reply E (ov_id d) pd n (ov_buffer d) (enter_cs E s)) = Some v"
    and u: "startTcpReceive E sk i (Some p) (leave_cs E v) = Some (r, s')"
    unfolding onTcpReceiveComplete_def Let_def by (simp add: bind_eq_Some_conv split_paired_Ex) blast
  have "outboxes v = outboxes s"
  proof (cases "map_of (m_socketMap s) (ov_id d)")
    case (Some pd)
    have "proxy_inv H (enter_cs E s)" "own_sockets (enter_cs E s)" "map_of (m_socketMap (enter_cs E s)) (ov_id d) = Some pd"
      using assms Some by (simp_all add: own_sockets_def)
    from tcp_reply_outboxes [OF _ this, of E n "ov_buffer d" v] v Some show ?thesis by simp
  qed (use v in auto)
  moreover have "outboxes s' = outboxes (leave_cs E v)"
    by (rule quiet_outboxes [OF quiet.ext_startTcpReceive [OF u] startTcpReceive_map [OF u]]) simp
  ultimately show ?thesis by simp
qed (use assms(1) in \<open>auto simp: onTcpReceiveComplete_def\<close>)

lemma onConnectComplete_outboxes:
  assumes "onConnectComplete E sk n p 0 s = Some s'"
  shows "outboxes s' = outboxes s"
proof -
  from assms obtain d where d: "map_of (m_ovDataSet s) p = Some d"
    by (auto simp: onConnectComplete_def bind_eq_Some_conv)
  show ?thesis
  proof (cases "map_of (m_socketMap s) (ov_id d)")
    case None
    with assms d show ?thesis by (auto simp: onConnectComplete_def Let_def)
  next
    case (Some pd)
    let ?v = "emit E (Net (SetSockOpt sk)) (emit E (Net (SetSockOpt sk)) (enter_cs E s))"
    let ?w = "send_and_advance E (ov_id d) pd (greeting pd) PS_AUTH ?v"
    from Some assms d obtain r t where t: "startTcpReceive E (tcpSocket pd) (ov_id d) None ?w = Some (r, t)"
      and s': "s' = leave_cs E (deleteOV_DATA E p t)"
      by (auto simp: onConnectComplete_def Let_def bind_eq_Some_conv)
    have "outboxes t = outboxes ?w"
      by (rule quiet_outboxes [OF quiet.ext_startTcpReceive [OF t] startTcpReceive_map [OF t]]) simp
    also have "\<dots> = outboxes s"
      by (simp add: send_and_advance_outboxes emit_outboxes no_datagrams_def sent_step_def)
    finally show ?thesis by (simp add: s')
  qed
qed

lemma quiet_delete_PROXY_DATA: "extends no_datagrams s (delete_PROXY_DATA E pd s)"
  by (auto simp: delete_PROXY_DATA_def extends_def emit_eq no_datagrams_def sent_step_def Let_def)

lemma deleteProxyConnection_outboxes:
  "outboxes (deleteProxyConnection E cid s) = (outboxes s)(cid := None)"
proof -
  have "extends no_datagrams s (deleteProxyConnection E cid s)"
    unfolding deleteProxyConnection_def Let_def
    by (rule quiet.ext_section) (auto split: option.split intro!: quiet.ext_fields quiet_delete_PROXY_DATA)
  from quiet_sent [OF this] have "outbox (trace (deleteProxyConnection E cid s)) = outbox (trace s)"
    by (intro ext) (simp add: outbox_def)
  then show ?thesis by (intro ext) (simp add: outboxes_def)
qed

lemma startUdpReceive_map:
  "startUdpReceive E sk cid pov s = Some (r, s') \<Longrightarrow> m_socketMap s' = m_socketMap s"
  by (cases pov) (auto simp: startUdpReceive_def split_def Let_def bind_eq_Some_conv)

lemma receiver_map: "receiver_ok recv \<Longrightarrow> recv cid b l a al s = Some s' \<Longrightarrow> m_socketMap s' = m_socketMap s"
  unfolding receiver_ok_def proxy_data_def by (metis option.inject prod.inject)

lemma onUdpReceiveComplete_outboxes:
  assumes "onUdpReceiveComplete E recv sk n p err s = Some s'" "receiver_ok recv" "receiver_calls no_datagrams recv"
  shows "outboxes s' = outboxes s"
proof (rule quiet_outboxes)
  show "extends no_datagrams s s'"
    by (rule quiet.ext_onUdpReceiveComplete [OF assms(1)])
      (use assms(3) quiet.good_append in \<open>auto simp: receiver_calls_def\<close>)
  show "m_socketMap s' = m_socketMap s"
    using assms(1) by (auto simp: onUdpReceiveComplete_def Let_def bind_eq_Some_conv split: if_splits
        dest!: startUdpReceive_map receiver_map [OF assms(2)])
qed

lemma onComplete_outboxes:
  assumes "onComplete E recv sk n (Some p) err s = Some s'" "proxy_inv H s" "own_sockets s"
    and recv: "receiver_ok recv" "receiver_calls no_datagrams recv"
    and d: "map_of (m_ovDataSet s) p = Some d"
  shows "outboxes s' = (if ov_type d = OVT_CONNECT \<and> err \<noteq> 0 then (outboxes s)(ov_id d := None) else outboxes s)"
proof -
  show ?thesis
  proof (cases "ov_type d")
    case OVT_CONNECT
    show ?thesis
    proof (cases "err = 0")
      case True
      then have "onConnectComplete E sk n p 0 s = Some s'"
        using OVT_CONNECT assms(1) d by (simp add: onComplete_def)
      from onConnectComplete_outboxes [OF this] True show ?thesis by simp
    next
      case False
      then have "s' = deleteOV_DATA E p (deleteProxyConnection E (ov_id d) s)"
        using OVT_CONNECT assms(1) d by (simp add: onComplete_def onConnectComplete_def)
      with OVT_CONNECT False show ?thesis by (simp add: deleteProxyConnection_outboxes)
    qed
  next
    case OVT_UDP_RECEIVE
    with assms(1) d onUdpReceiveComplete_outboxes [OF _ recv] show ?thesis by (simp add: onComplete_def)
  next
    case OVT_TCP_RECEIVE
    with assms(1) d onTcpReceiveComplete_outboxes [OF _ assms(2,3)] show ?thesis by (simp add: onComplete_def)
  qed (use assms(1) d in \<open>auto simp: onComplete_def onTcpSendComplete_def onUdpSendComplete_def\<close>)
qed

section \<open>Opening a connection\<close>

text \<open>
  Winsock does not hand out the handle of a socket that is open.
\<close>

definition fresh_sockets :: "env \<Rightarrow> bool" where
  "fresh_sockets E \<longleftrightarrow> (\<forall>tr ty. let sk = os E tr (Net (WSASocket ty)) in
     sk = INVALID_SOCKET \<or> sk \<notin># mset (opened_sockets tr) - mset (closed_sockets tr))"

lemma held_member:
  assumes "map_of (m_socketMap s) c = Some pd" "udpSocket pd \<noteq> INVALID_SOCKET"
  shows "udpSocket pd \<in># held_sockets s"
proof -
  have "held_sockets s = held_sockets (s\<lparr>m_socketMap := m_erase c (m_socketMap s)\<rparr>) + conn_sockets pd"
    using held_erase [of "s\<lparr>m_socketMap := m_erase c (m_socketMap s)\<rparr>" s c] assms(1) by simp
  then show ?thesis using assms(2) by (simp add: conn_sockets_def)
qed

lemma own_sockets_evolves: "conn_evolves B s s' \<Longrightarrow> own_sockets s \<Longrightarrow> own_sockets s'"
  unfolding conn_evolves_def pd_step_def own_sockets_def by metis

lemma fresh_socket_other:
  assumes "fresh_sockets E" "map_of (m_socketMap s) c = Some pd" "udpSocket pd \<noteq> INVALID_SOCKET"
    and "held_sockets s \<subseteq># mset (opened_sockets tr) - mset (closed_sockets tr)"
  shows "os E tr (Net (WSASocket ty)) \<noteq> udpSocket pd"
  using assms(1) mset_subset_eqD [OF assms(4) held_member [OF assms(2,3)]] assms(3)
  unfolding fresh_sockets_def Let_def by metis

lemma sent_sys_socket:
  "sent_on sk (trace (snd (sys E (Net (WSASocket ty)) s))) =
   (if os E (trace s) (Net (WSASocket ty)) = sk then [] else sent_on sk (trace s))"
  by (simp add: sys_snd sent_on_def sent_step_def)

lemma connection_start_quiet: "extends no_datagrams t (snd (connection_start E cid tcp udp t))"
proof -
  have reg: "extends no_datagrams t (snd (registerSocket E sk u))" if "extends no_datagrams t u"
    for sk and u :: "'a udp_proxy_scheme"
    by (rule quiet.ext_call [OF _ _ that, of "Net (CreateIoCompletionPort sk (m_hIOCP u) sk)"])
      (simp_all add: no_datagrams_def sent_step_def registerSocket_def sys_snd split_def Let_def)
  show ?thesis by (simp add: connection_start_def split_def Let_def reg quiet.ext_startConnect)
qed

lemma connection_start_map: "m_socketMap (snd (connection_start E cid tcp udp t)) = m_socketMap t"
  by (simp add: connection_start_def split_def Let_def)

text \<open>What creation does to the table and to the datagrams on the sockets of the others.\<close>

lemma createProxyConnection_channel:
  assumes "fresh_sockets E" "sockets_balanced s" "own_sockets s" "map_of (m_socketMap s) cid = None"
  defines "s' \<equiv> snd (createProxyConnection E cid s)"
  shows "own_sockets s'"
    and "outboxes s' = (if fst (createProxyConnection E cid s) then (outboxes s)(cid \<mapsto> []) else outboxes s)"
proof -
  let ?t1 = "snd (sys E (Net (WSASocket SOCK_STREAM)) s)"
  let ?tcp = "fst (sys E (Net (WSASocket SOCK_STREAM)) s)"
  let ?t2 = "snd (sys E (Net (WSASocket SOCK_DGRAM)) ?t1)"
  let ?udp = "fst (sys E (Net (WSASocket SOCK_DGRAM)) ?t1)"
  let ?fc = "fresh_connection E s"
  let ?t3 = "leave_cs E ((enter_cs E ?t2)\<lparr>m_socketMap := m_insert cid ?fc (m_socketMap s)\<rparr>)"
  let ?t4 = "connection_start E cid ?tcp ?udp ?t3"
  have open1: "mset (opened_sockets (trace s)) - mset (closed_sockets (trace s)) = held_sockets s"
    using assms(2) by (simp add: sockets_balanced_def)
  have open2: "held_sockets s \<subseteq># mset (opened_sockets (trace ?t1)) - mset (closed_sockets (trace ?t1))"
    using assms(2) by (simp add: sys_snd sockets_balanced_def)
  have others: "?tcp \<noteq> udpSocket pd \<and> ?udp \<noteq> udpSocket pd" if "map_of (m_socketMap s) c = Some pd" for c pd
    using that assms(3) open1 open2 fresh_socket_other [OF assms(1) that, of "trace s" SOCK_STREAM]
      fresh_socket_other [OF assms(1) that, of "trace ?t1" SOCK_DGRAM]
    by (auto simp: own_sockets_def)
  have fc: "udpSocket ?fc = ?udp" by (simp add: fresh_connection_def split_def Let_def)
  have sent2: "sent_on k (trace ?t2) = (if k = ?udp then [] else if k = ?tcp then [] else sent_on k (trace s))" for k
    unfolding sent_sys_socket by simp
  have "outbox (trace ?t2) pd = outbox (trace s) pd" if "map_of (m_socketMap s) c = Some pd" for c pd
    using others [OF that] by (auto simp: outbox_def sent2 simp del: sys_fst)
  then have box2: "outboxes ?t2 = outboxes s"
    by (intro outboxes_eqI) (simp add: map_option_case split: option.split)
  have box1: "outboxes ?t1 = outboxes s"
  proof (rule outboxes_eqI)
    fix c show "map_option (outbox (trace ?t1)) (map_of (m_socketMap ?t1) c) =
        map_option (outbox (trace s)) (map_of (m_socketMap s) c)"
      using others by (cases "map_of (m_socketMap s) c") (auto simp: outbox_def sent_sys_socket)
  qed
  have box3: "outboxes ?t3 = (outboxes s)(cid \<mapsto> [])"
  proof
    fix c show "outboxes ?t3 c = ((outboxes s)(cid \<mapsto> [])) c"
      using fun_cong [OF box2, of c]
      by (cases "map_of (m_socketMap s) c") (simp_all add: outboxes_def outbox_def fc sent2 del: sys_fst)
  qed
  have box4: "outboxes (snd ?t4) = (outboxes s)(cid \<mapsto> [])"
    using quiet_outboxes [OF connection_start_quiet [of ?t3 E cid ?tcp ?udp] connection_start_map] box3 by simp
  have del: "outboxes (deleteProxyConnection E cid (snd ?t4)) = outboxes s"
    using assms(4) unfolding deleteProxyConnection_outboxes box4 by (simp add: outboxes_def fun_upd_idem)
  have close: "outboxes (emit E (Net (Closesocket ?tcp)) ?t2) = outboxes s"
    by (simp add: emit_outboxes no_datagrams_def sent_step_def box2 del: sys_fst)
  show "outboxes s' = (if fst (createProxyConnection E cid s) then (outboxes s)(cid \<mapsto> []) else outboxes s)"
    unfolding s'_def createProxyConnection_cases using box1 box4 del close by simp
  have own3: "own_sockets ?t3" if "?udp \<noteq> INVALID_SOCKET"
    using assms(3,4) others that fc by (simp add: own_sockets_def del: sys_fst) metis
  have own4: "own_sockets (snd ?t4)" if "?udp \<noteq> INVALID_SOCKET"
    using own3 [OF that] own_sockets_same [OF connection_start_map] by blast
  have "own_sockets (deleteProxyConnection E cid (snd ?t4))"
  proof -
    have "map_of (m_socketMap (deleteProxyConnection E cid (snd ?t4))) = map_of (m_socketMap s)"
      using assms(4) by (simp add: connection_start_map fun_upd_idem)
    then show ?thesis using assms(3) by (simp add: own_sockets_def)
  qed
  moreover have "own_sockets ?t1" "own_sockets (emit E (Net (Closesocket ?tcp)) ?t2)"
    using assms(3) by (simp_all add: own_sockets_def)
  ultimately show "own_sockets s'"
    unfolding s'_def createProxyConnection_cases using own4 by simp
qed

section \<open>The channel is a queue\<close>

text \<open>The address bytes a send passes cover the fields the encoder reads.\<close>

definition full_address :: "bytes \<Rightarrow> int \<Rightarrow> bool" where
  "full_address ra ralen \<longleftrightarrow> (if sa_family ra = Some AF_INET then 8 else 24) \<le> ralen"

lemma udp_datagram_append:
  assumes "(if sa_family a = Some AF_INET then 8 else 24) \<le> length a"
  shows "udp_datagram (a @ x) payload = udp_datagram a payload"
proof -
  have "8 \<le> length a" using assms by (simp split: if_splits)
  then have eq: "sa_family (a @ x) = sa_family a" "sin_port (a @ x) = sin_port a" "sin_addr (a @ x) = sin_addr a"
    by (simp_all add: sa_family_def sin_port_def sin_addr_def mem_simps)
  have "sin6_addr (a @ x) = sin6_addr a" if "sa_family a \<noteq> Some AF_INET"
    using assms that by (simp add: sin6_addr_def mem_simps)
  then show ?thesis using \<open>8 \<le> length a\<close> by (cases "sa_family a") (auto simp: udp_datagram_def eq)
qed

lemma enc_new_packet:
  assumes "send_args_ok buf len ra ralen" "0 < len" "full_address ra ralen"
    and "new_UDP_PACKET buf len ra ralen = Some p"
  shows "udp_datagram ra (take (nat len) buf) = Some (enc_packet p)"
proof -
  let ?a = "take (nat ralen) ra"
  have len: "8 \<le> length ?a" "length ?a = nat ralen"
    using assms(1-3) by (auto simp: send_args_ok_def full_address_def split: if_splits)
  have "sa_family (?a @ drop (nat ralen) ra) = sa_family ?a"
    unfolding sa_family_def by (rule rd_append(2)) (use len in simp)
  then have fam: "sa_family ?a = sa_family ra" by simp
  have cover: "(if sa_family ?a = Some AF_INET then 8 else 24) \<le> length ?a"
    using assms(3) len by (auto simp: full_address_def fam split: if_splits)
  from assms obtain x where "pk_remoteAddress p = ?a @ x" "pk_buffer p = take (nat len) buf"
    by (auto simp: new_UDP_PACKET_def send_args_ok_def memcpy_from_total wrn_def bind_eq_Some_conv split: if_splits)
  then have "udp_datagram (pk_remoteAddress p) (pk_buffer p) = udp_datagram ?a (take (nat len) buf)"
    by (simp add: udp_datagram_append [OF cover])
  also have "\<dots> = udp_datagram ra (take (nat len) buf)"
    using udp_datagram_append [OF cover, of "drop (nat ralen) ra"] by simp
  moreover have "udp_datagram ra (take (nat len) buf) \<noteq> None"
    using assms(1,2) udp_datagram_total [of ra] by (auto simp: send_args_ok_def)
  ultimately show ?thesis unfolding enc_packet_def by (metis option.collapse)
qed

lemma outboxes_append:
  assumes "own_sockets s" "map_of (m_socketMap s) cid = Some pd"
    and "map_of (m_socketMap s') = (map_of (m_socketMap s))(cid \<mapsto> pd')"
    and "outbox (trace s') pd' = outbox (trace s) pd @ ds"
    and "\<And>k. k \<noteq> udpSocket pd \<Longrightarrow> sent_on k (trace s') = sent_on k (trace s)"
  shows "outboxes s' = (outboxes s)(cid \<mapsto> the (outboxes s cid) @ ds)"
proof
  fix c
  show "outboxes s' c = ((outboxes s)(cid \<mapsto> the (outboxes s cid) @ ds)) c"
  proof (cases "c = cid")
    case False
    have "outbox (trace s') q = outbox (trace s) q" if "map_of (m_socketMap s) c = Some q" for q
      using assms(1,2,5) that False unfolding own_sockets_def outbox_def by metis
    with False show ?thesis
      by (cases "map_of (m_socketMap s) c") (simp_all add: outboxes_def assms(3))
  qed (simp add: outboxes_def assms(2-4))
qed

text \<open>What a send adds to a queue: the encapsulated datagram, or nothing for an empty one.\<close>

definition queued :: "bytes \<Rightarrow> bytes \<Rightarrow> int \<Rightarrow> bytes list" where
  "queued ra buf len = (if 0 < len then [the (udp_datagram ra (take (nat len) buf))] else [])"

lemma udpSend_outboxes:
  assumes "udpSend E cid buf len ra ralen s = Some (r, s')" "proxy_inv H s" "own_sockets s"
    and args: "send_args_ok buf len ra ralen"
    and pd: "map_of (m_socketMap s) cid = Some pd" "proxyState pd = PS_CONNECTED \<longrightarrow> udpSendPackets pd = []"
  shows "\<exists>ds. outboxes s' = (outboxes s)(cid \<mapsto> the (outboxes s cid) @ ds) \<and>
    (full_address ra ralen \<longrightarrow> ds = queued ra buf len)"
proof (cases "proxyState pd = PS_CONNECTED")
  case True
  from udpSend_ok [OF assms(2) args udpSend_sendable [OF assms(1)], of E] assms(1) have "send_effect cid s s'" by auto
  then obtain pd' where pd': "map_of (m_socketMap s') = (map_of (m_socketMap s))(cid \<mapsto> pd')"
    "pd' \<in> {pd, pd\<lparr>udpRecvStarted := True\<rparr>}"
    using pd(1) True by (auto simp: send_effect_def)
  from sent_udpSend [OF assms(1) pd(1) True] obtain b where b: "payload_buffer buf len ra = Some b"
    "\<And>sk. sent_on sk (trace s') = sent_on sk (trace s) @ (if sk = udpSocket pd then [b] else [])"
    by blast
  have "outboxes s' = (outboxes s)(cid \<mapsto> the (outboxes s cid) @ [b])"
    by (rule outboxes_append [OF assms(3) pd(1) pd'(1)])
      (use pd' pd True b in \<open>auto simp: outbox_def\<close>)
  moreover have "queued ra buf len = [b]"
    using args b(1) by (cases "0 < len") (auto simp: send_args_ok_def memcpy_from_total queued_def payload_buffer_def)
  ultimately show ?thesis by (intro exI [of _ "[b]"]) simp
next
  case False
  show ?thesis
  proof (cases "0 < len")
    case True
    from new_UDP_PACKET_ok [OF args True] obtain p where p: "new_UDP_PACKET buf len ra ralen = Some p" by blast
    let ?f = "\<lambda>pd. pd\<lparr>udpSendPackets := udpSendPackets pd @ [p]\<rparr>"
    have s': "s' = leave_cs E (pd_upd cid ?f (enter_cs E s))"
      using assms(1) pd(1) False True p by (simp add: udpSend_def Let_def)
    have "outboxes s' = (outboxes s)(cid \<mapsto> the (outboxes s cid) @ [enc_packet p])"
      by (rule outboxes_append [OF assms(3) pd(1), of s' "?f pd"])
        (use pd in \<open>simp_all add: s' pd_upd_find outbox_def\<close>)
    moreover have "queued ra buf len = [enc_packet p]" if "full_address ra ralen"
      using enc_new_packet [OF args True that p] True by (simp add: queued_def)
    ultimately show ?thesis by (intro exI [of _ "[enc_packet p]"]) simp
  next
    case len: False
    then have "s' = leave_cs E (enter_cs E s)"
      using assms(1) pd(1) False by (simp add: udpSend_def Let_def)
    then have "outboxes s' = (outboxes s)(cid \<mapsto> the (outboxes s cid) @ [])"
      using pd(1) by (simp add: outboxes_def fun_upd_idem)
    then show ?thesis using len by (intro exI [of _ "[]"]) (simp add: queued_def)
  qed
qed

text \<open>No step of the proxy lets two connections share a datagram socket.\<close>

lemma proxy_step_own:
  assumes recv: "receiver_ok recv" and "fresh_sockets E"
    and inv: "proxy_running s" "connects_once s" "sockets_balanced s" "own_sockets s"
    and step: "proxy_step E recv s s'"
  shows "own_sockets s'"
  using step
proof cases
  case (step_complete c)
  have "conn_evolves (connecting s c) s s'"
    using worker_body_ok [OF recv inv(1) step_complete(1) worker_body_defined [OF step_complete(2)], of E]
      step_complete(2) connects_once_first [OF inv(2)] by auto
  then show ?thesis using inv(4) by (rule own_sockets_evolves)
next
  case (step_send buf len ra ralen cid r)
  have "proxy_inv {} s" using inv(1) by (simp add: proxy_running_def)
  from udpSend_ok [OF this step_send(1) udpSend_sendable [OF step_send(2)], of E] step_send(2)
  have "send_effect cid s s'" by auto
  then show ?thesis by (rule own_sockets_evolves [OF send_effect_evolves inv(4)])
next
  case (step_create cid)
  then have "map_of (m_socketMap s) cid = None" by (simp add: unused_id_def)
  with createProxyConnection_channel(1) [OF assms(2) inv(3,4)] step_create(1) show ?thesis by simp
next
  case (step_delete cid)
  then show ?thesis using inv(4) by (auto simp: own_sockets_def)
qed

lemma proxy_reach_own:
  assumes "receiver_ok recv" "receiver_calls no_sockets recv" "fresh_sockets E" "proxy_reach E recv s"
  shows "own_sockets s"
  using assms(4)
proof induction
  case (reach_init s n a user pass s')
  from UDPProxy_init_ok [OF reach_init(1-4), of E user pass] reach_init(5) have "m_socketMap s' = []" by auto
  then show ?case by (simp add: own_sockets_def)
next
  case (reach_step s s')
  from proxy_step_own [OF assms(1,3) proxy_reach_inv [OF assms(1) reach_step(1)]
      proxy_reach_sockets [OF assms(1,2) reach_step(1)] reach_step(3,2)]
  show ?case by simp
qed

lemma ignore_datagram_calls: "P [] \<Longrightarrow> receiver_calls P ignore_datagram"
  by (simp add: receiver_calls_def ignore_datagram_def extends_def)

text \<open>
  For closed examples: the platform of the earlier example, except that it refuses a socket rather
  than hand out an open one.
\<close>

definition fresh_env :: env where
  "fresh_env = example_env\<lparr>os := \<lambda>tr c. case c of
     Net (WSASocket ty) \<Rightarrow> (let sk = os example_env tr c in
        if sk \<in># mset (opened_sockets tr) - mset (closed_sockets tr) then INVALID_SOCKET else sk)
   | _ \<Rightarrow> os example_env tr c\<rparr>"

lemma fresh_env_ok: "fresh_sockets fresh_env"
  by (simp add: fresh_sockets_def fresh_env_def Let_def)

section \<open>Properties\<close>

text \<open>
  Sending a datagram to an endpoint that has a connection appends exactly its SOCKS5 encoding to
  the endpoint's queue, or nothing when it is empty, and touches no other queue, whether the
  association is established or not.
\<close>

lemma udpSend_appends:
  assumes "receiver_ok recv" "receiver_calls no_sockets recv" "fresh_sockets E" "proxy_reach E recv s"
    and "send_args_ok buf len ra ralen" "full_address ra ralen"
    and "outboxes s cid = Some ds" "udpSend E cid buf len ra ralen s = Some (r, s')"
  shows "outboxes s' = (outboxes s)(cid \<mapsto> ds @ queued ra buf len)"
proof -
  note inv = proxy_reach_inv [OF assms(1,4)]
  have pinv: "proxy_inv {} s" using inv(1) by (simp add: proxy_running_def)
  obtain pd where pd: "map_of (m_socketMap s) cid = Some pd" using assms(7) by (auto simp: outboxes_def)
  have "pd_settled pd" using inv(2) pd by (auto simp: connects_once_def)
  then have "proxyState pd = PS_CONNECTED \<longrightarrow> udpSendPackets pd = []" by (simp add: pd_settled_def)
  from udpSend_outboxes [OF assms(8) pinv proxy_reach_own [OF assms(1-4)] assms(5) pd this] assms(6,7)
  show ?thesis by auto
qed

end
