(* ===== verification/Udp_Conversation.thy ===== *)
theory Udp_Conversation
  imports Udp_Fifo
begin

text \<open>
  The whole SOCKS5 conversation of \<open>UDPProxy.cpp\<close>: what the handlers of the separate completions
  achieve together when the proxy answers as the protocol says. \<open>conversation\<close> delivers the proxy's
  answers one after the other to the connection's receive request.
\<close>

section \<open>Answers\<close>

definition answer :: "sock \<Rightarrow> ovp \<Rightarrow> bytes \<Rightarrow> completion" where
  "answer sk p b = \<lparr>cq_ok = True, cq_socket = sk, cq_transferred = word_of_nat (length b),
     cq_overlapped = Some p, cq_error = 0, cq_data = b, cq_stop = False\<rparr>"

fun conversation :: "env \<Rightarrow> 'a udp_proxy_scheme recv_fun \<Rightarrow> sock \<Rightarrow> ovp \<Rightarrow> bytes list \<Rightarrow>
    'a udp_proxy_scheme \<Rightarrow> 'a udp_proxy_scheme option" where
  "conversation E recv sk p [] s = Some s"
| "conversation E recv sk p (b # bs) s =
     Option.bind (worker_body (onComplete E recv) (answer sk p b) (deliver (answer sk p b) s)) (conversation E recv sk p bs)"

text \<open>\<open>awaits s cid p\<close>: the receive request \<open>p\<close> of the connection is pending, with its buffer.\<close>

definition awaits :: "'a udp_proxy_scheme \<Rightarrow> u64 \<Rightarrow> ovp \<Rightarrow> bool" where
  "awaits s cid p \<longleftrightarrow> p \<in> set (inflight s) \<and> (\<exists>d. map_of (m_ovDataSet s) p = Some d \<and>
     ov_type d = OVT_TCP_RECEIVE \<and> ov_id d = cid \<and> length (ov_buffer d) = PACKET_SIZE)"

text \<open>The platform accepts what is sent to and requested from the proxy's TCP connection.\<close>

definition accepts_tcp :: "env \<Rightarrow> bool" where
  "accepts_tcp E \<longleftrightarrow> (\<forall>tr sk b p. os E tr (Net (WSASend sk b p)) = 0) \<and> (\<forall>tr sk p. os E tr (Net (WSARecv sk p)) = 0)"

text \<open>What was sent on a TCP socket.\<close>

fun tcp_message :: "sock \<Rightarrow> api \<Rightarrow> bytes list" where
  "tcp_message sk (Net (WSASend sk' b p)) = (if sk' = sk then [b] else [])"
| "tcp_message sk _ = []"

definition tcp_out :: "sock \<Rightarrow> trace \<Rightarrow> bytes list" where
  "tcp_out sk tr = concat (map (tcp_message sk \<circ> fst) tr)"

lemma tcp_out_append [simp]:
  "tcp_out sk (xs @ ys) = tcp_out sk xs @ tcp_out sk ys" "tcp_out sk [x] = tcp_message sk (fst x)"
  by (simp_all add: tcp_out_def)

lemma tcp_out_emit [simp]:
  "tcp_out sk (trace (emit E c s)) = tcp_out sk (trace s) @ tcp_message sk c"
  by (simp add: emit_eq)

section \<open>One answer\<close>

lemma answer_legal:
  assumes "awaits s cid p" "b \<noteq> []" "length b \<le> PACKET_SIZE"
  shows "legal s (answer sk p b)"
proof -
  have "unat (word_of_nat (length b) :: u32) = length b"
    using assms(3) by (simp add: unat_of_nat PACKET_SIZE_def take_bit_nat_eq_self)
  with assms show ?thesis by (auto simp: legal_def answer_def awaits_def is_timeout_def)
qed

text \<open>The handler of an answer, up to the new request.\<close>

lemma answer_handled:
  assumes "awaits s cid p" "b \<noteq> []" "length b \<le> PACKET_SIZE" "map_of (m_socketMap s) cid = Some pd"
  defines "n \<equiv> (word_of_nat (length b) :: u32)"
  shows "\<exists>d. length (ov_buffer d) = PACKET_SIZE \<and> ov_type d = OVT_TCP_RECEIVE \<and> ov_id d = cid \<and>
    map_of (m_ovDataSet (deliver (answer sk p b) s)) p = Some d \<and> ov_buffer d = b @ drop (length b) (ov_buffer d) \<and>
    worker_body (onComplete E recv) (answer sk p b) (deliver (answer sk p b) s) =
      Option.bind (tcp_reply E cid pd n (ov_buffer d) (enter_cs E (deliver (answer sk p b) s)))
        (\<lambda>t. Option.bind (map_of (m_ovDataSet t) p) (\<lambda>d. Option.bind (startTcpReceive E sk (ov_id d) (Some p) (leave_cs E t))
          (\<lambda>(r, u). Some u)))"
proof -
  have nz: "n \<noteq> 0"
    using assms(2,3) by (simp add: n_def PACKET_SIZE_def word_of_nat_eq_0_iff nat_dvd_not_less)
  from assms(1) obtain d where d: "map_of (m_ovDataSet s) p = Some d" "ov_type d = OVT_TCP_RECEIVE" "ov_id d = cid"
    "length (ov_buffer d) = PACKET_SIZE" by (auto simp: awaits_def)
  let ?d = "d\<lparr>ov_buffer := b @ drop (length b) (ov_buffer d)\<rparr>"
  have find: "map_of (m_ovDataSet (deliver (answer sk p b) s)) p = Some ?d"
    using d by (simp add: deliver_def answer_def is_receive_def)
  have body: "worker_body (onComplete E recv) (answer sk p b) t = onComplete E recv sk n (Some p) 0 t" for t
    by (simp add: worker_body_def answer_def n_def)
  have "worker_body (onComplete E recv) (answer sk p b) (deliver (answer sk p b) s) =
      Option.bind (tcp_reply E cid pd n (ov_buffer ?d) (enter_cs E (deliver (answer sk p b) s)))
        (\<lambda>t. Option.bind (map_of (m_ovDataSet t) p) (\<lambda>d. Option.bind (startTcpReceive E sk (ov_id d) (Some p) (leave_cs E t))
          (\<lambda>(r, u). Some u)))"
    using d nz assms(4) by (simp add: body onComplete_def find onTcpReceiveComplete_def Let_def)
  then show ?thesis using d find assms(3) by (intro exI [of _ ?d]) simp
qed

section \<open>Answers that make the client send its next message\<close>

lemma startTcpSend_accepted:
  assumes "accepts_tcp E" "p < next_ov s"
  shows "fst (startTcpSend E sk msg cid s)"
    and "map_of (m_ovDataSet (snd (startTcpSend E sk msg cid s))) p = map_of (m_ovDataSet s) p"
    and "tcp_out sk' (trace (snd (startTcpSend E sk msg cid s))) = tcp_out sk' (trace s) @ (if sk' = sk then [msg] else [])"
    and "next_ov (snd (startTcpSend E sk msg cid s)) = next_ov s + 1"
proof -
  have ok: "os E tr (Net (WSASend sk b q)) = 0" for tr b q using assms(1) by (simp add: accepts_tcp_def)
  have new: "tcp_out sk' (trace (snd (newOV_DATA E s))) = tcp_out sk' (trace s)"
    by (simp add: newOV_DATA_def Let_def)
  show "fst (startTcpSend E sk msg cid s)"
    "map_of (m_ovDataSet (snd (startTcpSend E sk msg cid s))) p = map_of (m_ovDataSet s) p"
    "tcp_out sk' (trace (snd (startTcpSend E sk msg cid s))) = tcp_out sk' (trace s) @ (if sk' = sk then [msg] else [])"
    "next_ov (snd (startTcpSend E sk msg cid s)) = next_ov s + 1"
    using assms(2) new by (auto simp: startTcpSend_def split_def Let_def submit_def sys_def ok)
qed

lemma advance_accepted:
  fixes pd' msg st
  assumes "accepts_tcp E" "p < next_ov s" "map_of (m_socketMap s) cid = Some pd"
  defines "t \<equiv> send_and_advance E cid pd' msg st s"
  shows "map_of (m_socketMap t) = (map_of (m_socketMap s))(cid \<mapsto> pd\<lparr>proxyState := st\<rparr>)"
    and "map_of (m_ovDataSet t) p = map_of (m_ovDataSet s) p" and "m_proxyAddress t = m_proxyAddress s"
    and "tcp_out sk (trace t) = tcp_out sk (trace s) @ (if sk = tcpSocket pd' then [msg] else [])"
    and "next_ov t = next_ov s + 1"
  using startTcpSend_accepted [OF assms(1,2), where sk = "tcpSocket pd'" and msg = msg and cid = cid] assms(3)
  by (simp_all add: t_def send_and_advance_def split_def Let_def set_state_def pd_upd_find)

lemma receive_again:
  assumes "accepts_tcp E" "map_of (m_ovDataSet t) p = Some d"
  shows "\<exists>u. startTcpReceive E sk cid (Some p) t = Some (True, u) \<and> m_socketMap u = m_socketMap t \<and>
    m_ovDataSet u = m_ovDataSet t \<and> p \<in> set (inflight u) \<and> m_proxyAddress u = m_proxyAddress t \<and>
    tcp_out sk' (trace u) = tcp_out sk' (trace t)"
  using assms by (simp add: startTcpReceive_def accepts_tcp_def submit_def sys_def Let_def)

lemma answer_advances:
  fixes s :: "'a udp_proxy_scheme"
  assumes "accepts_tcp E" "proxy_inv {} s" "awaits s cid p" "b \<noteq> []" "length b \<le> PACKET_SIZE"
    and pd: "map_of (m_socketMap s) cid = Some pd"
    and reply: "\<And>rest (t :: 'a udp_proxy_scheme). tcp_reply E cid pd (word_of_nat (length b)) (b @ rest) t = Some (send_and_advance E cid pd msg st t)"
  shows "\<exists>u. worker_body (onComplete E recv) (answer sk p b) (deliver (answer sk p b) s) = Some u \<and>
    map_of (m_socketMap u) cid = Some (pd\<lparr>proxyState := st\<rparr>) \<and> awaits u cid p \<and> m_proxyAddress u = m_proxyAddress s \<and>
    tcp_out (tcpSocket pd) (trace u) = tcp_out (tcpSocket pd) (trace s) @ [msg]"
proof -
  let ?s = "enter_cs E (deliver (answer sk p b) s)"
  from answer_handled [OF assms(3-5) pd, of sk E recv] obtain d where d: "length (ov_buffer d) = PACKET_SIZE"
    "ov_type d = OVT_TCP_RECEIVE" "ov_id d = cid" "map_of (m_ovDataSet (deliver (answer sk p b) s)) p = Some d"
    "ov_buffer d = b @ drop (length b) (ov_buffer d)"
    and body: "worker_body (onComplete E recv) (answer sk p b) (deliver (answer sk p b) s) =
      Option.bind (tcp_reply E cid pd (word_of_nat (length b)) (ov_buffer d) ?s)
        (\<lambda>t. Option.bind (map_of (m_ovDataSet t) p) (\<lambda>d. Option.bind (startTcpReceive E sk (ov_id d) (Some p) (leave_cs E t))
          (\<lambda>(r, u). Some u)))" by blast
  let ?t = "send_and_advance E cid pd msg st ?s"
  have t: "tcp_reply E cid pd (word_of_nat (length b)) (ov_buffer d) ?s = Some ?t"
    by (subst d(5)) (rule reply)
  have data: "next_ov ?s = next_ov s" "m_socketMap ?s = m_socketMap s" "m_proxyAddress ?s = m_proxyAddress s"
    "tcp_out k (trace ?s) = tcp_out k (trace s)" for k
    by (simp_all add: deliver_def answer_def)
  have p: "p < next_ov ?s"
    using assms(2,3) unfolding data by (auto simp: proxy_inv_def awaits_def)
  note adv = advance_accepted [OF assms(1) p, unfolded data, OF pd, where pd' = pd and msg = msg and st = st]
  from adv(2) d(4) have "map_of (m_ovDataSet (leave_cs E ?t)) p = Some d" by simp
  from receive_again [OF assms(1) this, of sk cid "tcpSocket pd"] obtain u where u:
    "startTcpReceive E sk cid (Some p) (leave_cs E ?t) = Some (True, u)" "m_socketMap u = m_socketMap ?t"
    "m_ovDataSet u = m_ovDataSet ?t" "p \<in> set (inflight u)" "m_proxyAddress u = m_proxyAddress ?t"
    "tcp_out (tcpSocket pd) (trace u) = tcp_out (tcpSocket pd) (trace ?t)" by auto
  have "awaits u cid p" using u(3,4) adv(2) d by (simp add: awaits_def)
  moreover have "worker_body (onComplete E recv) (answer sk p b) (deliver (answer sk p b) s) = Some u"
    using adv(2) d u(1) by (simp add: body t)
  ultimately show ?thesis using u adv by simp
qed

section \<open>The connection is made\<close>

lemma receive_new:
  assumes "accepts_tcp E"
  shows "\<exists>u. startTcpReceive E sk cid None t = Some (True, u) \<and> awaits u cid (next_ov t) \<and>
    m_socketMap u = m_socketMap t \<and> m_proxyAddress u = m_proxyAddress t \<and> tcp_out sk' (trace u) = tcp_out sk' (trace t)"
proof -
  have ok: "os E tr (Net (WSARecv sk p)) = 0" for tr p using assms by (simp add: accepts_tcp_def)
  have "tcp_out sk' (trace (snd (newOV_DATA E t))) = tcp_out sk' (trace t)"
    by (simp add: newOV_DATA_def Let_def)
  then show ?thesis
    by (simp add: startTcpReceive_def split_def Let_def submit_def sys_def ok awaits_def PACKET_SIZE_def)
qed

lemma connect_handled:
  assumes "accepts_tcp E" "proxy_inv {} s" "legal s c" "cq_ok c" "cq_overlapped c = Some q"
    and d: "map_of (m_ovDataSet s) q = Some d" "ov_type d = OVT_CONNECT" "ov_id d = cid"
    and pd: "map_of (m_socketMap s) cid = Some pd"
  shows "\<exists>u p. worker_body (onComplete E recv) c (deliver c s) = Some u \<and> awaits u cid p \<and>
    map_of (m_socketMap u) cid = Some (pd\<lparr>proxyState := PS_AUTH\<rparr>) \<and> m_proxyAddress u = m_proxyAddress s \<and>
    tcp_out (tcpSocket pd) (trace u) = tcp_out (tcpSocket pd) (trace s) @ [greeting pd]"
proof -
  let ?sk = "cq_socket c"
  let ?s1 = "emit E (Net (SetSockOpt ?sk)) (emit E (Net (SetSockOpt ?sk)) (enter_cs E (deliver c s)))"
  let ?s2 = "send_and_advance E cid pd (greeting pd) PS_AUTH ?s1"
  have data: "next_ov ?s1 = next_ov s" "m_socketMap ?s1 = m_socketMap s" "m_proxyAddress ?s1 = m_proxyAddress s"
    "tcp_out k (trace ?s1) = tcp_out k (trace s)" for k
    by (simp_all add: deliver_def assms(5))
  have q: "q < next_ov ?s1"
    using assms(2,3,5) unfolding data by (auto simp: proxy_inv_def legal_def)
  note adv = advance_accepted [OF assms(1) q, unfolded data, OF pd, where pd' = pd and msg = "greeting pd" and st = PS_AUTH]
  from receive_new [OF assms(1), of "tcpSocket pd" cid ?s2 "tcpSocket pd"] obtain t where t:
    "startTcpReceive E (tcpSocket pd) cid None ?s2 = Some (True, t)" "awaits t cid (next_ov ?s2)"
    "m_socketMap t = m_socketMap ?s2" "m_proxyAddress t = m_proxyAddress ?s2"
    "tcp_out (tcpSocket pd) (trace t) = tcp_out (tcpSocket pd) (trace ?s2)" by blast
  let ?u = "leave_cs E (deleteOV_DATA E q t)"
  have find: "map_of (m_ovDataSet (deliver c s)) q = Some d"
    using d by (simp add: deliver_def assms(5) is_receive_def)
  have "worker_body (onComplete E recv) c (deliver c s) = onConnectComplete E ?sk (cq_transferred c) q 0 (deliver c s)"
    using assms(4,5) find d(2) by (simp add: worker_body_def onComplete_def)
  also have "\<dots> = Some ?u"
    using find d(3) pd t(1) by (simp add: onConnectComplete_def Let_def)
  finally have "worker_body (onComplete E recv) c (deliver c s) = Some ?u" .
  moreover have "awaits ?u cid (next_ov ?s2)"
    using t(2) q adv(5) data(1) by (simp add: awaits_def)
  moreover have "tcp_out (tcpSocket pd) (trace (deleteOV_DATA E q t)) = tcp_out (tcpSocket pd) (trace t)"
    by (simp add: deleteOV_DATA_def Let_def split: option.split)
  ultimately show ?thesis using t(3-5) adv by (intro exI [of _ ?u] exI [of _ "next_ov ?s2"]) simp
qed

section \<open>The three answers of the conversation\<close>

definition method_answer :: "byte \<Rightarrow> bytes" where
  "method_answer m = [5, m]"

definition accepted_answer :: bytes where
  "accepted_answer = [1, 0]"

definition association_answer :: "u32 \<Rightarrow> u16 \<Rightarrow> bytes" where
  "association_answer ip port = [5, 0, 0, 1] @ le32 ip @ le16 port"

lemma method_reply:
  assumes "proxyState pd = PS_AUTH"
  shows "tcp_reply E cid pd (word_of_nat (length (method_answer m))) (method_answer m @ rest) t =
    Some (if m = S5AM_UNPW \<and> userName pd \<noteq> []
      then send_and_advance E cid pd (password_request (userName pd) (userPassword pd)) PS_AUTH_NEGOTIATION t
      else send_and_advance E cid pd udp_associate_request PS_UDP_ASSOC t)"
  using assms
  by (simp add: tcp_reply_def reply_auth_def method_answer_def dec_SOCK5_AUTH_RESPONSE_def sizeof_SOCK5_AUTH_RESPONSE_def
      packed_eval SOCKS_5_def)

lemma accepted_reply:
  assumes "proxyState pd = PS_AUTH_NEGOTIATION"
  shows "tcp_reply E cid pd (word_of_nat (length accepted_answer)) (accepted_answer @ rest) t =
    Some (send_and_advance E cid pd udp_associate_request PS_UDP_ASSOC t)"
  using assms
  by (simp add: tcp_reply_def reply_auth_negotiation_def accepted_answer_def dec_SOCK5_AUTH_RESPONSE_def
      sizeof_SOCK5_AUTH_RESPONSE_def packed_eval)

text \<open>
  The answer to the association request is accepted when five of its bytes have arrived, but the relay
  port is bytes 8 and 9 of the buffer, which may be left over from an earlier answer.
\<close>

lemma association_reply:
  assumes "proxyState pd = PS_UDP_ASSOC" "sin_addr (m_proxyAddress t) = Some a" "length (pd_remoteAddress pd) = NF_MAX_ADDRESS_LENGTH"
    and "take 4 b = [5, 0, 0, 1]" "5 \<le> length b" "length b \<le> PACKET_SIZE" "10 \<le> length b + length rest"
  shows "tcp_reply E cid pd (word_of_nat (length b)) (b @ rest) t =
    flush_packets E cid (set_state cid PS_CONNECTED (pd_upd cid
      (\<lambda>pd'. pd'\<lparr>pd_remoteAddress := mk_sockaddr_in (of_le16 ((b @ rest) ! 8) ((b @ rest) ! 9)) a @ drop 16 (pd_remoteAddress pd),
        pd_remoteAddressLen := 16\<rparr>) t))"
proof -
  let ?b = "b @ rest" and ?port = "of_le16 ((b @ rest) ! 8) ((b @ rest) ! 9)"
  have "b = [5, 0, 0, 1] @ drop 4 b" using append_take_drop_id [of 4 b] by (simp add: assms(4))
  then obtain c where c: "b = [5, 0, 0, 1] @ c" ..
  have n: "unat (word_of_nat (length b) :: u32) = length b"
    using assms(6) by (simp add: unat_of_nat PACKET_SIZE_def take_bit_nat_eq_self)
  obtain x where "dec_SOCKS5_RESPONSE ?b = Some \<lparr>s5r_version = 5, s5r_res_code = 0, s5r_reserved = 0, s5r_address_type = 1,
      s5r_address = x\<rparr>"
    using assms(5) by (simp add: c dec_SOCKS5_RESPONSE_def rd8_def rdn_def)
  moreover obtain ip where "dec_SOCKS5_RESPONSE_IPv4 ?b = Some \<lparr>s5r4_version = 5, s5r4_res_code = 0, s5r4_reserved = 0,
      s5r4_address_type = 1, s5r4_address = ip, s5r4_port = ?port\<rparr>"
    using assms(7) by (simp add: c dec_SOCKS5_RESPONSE_IPv4_def rd8_def rd16_def rd32_def)
  moreover have "wrn 0 (mk_sockaddr_in port a) (pd_remoteAddress pd) =
      Some (mk_sockaddr_in port a @ drop 16 (pd_remoteAddress pd))" for port
    using assms(3) by (simp add: wrn_def NF_MAX_ADDRESS_LENGTH_def)
  ultimately show ?thesis
    using assms(1,2,5) n
    by (simp add: tcp_reply_def reply_udp_assoc_def relay_address_def SOCKS_5_def SOCKS5_ADDR_IPV4_def
        sizeof_SOCKS5_RESPONSE_def Let_def)
qed

lemma association_handled:
  fixes b
  assumes "proxy_inv {} s" "awaits s cid p" "map_of (m_socketMap s) cid = Some pd"
    and "proxyState pd = PS_UDP_ASSOC" "sin_addr (m_proxyAddress s) = Some a"
    and b: "take 4 b = [5, 0, 0, 1]" "5 \<le> length b" "length b \<le> PACKET_SIZE"
  shows "\<exists>u pd' rest. worker_body (onComplete E recv) (answer sk p b) (deliver (answer sk p b) s) = Some u \<and>
    map_of (m_socketMap u) cid = Some pd' \<and> proxyState pd' = PS_CONNECTED \<and> udpSendPackets pd' = [] \<and>
    udpSocket pd' = udpSocket pd \<and> pd_remoteAddressLen pd' = 16 \<and>
    take 16 (pd_remoteAddress pd') = mk_sockaddr_in (of_le16 ((b @ rest) ! 8) ((b @ rest) ! 9)) a \<and>
    map_option (\<lambda>d. drop (length b) (ov_buffer d)) (map_of (m_ovDataSet s) p) = Some rest"
proof -
  let ?s = "enter_cs E (deliver (answer sk p b) s)"
  have nonempty: "b \<noteq> []" using b(2) by auto
  from assms(2) obtain d0 where d0: "map_of (m_ovDataSet s) p = Some d0" "length (ov_buffer d0) = PACKET_SIZE"
    "ov_type d0 = OVT_TCP_RECEIVE"
    by (auto simp: awaits_def)
  define rest where "rest = drop (length b) (ov_buffer d0)"
  let ?port = "of_le16 ((b @ rest) ! 8) ((b @ rest) ! 9)"
  let ?f = "\<lambda>pd'. pd'\<lparr>pd_remoteAddress := mk_sockaddr_in ?port a @ drop 16 (pd_remoteAddress pd), pd_remoteAddressLen := 16\<rparr>"
  let ?t = "set_state cid PS_CONNECTED (pd_upd cid ?f ?s)"
  let ?pd = "(?f pd)\<lparr>proxyState := PS_CONNECTED\<rparr>"
  note legal = answer_legal [OF assms(2) nonempty b(3), of sk]
  have inv: "proxy_inv {p} ?s"
    using deliver_inv(1) [OF assms(1) legal] by (simp add: answer_def)
  have len: "length (pd_remoteAddress pd) = NF_MAX_ADDRESS_LENGTH"
    using proxy_inv_pd [OF assms(1,3)] by (simp add: pd_ok_def)
  have "proxy_inv {p} (pd_upd cid ?f ?s)"
    by (rule pd_upd_inv [OF inv]) (simp add: pd_ok_def len NF_MAX_ADDRESS_LENGTH_def)
  then have t: "proxy_inv {p} ?t" by (rule set_state_inv)
  have find: "map_of (m_socketMap ?t) cid = Some ?pd" "proxyState ?pd = PS_CONNECTED"
    using assms(3) by (simp_all add: set_state_def pd_upd_find)
  from flush_packets_ok [OF t find, of E] obtain v pd' where v: "flush_packets E cid ?t = Some v" "proxy_inv {p} v"
    "map_of (m_socketMap v) cid = Some pd'"
    and pd': "pd' \<in> {?pd\<lparr>udpSendPackets := []\<rparr>, ?pd\<lparr>udpSendPackets := [], udpRecvStarted := True\<rparr>}" by auto
  have "proxy_inv (insert p {}) (leave_cs E v)" "p \<notin> ({} :: ovp set)" using v(2) by simp_all
  note again = startTcpReceive_held [OF this, of E sk]
  obtain d' where d': "map_of (m_ovDataSet v) p = Some d'" using proxy_inv_live [OF v(2), of p] by auto
  from again [of "ov_id d'"] obtain u where
    u: "startTcpReceive E sk (ov_id d') (Some p) (leave_cs E v) = Some (True, u)" "m_socketMap u = m_socketMap v" by auto
  have "m_proxyAddress ?s = m_proxyAddress s" by (simp add: deliver_def answer_def)
  with assms(5) have a: "sin_addr (m_proxyAddress ?s) = Some a" by simp
  from answer_handled [OF assms(2) nonempty b(3) assms(3), of sk E recv] obtain d :: OV_DATA where d:
    "map_of (m_ovDataSet (deliver (answer sk p b) s)) p = Some d"
    "worker_body (onComplete E recv) (answer sk p b) (deliver (answer sk p b) s) =
      Option.bind (tcp_reply E cid pd (word_of_nat (length b)) (ov_buffer d) ?s)
        (\<lambda>t. Option.bind (map_of (m_ovDataSet t) p) (\<lambda>d. Option.bind (startTcpReceive E sk (ov_id d) (Some p) (leave_cs E t))
          (\<lambda>(r, u). Some u)))" by blast
  have buf: "ov_buffer d = b @ rest"
    using d(1) d0 by (auto simp: deliver_def answer_def is_receive_def rest_def)
  have "10 \<le> length b + length rest" using b(3) d0(2) by (simp add: rest_def PACKET_SIZE_def)
  from association_reply [OF assms(4) a len b this, of E cid] v(1)
  have "tcp_reply E cid pd (word_of_nat (length b)) (ov_buffer d) ?s = Some v" by (simp add: buf)
  with d(2) d' u(1) have "worker_body (onComplete E recv) (answer sk p b) (deliver (answer sk p b) s) = Some u" by simp
  then show ?thesis using u(2) v(3) pd' d0(1) by (intro exI [of _ u] exI [of _ pd'] exI [of _ rest]) (auto simp: rest_def)
qed

lemma association_port:
  "b = association_answer ip port \<Longrightarrow> of_le16 ((b @ rest) ! 8) ((b @ rest) ! 9) = port"
  by (simp add: association_answer_def nth_append le16_def le32_def)

lemma association_answer_shape:
  "take 4 (association_answer ip port) = [5, 0, 0, 1]" "length (association_answer ip port) = 10"
  by (simp_all add: association_answer_def le32_def le16_def)

section \<open>Steps of the conversation\<close>

lemma completion_outboxes:
  assumes recv: "receiver_ok recv" "receiver_calls no_datagrams recv"
    and "proxy_inv {} s" "own_sockets s" "legal s c" "cq_overlapped c = Some p" "cq_ok c"
    and "worker_body (onComplete E recv) c (deliver c s) = Some u"
  shows "outboxes u cid = outboxes s cid"
proof -
  have run: "onComplete E recv (cq_socket c) (cq_transferred c) (Some p) 0 (deliver c s) = Some u"
    using assms(6-8) by (simp add: worker_body_def)
  from deliver_inv(2) [OF assms(3,5,6)] obtain d where d: "map_of (m_ovDataSet (deliver c s)) p = Some d" by auto
  have "own_sockets (deliver c s)" using assms(4) by (simp add: own_sockets_def)
  from onComplete_outboxes [OF run deliver_inv(1) [OF assms(3,5,6)] this recv d]
  show ?thesis by (simp add: outboxes_def)
qed

text \<open>A state on the way: the connection waits in state \<open>st\<close>, nothing else of it has changed.\<close>

definition conversing :: "env \<Rightarrow> 'a udp_proxy_scheme recv_fun \<Rightarrow> u64 \<Rightarrow> ovp \<Rightarrow> bytes list option \<Rightarrow> u32 \<Rightarrow>
    PROXY_DATA \<Rightarrow> PROXY_STATE \<Rightarrow> bytes list \<Rightarrow> 'a udp_proxy_scheme \<Rightarrow> bool" where
  "conversing E recv cid p box a pd st out s \<longleftrightarrow> proxy_reach E recv s \<and> awaits s cid p \<and>
     map_of (m_socketMap s) cid = Some (pd\<lparr>proxyState := st\<rparr>) \<and> outboxes s cid = box \<and>
     sin_addr (m_proxyAddress s) = Some a \<and> tcp_out (tcpSocket pd) (trace s) = out"

lemma conversing_answer:
  fixes s :: "'a udp_proxy_scheme"
  assumes recv: "receiver_ok recv" "receiver_calls no_sockets recv" "receiver_calls no_datagrams recv"
    and E: "fresh_sockets E" "accepts_tcp E"
    and s: "conversing E recv cid p box a pd st out s" and b: "b \<noteq> []" "length b \<le> PACKET_SIZE"
    and reply: "\<And>rest (t :: 'a udp_proxy_scheme). tcp_reply E cid (pd\<lparr>proxyState := st\<rparr>) (word_of_nat (length b)) (b @ rest) t =
      Some (send_and_advance E cid (pd\<lparr>proxyState := st\<rparr>) msg st' t)"
  shows "\<exists>u. worker_body (onComplete E recv) (answer sk p b) (deliver (answer sk p b) s) = Some u \<and>
    conversing E recv cid p box a pd st' (out @ [msg]) u"
proof -
  have reach: "proxy_reach E recv s" and aw: "awaits s cid p"
    and pd: "map_of (m_socketMap s) cid = Some (pd\<lparr>proxyState := st\<rparr>)"
    using s by (simp_all add: conversing_def)
  have inv: "proxy_inv {} s" using proxy_reach_inv(1) [OF recv(1) reach] by (simp add: proxy_running_def)
  from answer_advances [OF E(2) inv aw b pd reply, where sk = sk and recv = recv] obtain u where u:
    "worker_body (onComplete E recv) (answer sk p b) (deliver (answer sk p b) s) = Some u"
    "map_of (m_socketMap u) cid = Some (pd\<lparr>proxyState := st'\<rparr>)" "awaits u cid p" "m_proxyAddress u = m_proxyAddress s"
    "tcp_out (tcpSocket pd) (trace u) = tcp_out (tcpSocket pd) (trace s) @ [msg]" by auto
  have "outboxes u cid = outboxes s cid"
    by (rule completion_outboxes [OF recv(1,3) inv proxy_reach_own [OF recv(1,2) E(1) reach] answer_legal [OF aw b] _ _ u(1)])
      (simp_all add: answer_def)
  moreover have "proxy_reach E recv u"
    by (rule reach_step [OF reach step_complete [OF answer_legal [OF aw b] u(1)]])
  ultimately show ?thesis using s u by (auto simp: conversing_def)
qed

lemma conversing_association:
  fixes s :: "'a udp_proxy_scheme"
  assumes recv: "receiver_ok recv" "receiver_calls no_sockets recv" "receiver_calls no_datagrams recv"
    and E: "fresh_sockets E" and s: "conversing E recv cid p (Some box) a pd PS_UDP_ASSOC out s"
  shows "\<exists>u pd'. conversation E recv sk p [association_answer ip port] s = Some u \<and>
    map_of (m_socketMap u) cid = Some pd' \<and> proxyState pd' = PS_CONNECTED \<and> udpSocket pd' = udpSocket pd \<and>
    take 16 (pd_remoteAddress pd') = mk_sockaddr_in port a \<and> pd_remoteAddressLen pd' = 16 \<and>
    sent_on (udpSocket pd) (trace u) = box"
proof -
  let ?b = "association_answer ip port"
  have b: "?b \<noteq> []" "length ?b \<le> PACKET_SIZE"
    by (simp_all add: association_answer_def le16_def le32_def PACKET_SIZE_def)
  have reach: "proxy_reach E recv s" and aw: "awaits s cid p"
    using s by (simp_all add: conversing_def)
  have inv: "proxy_inv {} s" using proxy_reach_inv(1) [OF recv(1) reach] by (simp add: proxy_running_def)
  from association_handled [OF inv aw, of "pd\<lparr>proxyState := PS_UDP_ASSOC\<rparr>" a ?b E recv sk] s b(2)
  obtain u pd' rest where u: "worker_body (onComplete E recv) (answer sk p ?b) (deliver (answer sk p ?b) s) = Some u"
    "map_of (m_socketMap u) cid = Some pd'" "proxyState pd' = PS_CONNECTED" "udpSendPackets pd' = []"
    "udpSocket pd' = udpSocket pd" "take 16 (pd_remoteAddress pd') = mk_sockaddr_in (of_le16 ((?b @ rest) ! 8) ((?b @ rest) ! 9)) a"
    "pd_remoteAddressLen pd' = 16"
    by (auto simp: conversing_def association_answer_shape)
  have "outboxes u cid = outboxes s cid"
    by (rule completion_outboxes [OF recv(1,3) inv proxy_reach_own [OF recv(1,2) E reach] answer_legal [OF aw b] _ _ u(1)])
      (simp_all add: answer_def)
  then have "sent_on (udpSocket pd) (trace u) = box"
    using s u by (auto simp: conversing_def outboxes_def outbox_def)
  with u association_port [OF refl, of ip port rest] show ?thesis by simp
qed

lemma conversing_connect:
  assumes recv: "receiver_ok recv" "receiver_calls no_sockets recv" "receiver_calls no_datagrams recv"
    and E: "fresh_sockets E" "accepts_tcp E"
    and s: "proxy_reach E recv s" "map_of (m_socketMap s) cid = Some pd" "sin_addr (m_proxyAddress s) = Some a"
    and c: "legal s c" "cq_ok c" "cq_overlapped c = Some q" "map_of (m_ovDataSet s) q = Some d" "ov_type d = OVT_CONNECT" "ov_id d = cid"
  shows "\<exists>u p. worker_body (onComplete E recv) c (deliver c s) = Some u \<and>
    conversing E recv cid p (Some (outbox (trace s) pd)) a pd PS_AUTH (tcp_out (tcpSocket pd) (trace s) @ [greeting pd]) u"
proof -
  have inv: "proxy_inv {} s" using proxy_reach_inv(1) [OF recv(1) s(1)] by (simp add: proxy_running_def)
  from connect_handled [OF E(2) inv c s(2), of recv] obtain u p where u:
    "worker_body (onComplete E recv) c (deliver c s) = Some u" "awaits u cid p"
    "map_of (m_socketMap u) cid = Some (pd\<lparr>proxyState := PS_AUTH\<rparr>)" "m_proxyAddress u = m_proxyAddress s"
    "tcp_out (tcpSocket pd) (trace u) = tcp_out (tcpSocket pd) (trace s) @ [greeting pd]" by blast
  have "outboxes u cid = outboxes s cid"
    by (rule completion_outboxes [OF recv(1,3) inv proxy_reach_own [OF recv(1,2) E(1) s(1)] c(1,3,2) u(1)])
  moreover have "proxy_reach E recv u" by (rule reach_step [OF s(1) step_complete [OF c(1) u(1)]])
  ultimately show ?thesis using s u by (auto simp: conversing_def outboxes_def)
qed

text \<open>The proxy's answers before the association, and what the client says in all.\<close>

definition agreeing :: "PROXY_DATA \<Rightarrow> bytes list" where
  "agreeing pd = (if userName pd = [] then [method_answer S5AM_NONE] else [method_answer S5AM_UNPW, accepted_answer])"

definition dialogue :: "PROXY_DATA \<Rightarrow> bytes list" where
  "dialogue pd = greeting pd # (if userName pd = [] then [udp_associate_request]
     else [password_request (userName pd) (userPassword pd), udp_associate_request])"

lemma conversing_agreed:
  fixes s :: "'a udp_proxy_scheme"
  assumes recv: "receiver_ok recv" "receiver_calls no_sockets recv" "receiver_calls no_datagrams recv"
    and E: "fresh_sockets E" "accepts_tcp E" and s: "conversing E recv cid p box a pd PS_AUTH (out @ [greeting pd]) s"
  shows "\<exists>t. conversation E recv sk p (agreeing pd) s = Some t \<and> conversing E recv cid p box a pd PS_UDP_ASSOC (out @ dialogue pd) t"
proof -
  note step = conversing_answer [OF recv E]
  have size: "method_answer m \<noteq> []" "length (method_answer m) \<le> PACKET_SIZE"
    "accepted_answer \<noteq> []" "length accepted_answer \<le> PACKET_SIZE" for m
    by (simp_all add: method_answer_def accepted_answer_def PACKET_SIZE_def)
  show ?thesis
  proof (cases "userName pd = []")
    case True
    have "tcp_reply E cid (pd\<lparr>proxyState := PS_AUTH\<rparr>) (word_of_nat (length (method_answer S5AM_NONE)))
        (method_answer S5AM_NONE @ rest) t =
      Some (send_and_advance E cid (pd\<lparr>proxyState := PS_AUTH\<rparr>) udp_associate_request PS_UDP_ASSOC t)"
      for rest and t :: "'a udp_proxy_scheme"
      by (subst method_reply) (simp_all add: S5AM_NONE_def S5AM_UNPW_def)
    from step [OF s size(1,2) this, of sk] True show ?thesis by (auto simp: agreeing_def dialogue_def)
  next
    case False
    have "tcp_reply E cid (pd\<lparr>proxyState := PS_AUTH\<rparr>) (word_of_nat (length (method_answer S5AM_UNPW)))
        (method_answer S5AM_UNPW @ rest) t =
      Some (send_and_advance E cid (pd\<lparr>proxyState := PS_AUTH\<rparr>) (password_request (userName pd) (userPassword pd))
        PS_AUTH_NEGOTIATION t)" for rest and t :: "'a udp_proxy_scheme"
      by (subst method_reply) (use False in simp_all)
    from step [OF s size(1,2) this, of sk] obtain t where t:
      "worker_body (onComplete E recv) (answer sk p (method_answer S5AM_UNPW)) (deliver (answer sk p (method_answer S5AM_UNPW)) s) = Some t"
      "conversing E recv cid p box a pd PS_AUTH_NEGOTIATION ((out @ [greeting pd]) @ [password_request (userName pd) (userPassword pd)]) t"
      by blast
    have "tcp_reply E cid (pd\<lparr>proxyState := PS_AUTH_NEGOTIATION\<rparr>) (word_of_nat (length accepted_answer))
        (accepted_answer @ rest) t =
      Some (send_and_advance E cid (pd\<lparr>proxyState := PS_AUTH_NEGOTIATION\<rparr>) udp_associate_request PS_UDP_ASSOC t)"
      for rest and t :: "'a udp_proxy_scheme"
      by (rule accepted_reply) simp
    from step [OF t(2) size(3,4) this, of sk] t(1) False show ?thesis by (auto simp: agreeing_def dialogue_def)
  qed
qed

section \<open>The credentials message\<close>

text \<open>How a server reads the message (RFC 1929): version 1, a counted user name, a counted password.\<close>

fun counted :: "bytes \<Rightarrow> (bytes \<times> bytes) option" where
  "counted [] = None"
| "counted (n # b) = (if unat n \<le> length b then Some (take (unat n) b, drop (unat n) b) else None)"

fun read_credentials :: "bytes \<Rightarrow> (bytes \<times> bytes) option" where
  "read_credentials [] = None"
| "read_credentials (v # b) = (if v \<noteq> 1 then None else do {
     (user, b) \<leftarrow> counted b;
     (pass, b) \<leftarrow> counted b;
     if b = [] then Some (user, pass) else None
   })"

lemma counted_append: "length u < 256 \<Longrightarrow> counted (word_of_nat (length u) # u @ b) = Some (u, b)"
  by (simp add: unat_of_nat take_bit_nat_eq_self)

lemma counted_size: "counted b = Some (u, b') \<Longrightarrow> length u < 256 \<and> b = hd b # u @ b'"
proof (cases b)
  case (Cons n c)
  assume "counted b = Some (u, b')"
  with Cons have "u = take (unat n) c" "b' = drop (unat n) c" "unat n \<le> length c" by (auto split: if_splits)
  moreover have "unat n < 2 ^ 8" using unsigned_less [of n, where ?'a = nat] by simp
  ultimately show ?thesis using Cons by simp
qed simp

section \<open>Properties\<close>

text \<open>
  C3: the association is established: when the connection to the proxy is made, the proxy accepts the
  offered method, the credentials if there are any, and the request, and the platform accepts what
  is sent over TCP, then the client says exactly the messages of the protocol in their order, the
  connection ends up connected to the relay port on the proxy's address, and every datagram that had
  been waiting has been sent on its UDP socket, encapsulated, after what was sent there before and
  in the order of its arrival.
\<close>

theorem association_established:
  assumes "receiver_ok recv" "receiver_calls no_sockets recv" "receiver_calls no_datagrams recv"
    and "fresh_sockets E" "accepts_tcp E"
    and "proxy_reach E recv s" "map_of (m_socketMap s) cid = Some pd" "sin_addr (m_proxyAddress s) = Some a"
    and "legal s c" "cq_ok c" "cq_overlapped c = Some q" "map_of (m_ovDataSet s) q = Some d" "ov_type d = OVT_CONNECT" "ov_id d = cid"
  shows "\<exists>v p t u pd'. worker_body (onComplete E recv) c (deliver c s) = Some v \<and> awaits v cid p \<and>
    conversation E recv sk p (agreeing pd) v = Some t \<and>
    tcp_out (tcpSocket pd) (trace t) = tcp_out (tcpSocket pd) (trace s) @ dialogue pd \<and>
    conversation E recv sk p [association_answer ip port] t = Some u \<and>
    map_of (m_socketMap u) cid = Some pd' \<and> proxyState pd' = PS_CONNECTED \<and>
    take 16 (pd_remoteAddress pd') = mk_sockaddr_in port a \<and> pd_remoteAddressLen pd' = 16 \<and>
    sent_on (udpSocket pd) (trace u) = sent_on (udpSocket pd) (trace s) @ map enc_packet (udpSendPackets pd)"
proof -
  from conversing_connect [OF assms] obtain v p where v: "worker_body (onComplete E recv) c (deliver c s) = Some v"
    "conversing E recv cid p (Some (outbox (trace s) pd)) a pd PS_AUTH (tcp_out (tcpSocket pd) (trace s) @ [greeting pd]) v"
    by blast
  from conversing_agreed [OF assms(1-5) v(2), of sk] obtain t where t: "conversation E recv sk p (agreeing pd) v = Some t"
    "conversing E recv cid p (Some (outbox (trace s) pd)) a pd PS_UDP_ASSOC (tcp_out (tcpSocket pd) (trace s) @ dialogue pd) t"
    by blast
  have "awaits v cid p" "tcp_out (tcpSocket pd) (trace t) = tcp_out (tcpSocket pd) (trace s) @ dialogue pd"
    using v(2) t(2) by (simp_all add: conversing_def)
  moreover from conversing_association [OF assms(1-4) t(2), of sk ip port] obtain u pd' where
    "conversation E recv sk p [association_answer ip port] t = Some u"
    "map_of (m_socketMap u) cid = Some pd'" "proxyState pd' = PS_CONNECTED"
    "take 16 (pd_remoteAddress pd') = mk_sockaddr_in port a" "pd_remoteAddressLen pd' = 16"
    "sent_on (udpSocket pd) (trace u) = outbox (trace s) pd" by blast
  ultimately show ?thesis using v(1) t(1) by (auto simp: outbox_def)
qed

text \<open>A connection that is being made, with a datagram waiting.\<close>

definition fresh_running :: udp_proxy where
  "fresh_running = (case UDPProxy_init fresh_env example_address 16 [] [] example_idle of
     Some (_, s) \<Rightarrow> s | None \<Rightarrow> example_idle)"

definition fresh_connecting :: udp_proxy where
  "fresh_connecting = snd (createProxyConnection fresh_env 7 fresh_running)"

lemma fresh_init: "UDPProxy_init fresh_env example_address 16 [] [] example_idle = Some (True, fresh_running)"
  by (simp add: fresh_running_def UDPProxy_init_def initExtensions_def IOCPService_init_def sys_def emit_eq
      fresh_env_def example_env_def example_idle_def Attach_def Let_def memcpy_from_def rdn_def example_address_def wrn_def
      INVALID_SOCKET_def INVALID_HANDLE_VALUE_def NF_MAX_ADDRESS_LENGTH_def split: if_splits)

lemma fresh_reach_running: "proxy_reach fresh_env ignore_datagram fresh_running"
  by (rule reach_init [OF _ _ _ _ fresh_init])
    (simp_all add: proxy_idle_def example_idle_def example_address_def opened_sockets_def
      closed_sockets_def map_filter_simps NF_MAX_ADDRESS_LENGTH_def)

lemma fresh_running_fields:
  "m_socketMap fresh_running = []" "m_ovDataSet fresh_running = []" "inflight fresh_running = []"
  "next_ov fresh_running = 0" "m_hIOCP fresh_running = 1" "m_userName fresh_running = []"
  "opened_sockets (trace fresh_running) = [1]" "closed_sockets (trace fresh_running) = [1]"
  by (simp_all add: fresh_running_def UDPProxy_init_def initExtensions_def IOCPService_init_def sys_def emit_eq
      fresh_env_def example_env_def example_idle_def Attach_def Let_def memcpy_from_def rdn_def example_address_def wrn_def
      INVALID_SOCKET_def INVALID_HANDLE_VALUE_def NF_MAX_ADDRESS_LENGTH_def)

lemma fresh_reach_connecting: "proxy_reach fresh_env ignore_datagram fresh_connecting"
  unfolding fresh_connecting_def
  by (rule reach_step [OF fresh_reach_running], rule step_create)
    (simp add: unused_id_def connects_def fresh_running_fields)

lemma fresh_connecting_map:
  "m_socketMap fresh_connecting = [(7, new_PROXY_DATA\<lparr>tcpSocket := 3, udpSocket := 4,
     userName := [], userPassword := m_userPassword fresh_running\<rparr>)]"
  by (simp add: fresh_connecting_def createProxyConnection_def fresh_running_fields sys_def emit_eq
      fresh_env_def example_env_def Let_def INVALID_SOCKET_def registerSocket_def startConnect_def submit_def
      newOV_DATA_def ov_upd_def new_OV_DATA_def)

definition fresh_waiting :: udp_proxy where
  "fresh_waiting = snd (the (udpSend fresh_env 7 [1, 2] 2 example_address 16 fresh_connecting))"

abbreviation (input) waiting_packet :: UDP_PACKET where
  "waiting_packet \<equiv> \<lparr>pk_remoteAddress = example_address @ replicate 12 0, pk_remoteAddressLen = 16, pk_buffer = [1, 2]\<rparr>"

lemma fresh_waiting_send:
  "udpSend fresh_env 7 [1, 2] 2 example_address 16 fresh_connecting = Some (True, fresh_waiting)"
  "map_of (m_socketMap fresh_waiting) 7 = Some (new_PROXY_DATA\<lparr>tcpSocket := 3, udpSocket := 4, userName := [],
     userPassword := m_userPassword fresh_running, udpSendPackets := [waiting_packet]\<rparr>)"
  "m_ovDataSet fresh_waiting = m_ovDataSet fresh_connecting" "inflight fresh_waiting = inflight fresh_connecting"
  "m_proxyAddress fresh_waiting = m_proxyAddress fresh_connecting"
proof -
  have "new_UDP_PACKET [1, 2] 2 example_address 16 = Some waiting_packet"
    by (simp add: new_UDP_PACKET_def memcpy_from_def rdn_def wrn_def example_address_def NF_MAX_ADDRESS_LENGTH_def)
  then have send: "udpSend fresh_env 7 [1, 2] 2 example_address 16 fresh_connecting = Some (True, leave_cs fresh_env
      (pd_upd 7 (\<lambda>pd. pd\<lparr>udpSendPackets := udpSendPackets pd @ [waiting_packet]\<rparr>) (enter_cs fresh_env fresh_connecting)))"
    by (simp add: udpSend_def fresh_connecting_map new_PROXY_DATA_def Let_def)
  then have w: "fresh_waiting = leave_cs fresh_env
      (pd_upd 7 (\<lambda>pd. pd\<lparr>udpSendPackets := udpSendPackets pd @ [waiting_packet]\<rparr>) (enter_cs fresh_env fresh_connecting))"
    by (simp add: fresh_waiting_def)
  show "udpSend fresh_env 7 [1, 2] 2 example_address 16 fresh_connecting = Some (True, fresh_waiting)"
    using send w by simp
  show "map_of (m_socketMap fresh_waiting) 7 = Some (new_PROXY_DATA\<lparr>tcpSocket := 3, udpSocket := 4, userName := [],
      userPassword := m_userPassword fresh_running, udpSendPackets := [waiting_packet]\<rparr>)"
    by (simp add: w pd_upd_def fresh_connecting_map new_PROXY_DATA_def)
  show "m_ovDataSet fresh_waiting = m_ovDataSet fresh_connecting" "inflight fresh_waiting = inflight fresh_connecting"
    "m_proxyAddress fresh_waiting = m_proxyAddress fresh_connecting"
    by (simp_all add: w)
qed

definition example_waiting_connection :: PROXY_DATA where
  "example_waiting_connection = new_PROXY_DATA\<lparr>tcpSocket := 3, udpSocket := 4, userName := [],
     userPassword := m_userPassword fresh_running, udpSendPackets := [waiting_packet]\<rparr>"

lemma fresh_waiting_connection: "map_of (m_socketMap fresh_waiting) 7 = Some example_waiting_connection"
  by (simp add: fresh_waiting_send example_waiting_connection_def)

lemma fresh_waiting_reach: "proxy_reach fresh_env ignore_datagram fresh_waiting"
  by (rule reach_step [OF fresh_reach_connecting step_send [OF _ fresh_waiting_send(1)]])
    (simp add: send_args_ok_def addr_readable_def example_address_def NF_MAX_ADDRESS_LENGTH_def)

lemma fresh_connecting_request:
  "m_ovDataSet fresh_connecting = [(0, new_OV_DATA\<lparr>ov_type := OVT_CONNECT, ov_id := 7\<rparr>)]" "inflight fresh_connecting = [0]"
  "sin_addr (m_proxyAddress fresh_connecting) = Some 0x100007f"
proof -
  have "m_proxyAddress fresh_running = example_address @ replicate 12 0"
    by (simp add: fresh_running_def UDPProxy_init_def initExtensions_def IOCPService_init_def sys_def emit_eq
      fresh_env_def example_env_def example_idle_def Attach_def Let_def memcpy_from_def rdn_def example_address_def wrn_def
      INVALID_SOCKET_def INVALID_HANDLE_VALUE_def NF_MAX_ADDRESS_LENGTH_def)
  moreover have "sin_addr (example_address @ replicate 12 0) = Some 0x100007f" by code_simp
  ultimately show "m_ovDataSet fresh_connecting = [(0, new_OV_DATA\<lparr>ov_type := OVT_CONNECT, ov_id := 7\<rparr>)]" "inflight fresh_connecting = [0]"
    "sin_addr (m_proxyAddress fresh_connecting) = Some 0x100007f"
    by (simp_all add: fresh_connecting_def createProxyConnection_def fresh_running_fields sys_def emit_eq
      fresh_env_def example_env_def Let_def INVALID_SOCKET_def registerSocket_def startConnect_def submit_def
      newOV_DATA_def ov_upd_def new_OV_DATA_def)
qed

lemma fresh_env_accepts: "accepts_tcp fresh_env"
  by (simp add: accepts_tcp_def fresh_env_def example_env_def)

theorem association_established_witness:
  "\<exists>v p t u pd'. worker_body (onComplete fresh_env ignore_datagram) example_connected (deliver example_connected fresh_waiting) = Some v \<and>
     conversation fresh_env ignore_datagram 3 p [[5, 0]] v = Some t \<and>
     tcp_out 3 (trace t) = tcp_out 3 (trace fresh_waiting) @ [[5, 1, 0], [5, 3, 0, 1, 0, 0, 0, 0, 0, 0]] \<and>
     conversation fresh_env ignore_datagram 3 p [[5, 0, 0, 1, 1, 0, 0, 127, 4, 0x38]] t = Some u \<and>
     map_of (m_socketMap u) 7 = Some pd' \<and> proxyState pd' = PS_CONNECTED \<and>
     sent_on 4 (trace u) = sent_on 4 (trace fresh_waiting) @ [[0, 0, 0, 1, 0x7f, 0, 0, 1, 4, 0x38, 1, 2]]"
proof -
  let ?pd = "new_PROXY_DATA\<lparr>tcpSocket := 3, udpSocket := 4, userName := [],
     userPassword := m_userPassword fresh_running, udpSendPackets := [waiting_packet]\<rparr>"
  let ?d = "new_OV_DATA\<lparr>ov_type := OVT_CONNECT, ov_id := 7\<rparr>"
  have legal: "legal fresh_waiting example_connected" "cq_ok example_connected" "cq_overlapped example_connected = Some 0"
    "map_of (m_ovDataSet fresh_waiting) 0 = Some ?d"
    by (simp_all add: legal_def example_connected_def is_timeout_def fresh_waiting_send fresh_connecting_request is_receive_def)
  have quiet: "receiver_calls no_sockets ignore_datagram" "receiver_calls no_datagrams ignore_datagram"
    by (simp_all add: ignore_datagram_calls no_sockets_def no_datagrams_def)
  have addr: "sin_addr (m_proxyAddress fresh_waiting) = Some 0x100007f"
    by (simp add: fresh_waiting_send fresh_connecting_request)
  have says: "dialogue ?pd = [[5, 1, 0], [5, 3, 0, 1, 0, 0, 0, 0, 0, 0]]" "agreeing ?pd = [[5, 0]]"
    "association_answer 0x7f000001 0x3804 = [5, 0, 0, 1, 1, 0, 0, 127, 4, 0x38]"
    "map enc_packet (udpSendPackets ?pd) = [[0, 0, 0, 1, 0x7f, 0, 0, 1, 4, 0x38, 1, 2]]"
    by (simp_all add: dialogue_def agreeing_def greeting_def) (code_simp+)?
  from association_established [OF ignore_datagram_ok quiet fresh_env_ok fresh_env_accepts fresh_waiting_reach
      fresh_waiting_send(2) addr legal, of 3 "0x7f000001" "0x3804"]
  show ?thesis unfolding says by (simp add: new_PROXY_DATA_def del: conversation.simps) blast
qed

text \<open>
  C30: a server that reads the credentials message gets the user name and the password back exactly
  when each has at most 255 bytes; longer ones are sent all the same, with a length that has
  wrapped around.
\<close>

theorem credentials_roundtrip:
  "read_credentials (password_request user pass) = Some (user, pass) \<longleftrightarrow> length user < 256 \<and> length pass < 256"
proof
  assume "length user < 256 \<and> length pass < 256"
  then show "read_credentials (password_request user pass) = Some (user, pass)"
    using counted_append [of user "word_of_nat (length pass) # pass"] counted_append [of pass "[]"]
    by (simp add: password_request_def del: counted.simps)
next
  assume "read_credentials (password_request user pass) = Some (user, pass)"
  then obtain b c d where "counted b = Some (user, c)" "counted c = Some (pass, d)"
    by (auto simp: password_request_def bind_eq_Some_conv simp del: counted.simps split: if_splits)
  then show "length user < 256 \<and> length pass < 256" using counted_size by blast
qed

end
