(* ===== verification/Udp_Fragments.thy ===== *)
theory Udp_Fragments
  imports Udp_Conversation
begin

text \<open>
  TCP carries bytes, not messages: an answer of the proxy may arrive in several pieces.
  \<open>onTcpReceiveComplete\<close> of \<open>UDPProxy.cpp\<close> looks at each piece alone, at the start of the buffer.
  This theory has what it does with an answer that is cut: a piece that is too short for the state is
  dropped, and a cut answer to the association request is completed with what an earlier answer
  left in the buffer. And an answer that is handled after its connection was deleted makes the
  handler receive again, on the number of a socket that is closed.
\<close>

text \<open>The bytes a state waits for; a shorter piece is not looked at.\<close>

fun expected_size :: "PROXY_STATE \<Rightarrow> nat" where
  "expected_size PS_AUTH = sizeof_SOCK5_AUTH_RESPONSE"
| "expected_size PS_AUTH_NEGOTIATION = sizeof_SOCK5_AUTH_RESPONSE"
| "expected_size PS_UDP_ASSOC = sizeof_SOCKS5_RESPONSE"
| "expected_size _ = 0"

lemma expected_size_small: "expected_size st \<le> PACKET_SIZE"
  by (cases st) (simp_all add: sizeof_SOCK5_AUTH_RESPONSE_def sizeof_SOCKS5_RESPONSE_def PACKET_SIZE_def)

lemma short_reply:
  "unat n < expected_size (proxyState pd) \<Longrightarrow> tcp_reply E cid pd n b t = Some t"
  by (cases "proxyState pd")
    (simp_all add: tcp_reply_def reply_auth_def reply_auth_negotiation_def reply_udp_assoc_def)

lemma piece_dropped:
  assumes "accepts_tcp E" "awaits s cid p" "map_of (m_socketMap s) cid = Some pd"
    and b: "b \<noteq> []" "length b < expected_size (proxyState pd)"
  shows "\<exists>u. worker_body (onComplete E recv) (answer sk p b) (deliver (answer sk p b) s) = Some u \<and>
    legal s (answer sk p b) \<and> m_socketMap u = m_socketMap s \<and> awaits u cid p \<and>
    (\<forall>k. tcp_out k (trace u) = tcp_out k (trace s))"
proof -
  let ?s = "leave_cs E (enter_cs E (deliver (answer sk p b) s))"
  have small: "length b \<le> PACKET_SIZE" using b(2) expected_size_small [of "proxyState pd"] by simp
  then have n: "unat (word_of_nat (length b) :: u32) = length b"
    by (simp add: unat_of_nat PACKET_SIZE_def take_bit_nat_eq_self)
  from answer_handled [OF assms(2) b(1) small assms(3), of sk E recv] obtain d where d:
    "length (ov_buffer d) = PACKET_SIZE" "ov_type d = OVT_TCP_RECEIVE" "ov_id d = cid"
    "map_of (m_ovDataSet (deliver (answer sk p b) s)) p = Some d"
    and body: "worker_body (onComplete E recv) (answer sk p b) (deliver (answer sk p b) s) =
      Option.bind (tcp_reply E cid pd (word_of_nat (length b)) (ov_buffer d) (enter_cs E (deliver (answer sk p b) s)))
        (\<lambda>t. Option.bind (map_of (m_ovDataSet t) p) (\<lambda>d. Option.bind (startTcpReceive E sk (ov_id d) (Some p) (leave_cs E t))
          (\<lambda>(r, u). Some u)))" by blast
  have "unat (word_of_nat (length b) :: u32) < expected_size (proxyState pd)" using b(2) n by simp
  note body [unfolded short_reply [OF this]]
  with d have body: "worker_body (onComplete E recv) (answer sk p b) (deliver (answer sk p b) s) =
      Option.bind (startTcpReceive E sk cid (Some p) ?s) (\<lambda>(r, u). Some u)" by simp
  from d have "map_of (m_ovDataSet ?s) p = Some d" by simp
  from receive_again [OF assms(1) this, of sk cid] obtain u where u:
    "startTcpReceive E sk cid (Some p) ?s = Some (True, u)" "m_socketMap u = m_socketMap ?s"
    "m_ovDataSet u = m_ovDataSet ?s" "p \<in> set (inflight u)" "\<forall>k. tcp_out k (trace u) = tcp_out k (trace ?s)"
    using assms(1) d(4) by (simp add: startTcpReceive_def accepts_tcp_def submit_def sys_def Let_def)
  have "awaits u cid p" using u(3,4) d by (simp add: awaits_def)
  moreover have "m_socketMap ?s = m_socketMap s" "trace (deliver (answer sk p b) s) = trace s"
    by (simp_all add: deliver_def answer_def)
  ultimately show ?thesis using u body answer_legal [OF assms(2) b(1) small] by simp
qed

lemma submit_trace: "\<exists>tr. trace (snd (submit E ok c p s)) = trace s @ (c, os E (trace s) c) # tr"
  by (simp add: submit_def sys_def Let_def)

section \<open>Properties\<close>

text \<open>
  C36: an answer of the proxy that arrives in pieces, each too short for its structure, is lost: however
  many pieces come, and whatever they add up to, the connection stays in its state, keeps waiting
  for an answer, and nothing more is said on any TCP connection.
\<close>

theorem fragments_lost:
  assumes "accepts_tcp E" "awaits s cid p" "map_of (m_socketMap s) cid = Some pd"
    and "\<forall>b \<in> set bs. b \<noteq> [] \<and> length b < expected_size (proxyState pd)"
  shows "\<exists>u. conversation E recv sk p bs s = Some u \<and> map_of (m_socketMap u) cid = Some pd \<and>
    awaits u cid p \<and> (\<forall>k. tcp_out k (trace u) = tcp_out k (trace s))"
  using assms(2-4)
proof (induction bs arbitrary: s)
  case (Cons b bs)
  then have "b \<noteq> []" "length b < expected_size (proxyState pd)" by simp_all
  from piece_dropped [OF assms(1) Cons.prems(1,2) this, of recv sk] obtain v where v:
    "worker_body (onComplete E recv) (answer sk p b) (deliver (answer sk p b) s) = Some v"
    "m_socketMap v = m_socketMap s" "awaits v cid p" "\<forall>k. tcp_out k (trace v) = tcp_out k (trace s)"
    by blast
  with Cons.IH [of v] Cons.prems show ?case by simp
qed simp

text \<open>The connection of the example, waiting for the method to be chosen.\<close>

lemma example_conversing:
  "\<exists>v p. worker_body (onComplete fresh_env ignore_datagram) example_connected (deliver example_connected fresh_waiting) = Some v \<and>
     conversing fresh_env ignore_datagram 7 p (Some (outbox (trace fresh_waiting) example_waiting_connection)) 0x100007f
       example_waiting_connection PS_AUTH
       (tcp_out 3 (trace fresh_waiting) @ [greeting example_waiting_connection]) v"
proof -
  have "legal fresh_waiting example_connected" "cq_ok example_connected" "cq_overlapped example_connected = Some 0"
    "map_of (m_ovDataSet fresh_waiting) 0 = Some (new_OV_DATA\<lparr>ov_type := OVT_CONNECT, ov_id := 7\<rparr>)"
    by (simp_all add: legal_def example_connected_def is_timeout_def fresh_waiting_send fresh_connecting_request is_receive_def)
  note legal = this
  have quiet: "receiver_calls no_sockets ignore_datagram" "receiver_calls no_datagrams ignore_datagram"
    by (simp_all add: ignore_datagram_calls no_sockets_def no_datagrams_def)
  have addr: "sin_addr (m_proxyAddress fresh_waiting) = Some 0x100007f"
    by (simp add: fresh_waiting_send fresh_connecting_request)
  have "tcpSocket example_waiting_connection = 3" by (simp add: example_waiting_connection_def)
  with conversing_connect [OF ignore_datagram_ok quiet fresh_env_ok fresh_env_accepts fresh_waiting_reach
      fresh_waiting_connection addr legal] show ?thesis by simp
qed

theorem fragments_lost_witness:
  "\<exists>v p u pd. worker_body (onComplete fresh_env ignore_datagram) example_connected (deliver example_connected fresh_waiting) = Some v \<and>
     conversation fresh_env ignore_datagram 3 p [[5], [0]] v = Some u \<and>
     map_of (m_socketMap u) 7 = Some pd \<and> proxyState pd = PS_AUTH \<and> tcp_out 3 (trace u) = tcp_out 3 (trace v)"
proof -
  from example_conversing obtain v p where v: "worker_body (onComplete fresh_env ignore_datagram) example_connected
      (deliver example_connected fresh_waiting) = Some v" "awaits v 7 p"
    "map_of (m_socketMap v) 7 = Some (example_waiting_connection\<lparr>proxyState := PS_AUTH\<rparr>)"
    by (auto simp: conversing_def)
  have "\<forall>b \<in> set [[5], [0]]. b \<noteq> [] \<and> length b < expected_size (proxyState (example_waiting_connection\<lparr>proxyState := PS_AUTH\<rparr>))"
    by (simp add: sizeof_SOCK5_AUTH_RESPONSE_def)
  from fragments_lost [OF fresh_env_accepts v(2,3) this, of ignore_datagram 3] v(1) show ?thesis
    by (fastforce simp del: conversation.simps)
qed

text \<open>
  C37: an answer to the association request that is cut before the port is taken for the whole: the
  connection counts as established, with the port that the buffer holds there from an earlier
  answer instead of the one the proxy is sending.
\<close>

theorem cut_association_port:
  assumes "receiver_ok recv" "proxy_reach E recv s" "awaits s cid p" "map_of (m_socketMap s) cid = Some pd"
    and "proxyState pd = PS_UDP_ASSOC" "sin_addr (m_proxyAddress s) = Some a"
    and "map_of (m_ovDataSet s) p = Some d" "5 \<le> k" "k \<le> 8"
  shows "\<exists>u pd'. conversation E recv sk p [take k (association_answer ip port)] s = Some u \<and>
    map_of (m_socketMap u) cid = Some pd' \<and> proxyState pd' = PS_CONNECTED \<and> udpSendPackets pd' = [] \<and>
    take 16 (pd_remoteAddress pd') = mk_sockaddr_in (of_le16 (ov_buffer d ! 8) (ov_buffer d ! 9)) a"
proof -
  let ?b = "take k (association_answer ip port)"
  have inv: "proxy_inv {} s" using proxy_reach_inv(1) [OF assms(1,2)] by (simp add: proxy_running_def)
  have len: "length ?b = k" using assms(9) by (simp add: association_answer_shape)
  have b: "take 4 ?b = [5, 0, 0, 1]" "5 \<le> length ?b" "length ?b \<le> PACKET_SIZE"
    using assms(8,9) by (simp_all add: association_answer_shape PACKET_SIZE_def)
  have big: "length (ov_buffer d) = PACKET_SIZE" using assms(3,7) by (auto simp: awaits_def)
  have bytes: "(?b @ drop k (ov_buffer d)) ! i = ov_buffer d ! i" if "i \<in> {8, 9}" for i
    using that assms(9) len big by (auto simp: nth_append PACKET_SIZE_def)
  from association_handled [OF inv assms(3-6) b, where E = E and recv = recv and sk = sk] assms(7) len bytes
  show ?thesis by auto
qed

theorem cut_association_port_witness:
  "\<exists>v p t u d pd. worker_body (onComplete fresh_env ignore_datagram) example_connected (deliver example_connected fresh_waiting) = Some v \<and>
     conversation fresh_env ignore_datagram 3 p [[5, 0]] v = Some t \<and> map_of (m_ovDataSet t) p = Some d \<and>
     conversation fresh_env ignore_datagram 3 p [[5, 0, 0, 1, 1, 0, 0]] t = Some u \<and>
     map_of (m_socketMap u) 7 = Some pd \<and> proxyState pd = PS_CONNECTED \<and>
     take 16 (pd_remoteAddress pd) = mk_sockaddr_in (of_le16 (ov_buffer d ! 8) (ov_buffer d ! 9)) 0x100007f"
proof -
  have quiet: "receiver_calls no_sockets ignore_datagram" "receiver_calls no_datagrams ignore_datagram"
    by (simp_all add: ignore_datagram_calls no_sockets_def no_datagrams_def)
  from example_conversing obtain v p where v: "worker_body (onComplete fresh_env ignore_datagram) example_connected
      (deliver example_connected fresh_waiting) = Some v"
    "conversing fresh_env ignore_datagram 7 p (Some (outbox (trace fresh_waiting) example_waiting_connection)) 0x100007f
       example_waiting_connection PS_AUTH (tcp_out (tcpSocket example_waiting_connection) (trace fresh_waiting) @
         [greeting example_waiting_connection]) v"
    by (auto simp: example_waiting_connection_def)
  have says: "agreeing example_waiting_connection = [[5, 0]]"
    "take 7 (association_answer 0x7f000001 0x3804) = [5, 0, 0, 1, 1, 0, 0]"
    by (simp_all add: agreeing_def example_waiting_connection_def) (code_simp+)?
  from conversing_agreed [OF ignore_datagram_ok quiet fresh_env_ok fresh_env_accepts v(2), of 3] obtain t where
    t: "conversation fresh_env ignore_datagram 3 p [[5, 0]] v = Some t" "proxy_reach fresh_env ignore_datagram t"
      "awaits t 7 p" "map_of (m_socketMap t) 7 = Some (example_waiting_connection\<lparr>proxyState := PS_UDP_ASSOC\<rparr>)"
      "sin_addr (m_proxyAddress t) = Some 0x100007f"
    unfolding says by (auto simp: conversing_def simp del: conversation.simps)
  from t(3) obtain d where d: "map_of (m_ovDataSet t) p = Some d" by (auto simp: awaits_def)
  from cut_association_port [OF ignore_datagram_ok t(2-4) _ t(5) d, where k = 7 and sk = 3 and ip = "0x7f000001" and port = "0x3804"] v(1) t(1) d
  show ?thesis unfolding says by (simp del: conversation.simps) blast
qed

text \<open>
  C32: a completion that was queued with data when its connection was deleted is handled as if nothing
  had happened: the receive is issued again on the socket number of the completion, although that
  socket was closed with its connection and the number may have been given to another one.
\<close>

theorem stale_receive_rearmed:
  assumes "awaits s cid p" "map_of (m_socketMap s) cid = None" "b \<noteq> []" "length b \<le> PACKET_SIZE"
  shows "\<exists>u tr r. worker_body (onComplete E recv) (answer sk p b) (deliver (answer sk p b) s) = Some u \<and>
    trace u = trace s @ tr \<and> (Net (WSARecv sk p), r) \<in> set tr"
proof -
  let ?s = "deliver (answer sk p b) s"
  from assms(1) obtain d where d: "map_of (m_ovDataSet ?s) p = Some d" "ov_type d = OVT_TCP_RECEIVE" "ov_id d = cid"
    by (auto simp: awaits_def deliver_def answer_def is_receive_def)
  have "(word_of_nat (length b) :: u32) \<noteq> 0"
    using assms(3,4) by (simp add: PACKET_SIZE_def word_of_nat_eq_0_iff nat_dvd_not_less)
  then have body: "worker_body (onComplete E recv) (answer sk p b) ?s =
      Option.bind (startTcpReceive E sk cid (Some p) (leave_cs E (enter_cs E ?s))) (\<lambda>(r, u). Some u)"
    using d assms(2) by (simp add: worker_body_def answer_def onComplete_def onTcpReceiveComplete_def Let_def)
  let ?v = "leave_cs E (enter_cs E ?s)"
  let ?sub = "submit E (\<lambda>r. r = 0) (Net (WSARecv sk p)) p ?v"
  have "startTcpReceive E sk cid (Some p) ?v = Some (True, if fst ?sub then snd ?sub else post_or_delete E sk p (snd ?sub))"
    using d(1) by (simp add: startTcpReceive_def split_def Let_def)
  note run = body [unfolded this]
  obtain tr where tr: "trace ?v = trace s @ tr" by (simp add: emit_eq deliver_def answer_def)
  obtain tr2 where sub: "trace (snd ?sub) = trace ?v @ (Net (WSARecv sk p), os E (trace ?v) (Net (WSARecv sk p))) # tr2"
    using submit_trace by blast
  obtain tr3 where "trace (post_or_delete E sk p (snd ?sub)) = trace (snd ?sub) @ tr3"
    using locks.ext_post_or_delete [OF locks.ext_refl [OF refl], of "snd ?sub" E sk p] by (auto simp: extends_def)
  with run tr sub show ?thesis by (cases "fst ?sub") auto
qed

theorem stale_receive_rearmed_witness:
  "\<exists>v p t u tr r. worker_body (onComplete fresh_env ignore_datagram) example_connected (deliver example_connected fresh_waiting) = Some v \<and>
     t = deleteProxyConnection fresh_env 7 v \<and> proxy_reach fresh_env ignore_datagram t \<and>
     worker_body (onComplete fresh_env ignore_datagram) (answer 3 p [5, 0]) (deliver (answer 3 p [5, 0]) t) = Some u \<and>
     3 \<in> set (closed_sockets (trace t)) \<and> trace u = trace t @ tr \<and> (Net (WSARecv 3 p), r) \<in> set tr"
proof -
  from example_conversing obtain v p where v: "worker_body (onComplete fresh_env ignore_datagram) example_connected
      (deliver example_connected fresh_waiting) = Some v" "awaits v 7 p" "proxy_reach fresh_env ignore_datagram v"
    "map_of (m_socketMap v) 7 = Some (example_waiting_connection\<lparr>proxyState := PS_AUTH\<rparr>)"
    by (auto simp: conversing_def)
  let ?t = "deleteProxyConnection fresh_env 7 v"
  have "proxy_reach fresh_env ignore_datagram ?t" by (rule reach_step [OF v(3) step_delete])
  moreover have "3 \<in> set (closed_sockets (trace ?t))"
    using v(4) by (simp add: deleteProxyConnection_def delete_PROXY_DATA_def emit_eq Let_def example_waiting_connection_def
        INVALID_SOCKET_def)
  moreover have "awaits ?t 7 p" "map_of (m_socketMap ?t) 7 = None" using v(2) by (simp_all add: awaits_def)
  from stale_receive_rearmed [OF this, of "[5, 0]" fresh_env ignore_datagram 3]
  obtain u tr r where "worker_body (onComplete fresh_env ignore_datagram) (answer 3 p [5, 0]) (deliver (answer 3 p [5, 0]) ?t) = Some u"
    "trace u = trace ?t @ tr" "(Net (WSARecv 3 p), r) \<in> set tr"
    by (auto simp: PACKET_SIZE_def)
  ultimately show ?thesis using v(1) by blast
qed

end
