(* ===== verification/Udp_Datagram.thy ===== *)
theory Udp_Datagram
  imports Udp_Fifo
begin

text \<open>
  The SOCKS5 datagram format, both directions: what \<open>udpSend\<close> puts before a payload is what
  \<open>onUdpReceiveComplete\<close> takes off, and how the length of the payload is computed.
\<close>

lemma payload_len_eq:
  assumes "unat n < 2 ^ 31" "sz < 2 ^ 31"
  shows "payload_len n sz = int (unat n) - int sz"
proof -
  let ?x = "int (unat n) - int sz"
  have sz: "sz mod 2 ^ 64 = sz" using assms(2) by simp
  have u: "uint (ucast n - word_of_nat sz :: u64) = take_bit 64 ?x"
    by (simp add: uint_word_ariths(2) unsigned_of_nat unsigned_ucast_eq flip: take_bit_eq_mod)
      (use sz in \<open>simp add: take_bit_eq_mod mod_simps\<close>)
  have "sint (ucast w :: u32) = signed_take_bit 31 (uint w)" for w :: u64
    by (simp add: sint_uint unsigned_ucast_eq signed_take_bit_take_bit)
  then have "payload_len n sz = signed_take_bit 31 (take_bit 64 ?x)"
    by (simp add: payload_len_def u)
  also have "\<dots> = signed_take_bit 31 ?x" by (simp add: signed_take_bit_take_bit)
  also have "\<dots> = ?x" using assms by (intro signed_take_bit_int_eq_self) (simp_all del: of_nat_unat)
  finally show ?thesis .
qed

text \<open>The common header is the first bytes of each of the two long ones.\<close>

lemma udp_header_IPv4:
  "length b \<ge> 10 \<Longrightarrow> dec_SOCKS5_UDP_REQUEST_IPv4 b = Some r \<Longrightarrow>
   \<exists>q. dec_SOCKS5_UDP_REQUEST b = Some q \<and> s5u_address_type q = s5u4_address_type r"
  by (auto simp: dec_SOCKS5_UDP_REQUEST_def dec_SOCKS5_UDP_REQUEST_IPv4_def rd8_def rd16_def bind_eq_Some_conv
      split: if_splits)

lemma udp_header_IPv6:
  "length b \<ge> 22 \<Longrightarrow> dec_SOCKS5_UDP_REQUEST_IPv6 b = Some r \<Longrightarrow>
   \<exists>q. dec_SOCKS5_UDP_REQUEST b = Some q \<and> s5u_address_type q = s5u6_address_type r"
  by (auto simp: dec_SOCKS5_UDP_REQUEST_def dec_SOCKS5_UDP_REQUEST_IPv6_def rd8_def rd16_def bind_eq_Some_conv
      split: if_splits)

text \<open>The datagrams of the two families, from the fields of the address.\<close>

definition datagram4 :: "u16 \<Rightarrow> u32 \<Rightarrow> bytes \<Rightarrow> bytes" where
  "datagram4 port addr payload = enc_SOCKS5_UDP_REQUEST_IPv4
     \<lparr>s5u4_reserved = 0, s5u4_frag = 0, s5u4_address_type = SOCKS5_ADDR_IPV4,
      s5u4_address = addr, s5u4_port = port\<rparr> @ payload"

definition datagram6 :: "u16 \<Rightarrow> bytes \<Rightarrow> bytes \<Rightarrow> bytes" where
  "datagram6 port addr payload = enc_SOCKS5_UDP_REQUEST_IPv6
     \<lparr>s5u6_reserved = 0, s5u6_frag = 0, s5u6_address_type = SOCKS5_ADDR_IPV6,
      s5u6_address = addr, s5u6_port = port\<rparr> @ payload"

lemma udp_datagram_families:
  "udp_datagram (mk_sockaddr_in port addr) payload = Some (datagram4 port addr payload)"
  "length a6 = 16 \<Longrightarrow> udp_datagram (mk_sockaddr_in6 port a6) payload = Some (datagram6 port a6 payload)"
  by (simp_all add: udp_datagram_def datagram4_def datagram6_def)

text \<open>What the handler does after the callback.\<close>

definition rearm :: "env \<Rightarrow> sock \<Rightarrow> ovp \<Rightarrow> 'a udp_proxy_scheme \<Rightarrow> 'a udp_proxy_scheme option" where
  "rearm E sk p s = do {
     d \<leftarrow> map_of (m_ovDataSet s) p;
     (r, s) \<leftarrow> startUdpReceive E sk (ov_id d) (Some p) s;
     Some s
   }"

lemma receive_IPv4:
  assumes "map_of (m_ovDataSet s) p = Some d" "dec_SOCKS5_UDP_REQUEST_IPv4 (ov_buffer d) = Some r"
    and "s5u4_address_type r = SOCKS5_ADDR_IPV4" "sizeof_SOCKS5_UDP_REQUEST < unat n" "m_pProxyHandler s"
  shows "onUdpReceiveComplete E recv sk n p err s =
    Option.bind (recv (ov_id d) (drop 10 (ov_buffer d)) (payload_len n 10)
      (mk_sockaddr_in (s5u4_port r) (s5u4_address r)) 16 s) (rearm E sk p)"
proof -
  have "length (ov_buffer d) \<ge> 10"
    using s5u4.dec_None [of "ov_buffer d"] assms(2) by (simp add: sizeof_SOCKS5_UDP_REQUEST_IPv4_def)
  from udp_header_IPv4 [OF this assms(2)] assms(3) obtain q where
    "dec_SOCKS5_UDP_REQUEST (ov_buffer d) = Some q" "s5u_address_type q = SOCKS5_ADDR_IPV4" by auto
  moreover have "n \<noteq> 0" using assms(4) by auto
  ultimately show ?thesis
    using assms by (simp add: onUdpReceiveComplete_def rearm_def [abs_def] sizeof_sockaddr_in_def
        sizeof_SOCKS5_UDP_REQUEST_IPv4_def Let_def)
qed

lemma receive_IPv6:
  assumes "map_of (m_ovDataSet s) p = Some d" "dec_SOCKS5_UDP_REQUEST_IPv6 (ov_buffer d) = Some r"
    and "s5u6_address_type r = SOCKS5_ADDR_IPV6" "sizeof_SOCKS5_UDP_REQUEST < unat n" "m_pProxyHandler s"
  shows "onUdpReceiveComplete E recv sk n p err s =
    Option.bind (recv (ov_id d) (drop 22 (ov_buffer d)) (payload_len n 22)
      (mk_sockaddr_in6 (s5u6_port r) (s5u6_address r)) 28 s) (rearm E sk p)"
proof -
  have "length (ov_buffer d) \<ge> 22"
    using s5u6.dec_None [of "ov_buffer d"] assms(2) by (simp add: sizeof_SOCKS5_UDP_REQUEST_IPv6_def)
  from udp_header_IPv6 [OF this assms(2)] assms(3) obtain q where
    "dec_SOCKS5_UDP_REQUEST (ov_buffer d) = Some q" "s5u_address_type q = SOCKS5_ADDR_IPV6" by auto
  moreover have "n \<noteq> 0" using assms(4) by auto
  ultimately show ?thesis
    using assms by (simp add: onUdpReceiveComplete_def rearm_def [abs_def] sizeof_sockaddr_in6_def
        sizeof_SOCKS5_UDP_REQUEST_IPv6_def SOCKS5_ADDR_IPV4_def SOCKS5_ADDR_IPV6_def Let_def)
qed

lemma datagram_lengths [simp]:
  "length (datagram4 port addr payload) = 10 + length payload"
  "length a6 = 16 \<Longrightarrow> length (datagram6 port a6 payload) = 22 + length payload"
  using s5u4.enc_length s5u6.enc_length
  by (simp_all add: datagram4_def datagram6_def sizeof_SOCKS5_UDP_REQUEST_IPv4_def sizeof_SOCKS5_UDP_REQUEST_IPv6_def)

section \<open>Properties\<close>

text \<open>
  C21: encapsulation is undone by decapsulation, for both address families: when a received buffer
  starts with the datagram \<open>udpSend\<close> makes for an address and a payload, the receive handler calls
  back with exactly that address and that payload's bytes and length, then receives again.
\<close>

theorem encapsulation_roundtrip:
  assumes "udp_datagram ra payload = Some dg"
    and "ra = mk_sockaddr_in port addr \<or> (ra = mk_sockaddr_in6 port a6 \<and> length a6 = 16)"
    and "map_of (m_ovDataSet s) p = Some d" "ov_buffer d = dg @ rest"
    and "unat n = length dg" "length dg < 2 ^ 31" "m_pProxyHandler s"
  shows "onUdpReceiveComplete E recv sk n p err s =
    Option.bind (recv (ov_id d) (payload @ rest) (int (length payload)) ra (int (length ra)) s) (rearm E sk p)"
  using assms(2)
proof
  assume ra: "ra = mk_sockaddr_in port addr"
  with assms(1) have dg: "dg = datagram4 port addr payload" by (simp add: udp_datagram_families)
  have dec: "dec_SOCKS5_UDP_REQUEST_IPv4 (ov_buffer d) = Some \<lparr>s5u4_reserved = 0, s5u4_frag = 0,
      s5u4_address_type = SOCKS5_ADDR_IPV4, s5u4_address = addr, s5u4_port = port\<rparr>"
    using s5u4.dec_enc by (simp add: assms(4) dg datagram4_def)
  have "drop 10 (ov_buffer d) = payload @ rest"
    using s5u4.enc_length by (simp add: assms(4) dg datagram4_def sizeof_SOCKS5_UDP_REQUEST_IPv4_def)
  with receive_IPv4 [OF assms(3) dec _ _ assms(7)] show ?thesis
    using assms(5,6) by (simp add: ra dg payload_len_eq sizeof_SOCKS5_UDP_REQUEST_def)
next
  assume ra: "ra = mk_sockaddr_in6 port a6 \<and> length a6 = 16"
  with assms(1) have dg: "dg = datagram6 port a6 payload" by (simp add: udp_datagram_families)
  have dec: "dec_SOCKS5_UDP_REQUEST_IPv6 (ov_buffer d) = Some \<lparr>s5u6_reserved = 0, s5u6_frag = 0,
      s5u6_address_type = SOCKS5_ADDR_IPV6, s5u6_address = a6, s5u6_port = port\<rparr>"
    using s5u6.dec_enc ra by (simp add: assms(4) dg datagram6_def)
  have "drop 22 (ov_buffer d) = payload @ rest"
    using s5u6.enc_length ra by (simp add: assms(4) dg datagram6_def sizeof_SOCKS5_UDP_REQUEST_IPv6_def)
  with receive_IPv6 [OF assms(3) dec _ _ assms(7)] show ?thesis
    using assms(5,6) ra by (simp add: dg payload_len_eq sizeof_SOCKS5_UDP_REQUEST_def)
qed

definition example_receiving :: udp_proxy where
  "example_receiving = example_idle\<lparr>m_ovDataSet := [(0, new_OV_DATA\<lparr>ov_type := OVT_UDP_RECEIVE, ov_id := 7,
     ov_buffer := datagram4 0x3500 0x8080808 [1, 2] @ [9, 9]\<rparr>)], m_pProxyHandler := True\<rparr>"

definition take_payload :: "udp_proxy recv_fun" where
  "take_payload cid buf len a alen s = (if 0 \<le> len \<and> alen = 16 then Some (s\<lparr>m_userName := take (nat len) buf\<rparr>) else None)"

theorem encapsulation_roundtrip_witness:
  "onUdpReceiveComplete example_env take_payload 4 12 0 0 example_receiving =
   rearm example_env 4 0 (example_receiving\<lparr>m_userName := [1, 2]\<rparr>)"
proof -
  have "map_of (m_ovDataSet example_receiving) 0 = Some (new_OV_DATA\<lparr>ov_type := OVT_UDP_RECEIVE, ov_id := 7,
     ov_buffer := datagram4 0x3500 0x8080808 [1, 2] @ [9, 9]\<rparr>)" "m_pProxyHandler example_receiving"
    by (simp_all add: example_receiving_def)
  from encapsulation_roundtrip [OF udp_datagram_families(1)
      [of "0x3500" "0x8080808" "[1, 2]"] _ this(1) _ _ _ this(2), where n = 12
      and port = "0x3500" and addr = "0x8080808"] show ?thesis
    by (simp add: take_payload_def)
qed

text \<open>
  Buffers that hold a whole header of either family, the first with an IPv4 and the second with an
  IPv6 address.
\<close>

definition example_short :: udp_proxy where
  "example_short = example_idle\<lparr>m_ovDataSet :=
     [(0, new_OV_DATA\<lparr>ov_type := OVT_UDP_RECEIVE, ov_id := 7,
        ov_buffer := datagram4 0x3500 0x8080808 (replicate 20 9)\<rparr>),
      (1, new_OV_DATA\<lparr>ov_type := OVT_UDP_RECEIVE, ov_id := 8,
        ov_buffer := datagram6 0x3500 (replicate 16 1) [9, 9]\<rparr>)], m_pProxyHandler := True\<rparr>"

text \<open>The two headers of a buffer whose common header names the family.\<close>

lemma udp_header_decodes:
  assumes "dec_SOCKS5_UDP_REQUEST b = Some q" "22 \<le> length b"
  shows "\<exists>r. dec_SOCKS5_UDP_REQUEST_IPv4 b = Some r \<and> s5u4_address_type r = s5u_address_type q"
    and "\<exists>r. dec_SOCKS5_UDP_REQUEST_IPv6 b = Some r \<and> s5u6_address_type r = s5u_address_type q"
proof -
  from assms(2) obtain r where r: "dec_SOCKS5_UDP_REQUEST_IPv4 b = Some r"
    using s5u4.dec_None [of b] by (auto simp: sizeof_SOCKS5_UDP_REQUEST_IPv4_def)
  with udp_header_IPv4 [OF _ this] assms
  show "\<exists>r. dec_SOCKS5_UDP_REQUEST_IPv4 b = Some r \<and> s5u4_address_type r = s5u_address_type q" by auto
next
  from assms(2) obtain r where r: "dec_SOCKS5_UDP_REQUEST_IPv6 b = Some r"
    using s5u6.dec_None [of b] by (auto simp: sizeof_SOCKS5_UDP_REQUEST_IPv6_def)
  with udp_header_IPv6 [OF _ this] assms
  show "\<exists>r. dec_SOCKS5_UDP_REQUEST_IPv6 b = Some r \<and> s5u6_address_type r = s5u_address_type q" by auto
qed

text \<open>
  C40: a datagram that is longer than the common header but shorter than the header of its address
  family is not rejected, for either family: the handler is called with a negative payload length,
  the number of bytes that are missing, and with an address read from bytes that were not received.
\<close>

theorem short_datagram_negative_length:
  assumes "map_of (m_ovDataSet s) p = Some d" "m_pProxyHandler s"
    and "dec_SOCKS5_UDP_REQUEST (ov_buffer d) = Some q" "22 \<le> length (ov_buffer d)"
    and "sizeof_SOCKS5_UDP_REQUEST < unat n"
  shows "(s5u_address_type q = SOCKS5_ADDR_IPV4 \<and> unat n < sizeof_SOCKS5_UDP_REQUEST_IPv4 \<longrightarrow>
      (\<exists>r. dec_SOCKS5_UDP_REQUEST_IPv4 (ov_buffer d) = Some r \<and>
         onUdpReceiveComplete E recv sk n p err s =
         Option.bind (recv (ov_id d) (drop 10 (ov_buffer d)) (- int (10 - unat n))
           (mk_sockaddr_in (s5u4_port r) (s5u4_address r)) 16 s) (rearm E sk p))) \<and>
    (s5u_address_type q = SOCKS5_ADDR_IPV6 \<and> unat n < sizeof_SOCKS5_UDP_REQUEST_IPv6 \<longrightarrow>
      (\<exists>r. dec_SOCKS5_UDP_REQUEST_IPv6 (ov_buffer d) = Some r \<and>
         onUdpReceiveComplete E recv sk n p err s =
         Option.bind (recv (ov_id d) (drop 22 (ov_buffer d)) (- int (22 - unat n))
           (mk_sockaddr_in6 (s5u6_port r) (s5u6_address r)) 28 s) (rearm E sk p)))"
proof (intro conjI impI)
  assume fam: "s5u_address_type q = SOCKS5_ADDR_IPV4 \<and> unat n < sizeof_SOCKS5_UDP_REQUEST_IPv4"
  then have n: "unat n < 10" by (simp add: sizeof_SOCKS5_UDP_REQUEST_IPv4_def)
  then have len: "payload_len n 10 = - int (10 - unat n)" by (subst payload_len_eq) auto
  from udp_header_decodes(1) [OF assms(3,4)] obtain r where r:
    "dec_SOCKS5_UDP_REQUEST_IPv4 (ov_buffer d) = Some r" "s5u4_address_type r = SOCKS5_ADDR_IPV4"
    using fam by auto
  from receive_IPv4 [OF assms(1) r assms(5,2)] r(1) show "\<exists>r. dec_SOCKS5_UDP_REQUEST_IPv4 (ov_buffer d) = Some r \<and>
         onUdpReceiveComplete E recv sk n p err s =
         Option.bind (recv (ov_id d) (drop 10 (ov_buffer d)) (- int (10 - unat n))
           (mk_sockaddr_in (s5u4_port r) (s5u4_address r)) 16 s) (rearm E sk p)" unfolding len by blast
next
  assume fam: "s5u_address_type q = SOCKS5_ADDR_IPV6 \<and> unat n < sizeof_SOCKS5_UDP_REQUEST_IPv6"
  then have n: "unat n < 22" by (simp add: sizeof_SOCKS5_UDP_REQUEST_IPv6_def)
  then have len: "payload_len n 22 = - int (22 - unat n)" by (subst payload_len_eq) auto
  from udp_header_decodes(2) [OF assms(3,4)] obtain r where r:
    "dec_SOCKS5_UDP_REQUEST_IPv6 (ov_buffer d) = Some r" "s5u6_address_type r = SOCKS5_ADDR_IPV6"
    using fam by auto
  from receive_IPv6 [OF assms(1) r assms(5,2)] r(1) show "\<exists>r. dec_SOCKS5_UDP_REQUEST_IPv6 (ov_buffer d) = Some r \<and>
         onUdpReceiveComplete E recv sk n p err s =
         Option.bind (recv (ov_id d) (drop 22 (ov_buffer d)) (- int (22 - unat n))
           (mk_sockaddr_in6 (s5u6_port r) (s5u6_address r)) 28 s) (rearm E sk p)" unfolding len by blast
qed

theorem short_datagram_negative_length_witness:
  "(onUdpReceiveComplete example_env ignore_datagram 4 6 0 0 example_short =
     Option.bind (ignore_datagram 7 (replicate 20 9) (- 4)
       (mk_sockaddr_in 0x3500 0x8080808) 16 example_short) (rearm example_env 4 0)) \<and>
   (onUdpReceiveComplete example_env ignore_datagram 4 20 1 0 example_short =
     Option.bind (ignore_datagram 8 [9, 9] (- 2)
       (mk_sockaddr_in6 0x3500 (replicate 16 1)) 28 example_short) (rearm example_env 4 1))"
proof
  let ?d = "new_OV_DATA\<lparr>ov_type := OVT_UDP_RECEIVE, ov_id := 7,
        ov_buffer := datagram4 0x3500 0x8080808 (replicate 20 9)\<rparr>"
  let ?r = "\<lparr>s5u4_reserved = 0, s5u4_frag = 0, s5u4_address_type = SOCKS5_ADDR_IPV4,
      s5u4_address = 0x8080808, s5u4_port = 0x3500\<rparr>"
  have d: "map_of (m_ovDataSet example_short) 0 = Some ?d" "m_pProxyHandler example_short"
    by (simp_all add: example_short_def)
  have r: "dec_SOCKS5_UDP_REQUEST_IPv4 (ov_buffer ?d) = Some ?r" using s5u4.dec_enc by (simp add: datagram4_def)
  then obtain q where q: "dec_SOCKS5_UDP_REQUEST (ov_buffer ?d) = Some q" "s5u_address_type q = SOCKS5_ADDR_IPV4"
    using udp_header_IPv4 [of "ov_buffer ?d" ?r] by auto
  have len: "length (ov_buffer ?d) = 30" "drop 10 (ov_buffer ?d) = replicate 20 9"
    using s5u4.enc_length [of ?r] by (simp_all add: sizeof_SOCKS5_UDP_REQUEST_IPv4_def datagram4_def)
  have sz: "22 \<le> length (ov_buffer ?d)" "sizeof_SOCKS5_UDP_REQUEST < unat (6 :: u32)"
    "unat (6 :: u32) < sizeof_SOCKS5_UDP_REQUEST_IPv4" "- int (10 - unat (6 :: u32)) = - 4" "ov_id ?d = 7"
    by (simp_all only: len(1)) (simp_all add: sizeof_SOCKS5_UDP_REQUEST_def sizeof_SOCKS5_UDP_REQUEST_IPv4_def)
  note conjunct1 [OF short_datagram_negative_length [OF d q(1) sz(1,2), of example_env ignore_datagram 4 0], THEN mp, OF conjI [OF q(2) sz(3)]]
  then show "onUdpReceiveComplete example_env ignore_datagram 4 6 0 0 example_short =
     Option.bind (ignore_datagram 7 (replicate 20 9) (- 4)
       (mk_sockaddr_in 0x3500 0x8080808) 16 example_short) (rearm example_env 4 0)"
    unfolding len(2) sz(4,5) r by auto
next
  let ?d = "new_OV_DATA\<lparr>ov_type := OVT_UDP_RECEIVE, ov_id := 8,
        ov_buffer := datagram6 0x3500 (replicate 16 1) [9, 9]\<rparr>"
  let ?r = "\<lparr>s5u6_reserved = 0, s5u6_frag = 0, s5u6_address_type = SOCKS5_ADDR_IPV6,
      s5u6_address = replicate 16 1, s5u6_port = 0x3500\<rparr>"
  have d: "map_of (m_ovDataSet example_short) 1 = Some ?d" "m_pProxyHandler example_short"
    by (simp_all add: example_short_def)
  have r: "dec_SOCKS5_UDP_REQUEST_IPv6 (ov_buffer ?d) = Some ?r" using s5u6.dec_enc by (simp add: datagram6_def)
  then obtain q where q: "dec_SOCKS5_UDP_REQUEST (ov_buffer ?d) = Some q" "s5u_address_type q = SOCKS5_ADDR_IPV6"
    using udp_header_IPv6 [of "ov_buffer ?d" ?r] by auto
  have len: "length (ov_buffer ?d) = 24" "drop 22 (ov_buffer ?d) = [9, 9]"
    using s5u6.enc_length [of ?r] by (simp_all add: sizeof_SOCKS5_UDP_REQUEST_IPv6_def datagram6_def)
  have sz: "22 \<le> length (ov_buffer ?d)" "sizeof_SOCKS5_UDP_REQUEST < unat (20 :: u32)"
    "unat (20 :: u32) < sizeof_SOCKS5_UDP_REQUEST_IPv6" "- int (22 - unat (20 :: u32)) = - 2" "ov_id ?d = 8"
    by (simp_all only: len(1)) (simp_all add: sizeof_SOCKS5_UDP_REQUEST_def sizeof_SOCKS5_UDP_REQUEST_IPv6_def)
  note conjunct2 [OF short_datagram_negative_length [OF d q(1) sz(1,2), of example_env ignore_datagram 4 0], THEN mp, OF conjI [OF q(2) sz(3)]]
  then show "onUdpReceiveComplete example_env ignore_datagram 4 20 1 0 example_short =
     Option.bind (ignore_datagram 8 [9, 9] (- 2)
       (mk_sockaddr_in6 0x3500 (replicate 16 1)) 28 example_short) (rearm example_env 4 1)"
    unfolding len(2) sz(4,5) r by auto
qed

end
