(* ===== verification/Udp_Context.thy ===== *)
theory Udp_Context
  imports NF_Types
begin

text \<open>
  \<open>src/netfilter/UDPContext.hpp\<close>: the copy of a UDP endpoint's datagram options that the event
  handler keeps, so that it can indicate received datagrams with them. The bytes of the allocation
  that the constructor does not write are shown as zero.
\<close>

record UDPContext =
  m_options :: "bytes option"

text \<open>
  Sizes are \<open>size_t\<close>; \<open>optionsLength\<close> is a signed \<open>long\<close>, so it is sign-extended first. A copy that
  leaves the source block or the allocation is \<open>None\<close>.
\<close>

definition allocated_size :: "NF_UDP_OPTIONS \<Rightarrow> u64" where
  "allocated_size opt = word_of_nat sizeof_NF_UDP_OPTIONS + scast (optionsLength opt)"

definition copied_size :: "NF_UDP_OPTIONS \<Rightarrow> u64" where
  "copied_size opt = word_of_nat sizeof_NF_UDP_OPTIONS + scast (optionsLength opt) - 1"

definition UDPContext_ctor :: "NF_UDP_OPTIONS option \<Rightarrow> UDPContext option" where
  "UDPContext_ctor opts = (case opts of
       None \<Rightarrow> Some \<lparr>m_options = None\<rparr>
     | Some opt \<Rightarrow> do {
         src \<leftarrow> rdn 0 (unat (copied_size opt)) (enc_NF_UDP_OPTIONS opt);
         m \<leftarrow> wrn 0 src (replicate (unat (allocated_size opt)) 0);
         Some \<lparr>m_options = Some m\<rparr>
       })"

definition UDPContext_dtor :: "UDPContext \<Rightarrow> UDPContext" where
  "UDPContext_dtor ctx = (if m_options ctx \<noteq> None then ctx\<lparr>m_options := None\<rparr> else ctx)"

text \<open>
  What the driver promises of the options it passes: the length is not negative and the block holds
  that many option bytes.
\<close>

definition options_ok :: "NF_UDP_OPTIONS option \<Rightarrow> bool" where
  "options_ok opts \<longleftrightarrow> (case opts of None \<Rightarrow> True
     | Some opt \<Rightarrow> 0 \<le> sint (optionsLength opt) \<and> sint (optionsLength opt) \<le> int (length (options opt)))"


lemma size_uint:
  "uint (copied_size opt) = (8 + sint (optionsLength opt)) mod 2 ^ 64"
  "uint (allocated_size opt) = (9 + sint (optionsLength opt)) mod 2 ^ 64"
proof -
  have sc: "scast (optionsLength opt) = (word_of_int (sint (optionsLength opt)) :: u64)"
    by (rule scast_eq)
  have "copied_size opt = word_of_int (8 + sint (optionsLength opt))"
    "allocated_size opt = word_of_int (9 + sint (optionsLength opt))"
    unfolding copied_size_def allocated_size_def sc sizeof_NF_UDP_OPTIONS_def by simp_all
  then show "uint (copied_size opt) = (8 + sint (optionsLength opt)) mod 2 ^ 64"
    "uint (allocated_size opt) = (9 + sint (optionsLength opt)) mod 2 ^ 64"
    by (simp_all only: uint_word_of_int) simp_all
qed

lemma context_sizes:
  assumes "0 \<le> sint (optionsLength opt)"
  shows "unat (copied_size opt) = 8 + nat (sint (optionsLength opt))"
    and "unat (allocated_size opt) = 9 + nat (sint (optionsLength opt))"
proof -
  have "sint (optionsLength opt) < 2 ^ 31" using sint_lt [of "optionsLength opt"] by simp
  with assms size_uint [of opt] have "uint (copied_size opt) = 8 + sint (optionsLength opt)"
    "uint (allocated_size opt) = 9 + sint (optionsLength opt)" by simp_all
  with assms show "unat (copied_size opt) = 8 + nat (sint (optionsLength opt))"
    "unat (allocated_size opt) = 9 + nat (sint (optionsLength opt))"
    by (simp_all add: nat_add_distrib flip: nat_uint_eq)
qed

lemma UDPContext_ctor_eq:
  assumes "options_ok (Some opt)"
  shows "UDPContext_ctor (Some opt) = Some \<lparr>m_options = Some (le32 (flags opt) @ le32 (optionsLength opt)
    @ take (nat (sint (optionsLength opt))) (options opt) @ [0])\<rparr>"
proof -
  let ?n = "nat (sint (optionsLength opt))"
  have n: "0 \<le> sint (optionsLength opt)" "?n \<le> length (options opt)"
    using assms by (auto simp: options_ok_def)
  have "rdn 0 (8 + ?n) (enc_NF_UDP_OPTIONS opt) =
      Some (le32 (flags opt) @ le32 (optionsLength opt) @ take ?n (options opt))"
    using n(2) by (simp add: rdn_def enc_NF_UDP_OPTIONS_def)
  moreover have "wrn 0 (le32 (flags opt) @ le32 (optionsLength opt) @ take ?n (options opt)) (replicate (9 + ?n) 0) =
      Some (le32 (flags opt) @ le32 (optionsLength opt) @ take ?n (options opt) @ [0])"
    using n(2) by (simp add: wrn_def min_absorb2)
  ultimately show ?thesis
    by (simp add: UDPContext_ctor_def context_sizes [OF n(1)])
qed

lemma UDPContext_ctor_total: "options_ok opts \<Longrightarrow> \<exists>ctx. UDPContext_ctor opts = Some ctx"
  by (cases opts) (simp_all add: UDPContext_ctor_eq, simp add: UDPContext_ctor_def)

section \<open>Properties\<close>

text \<open>
  C29: the options of an endpoint are copied exactly: for options the driver may pass, the constructor
  stays inside both memory blocks, and the copy is the header and all option bytes followed by the
  one spare byte of the allocation.
\<close>

theorem context_copies_options:
  assumes "options_ok (Some opt)"
  shows "\<exists>m. UDPContext_ctor (Some opt) = Some \<lparr>m_options = Some m\<rparr> \<and>
    length m = unat (allocated_size opt) \<and>
    take (8 + nat (sint (optionsLength opt))) m =
      take (8 + nat (sint (optionsLength opt))) (enc_NF_UDP_OPTIONS opt)"
proof -
  have "0 \<le> sint (optionsLength opt)" "nat (sint (optionsLength opt)) \<le> length (options opt)"
    using assms by (auto simp: options_ok_def)
  with context_sizes(2) [of opt] UDPContext_ctor_eq [OF assms] show ?thesis
    by (simp add: enc_NF_UDP_OPTIONS_def)
qed

definition example_options :: NF_UDP_OPTIONS where
  "example_options = \<lparr>flags = 1, optionsLength = 2, options = [5, 6, 7]\<rparr>"

theorem context_copies_options_witness:
  "\<exists>m. UDPContext_ctor (Some example_options) = Some \<lparr>m_options = Some m\<rparr> \<and> length m = 11 \<and>
     take 10 m = [1, 0, 0, 0, 2, 0, 0, 0, 5, 6]"
proof -
  have "options_ok (Some example_options)" by (simp add: options_ok_def example_options_def)
  from context_copies_options [OF this] show ?thesis
    using context_sizes(2) [of example_options]
    by (simp add: example_options_def enc_NF_UDP_OPTIONS_def le32_def)
qed

text \<open>
  A negative length is not checked: for every length below -8 the sizes wrap around and the copy
  leaves the driver's block.
\<close>

lemma context_negative_length_faults:
  assumes "sint (optionsLength opt) < - 8" "length (options opt) < 2 ^ 32"
  shows "UDPContext_ctor (Some opt) = None"
proof -
  let ?n = "sint (optionsLength opt)"
  have lo: "- (2 ^ 31) \<le> ?n" using sint_ge [of "optionsLength opt"] by simp
  have "uint (copied_size opt) = (8 + ?n + 2 ^ 64) mod 2 ^ 64"
    unfolding size_uint(1) by (rule mod_add_self2 [symmetric])
  also have "\<dots> = 8 + ?n + 2 ^ 64"
    using assms(1) lo by (intro mod_pos_pos_trivial) simp_all
  finally have "uint (copied_size opt) = 8 + ?n + 2 ^ 64" .
  then have "2 ^ 63 \<le> uint (copied_size opt)" using lo by simp
  then have "2 ^ 63 \<le> int (unat (copied_size opt))" by simp
  then have "2 ^ 63 \<le> unat (copied_size opt)" by (simp only: of_nat_le_iff [where 'a = int, symmetric] of_nat_power of_nat_numeral)
  moreover have "length (enc_NF_UDP_OPTIONS opt) < 8 + 2 ^ 32" using assms(2) by (simp add: enc_NF_UDP_OPTIONS_def)
  ultimately have "length (enc_NF_UDP_OPTIONS opt) < 0 + unat (copied_size opt)" by simp
  then have "rdn 0 (unat (copied_size opt)) (enc_NF_UDP_OPTIONS opt) = None" by (simp only: rdn_eq_None)
  then show ?thesis by (simp add: UDPContext_ctor_def del: rdn_eq_None)
qed

end
