(* ===== verification/Event_Handler.thy ===== *)
theory Event_Handler
  imports Udp_Datagram Udp_Context
begin

text \<open>
  \<open>src/netfilter/NFEventHandler.hpp\<close> and \<open>NFEventHandler.cpp\<close>: the callbacks of the filter driver.
  The state extends the proxy's (the handler owns the proxy) by its two maps and the proxy address.
  Data that the driver passes by pointer are arguments; connection properties that a handler may
  change are returned. A result \<open>None\<close> is an access outside a memory block. Definitions only; the
  proofs are in the theories that import this one.
\<close>

section \<open>State\<close>

record ORIGINAL_CONN_INFO =
  oci_remoteAddress :: bytes
  pendedSends :: bytes

record event_handler = udp_proxy +
  m_connInfoMap :: "(ENDPOINT_ID \<times> ORIGINAL_CONN_INFO) list"
  m_udpCtxMap :: "(u64 \<times> UDPContext) list"
  g_proxyAddress :: bytes

abbreviation lock_guard :: "env \<Rightarrow> 'a world_scheme \<Rightarrow> 'a world_scheme" where
  "lock_guard E \<equiv> emit E (Sync (Acquire HandlerLock))"

abbreviation unlock_guard :: "env \<Rightarrow> 'a world_scheme \<Rightarrow> 'a world_scheme" where
  "unlock_guard E \<equiv> emit E (Sync (Release HandlerLock))"

text \<open>The number of bytes of an address, by its family.\<close>

definition sockaddr_size :: "bytes \<Rightarrow> nat option" where
  "sockaddr_size a = do {
     family \<leftarrow> sa_family a;
     Some (if family = AF_INET6 then sizeof_sockaddr_in6 else sizeof_sockaddr_in)
   }"

text \<open>\<open>(int) n\<close> for a \<open>size_t\<close> n.\<close>

definition int_of_size :: "nat \<Rightarrow> int" where
  "int_of_size n = sint (word_of_nat n :: u32)"

section \<open>Life cycle\<close>

text \<open>\<open>UDPProxy\<close> and its service are constructed with the handler.\<close>

definition EventHandler_ctor :: "env \<Rightarrow> event_handler \<Rightarrow> event_handler" where
  "EventHandler_ctor E s =
     (let s = IOCPService_ctor E s
      in s\<lparr>m_pProxyHandler := False, m_ovDataSet := [], m_socketMap := [], m_userName := [],
           m_userPassword := [], m_connInfoMap := [], m_udpCtxMap := []\<rparr>)"

text \<open>\<open>delete v\<close> for each context of the map, then \<open>clear\<close>.\<close>

definition EventHandler_free :: "env \<Rightarrow> event_handler \<Rightarrow> event_handler" where
  "EventHandler_free E s =
     (let s = UDPProxy_free E s;
          s = lock_guard E s;
          s = s\<lparr>m_udpCtxMap := map (\<lambda>(k, v). (k, UDPContext_dtor v)) (m_udpCtxMap s)\<rparr>;
          s = s\<lparr>m_udpCtxMap := []\<rparr>
      in unlock_guard E s)"

text \<open>
  The platform converts the text into the address array; the second attempt passes the text as
  IPv6.
\<close>

definition EventHandler_init :: "env \<Rightarrow> wstring \<Rightarrow> bytes \<Rightarrow> bytes \<Rightarrow> event_handler \<Rightarrow>
    (bool \<times> event_handler) option" where
  "EventHandler_init E address username password s =
     (let s = s\<lparr>g_proxyAddress := replicate NF_MAX_ADDRESS_LENGTH 0\<rparr>;
          parsed = (case string_to_address E address AF_INET of
                      Some a \<Rightarrow> Some a
                    | None \<Rightarrow> string_to_address E address AF_INET6)
      in case parsed of
           None \<Rightarrow> Some (False, emit E (Net WSAGetLastError) s)
         | Some a \<Rightarrow> do {
             g \<leftarrow> wrn 0 a (g_proxyAddress s);
             let s = s\<lparr>g_proxyAddress := g\<rparr>;
             sz \<leftarrow> sockaddr_size g;
             (ok, s) \<leftarrow> UDPProxy_init E g (int sz) username password s;
             if \<not> ok then Some (False, EventHandler_free E s) else Some (True, s)
           })"

section \<open>Logging\<close>

definition addr_string :: "env \<Rightarrow> bytes \<Rightarrow> wstring option" where
  "addr_string E a = do { sz \<leftarrow> sockaddr_size a; b \<leftarrow> rdn 0 sz a; Some (address_to_string E b) }"

definition LogTCP :: "env \<Rightarrow> bool \<Rightarrow> ENDPOINT_ID \<Rightarrow> NF_TCP_CONN_INFO \<Rightarrow> event_handler \<Rightarrow> event_handler option" where
  "LogTCP E connected cid c s = do {
     localAddr \<leftarrow> addr_string E (ci_localAddress c);
     remoteAddr \<leftarrow> addr_string E (ci_remoteAddress c);
     let processName = (case process_name E (ci_processId c) of Some n \<Rightarrow> n | None \<Rightarrow> []);
     Some (emit E (DoLog cid P_TCP connected localAddr remoteAddr (ci_processId c) processName) s)
   }"

text \<open>Here the test of the name look-up is the other way round: the name is cleared when it was found.\<close>

definition LogUDP :: "env \<Rightarrow> bool \<Rightarrow> ENDPOINT_ID \<Rightarrow> NF_UDP_CONN_INFO \<Rightarrow> event_handler \<Rightarrow> event_handler option" where
  "LogUDP E created cid c s = do {
     localAddr \<leftarrow> addr_string E (ui_localAddress c);
     let processName = (case process_name E (ui_processId c) of Some n \<Rightarrow> [] | None \<Rightarrow> []);
     Some (emit E (DoLog cid P_UDP created localAddr [] (ui_processId c) processName) s)
   }"

section \<open>TCP events\<close>

definition tcpConnectRequest :: "ENDPOINT_ID \<Rightarrow> NF_TCP_CONN_INFO \<Rightarrow> event_handler \<Rightarrow>
    (NF_TCP_CONN_INFO \<times> event_handler) option" where
  "tcpConnectRequest cid c s = do {
     ra \<leftarrow> rdn 0 NF_MAX_ADDRESS_LENGTH (ci_remoteAddress c);
     let s = s\<lparr>m_connInfoMap := m_insert cid \<lparr>oci_remoteAddress = ra, pendedSends = []\<rparr> (m_connInfoMap s)\<rparr>;
     addrLen \<leftarrow> sockaddr_size (ci_remoteAddress c);
     x \<leftarrow> rdn 0 addrLen (ci_remoteAddress c);
     y \<leftarrow> rdn 0 addrLen (g_proxyAddress s);
     if x \<noteq> y then do {
       g \<leftarrow> rdn 0 NF_MAX_ADDRESS_LENGTH (g_proxyAddress s);
       Some (c\<lparr>ci_remoteAddress := g,
               ci_filteringFlag := ci_filteringFlag c OR flag_value NF_FILTER\<rparr>, s)
     }
     else Some (c, s)
   }"

definition tcpConnected :: "env \<Rightarrow> ENDPOINT_ID \<Rightarrow> NF_TCP_CONN_INFO \<Rightarrow> event_handler \<Rightarrow> event_handler option" where
  "tcpConnected E cid c s = LogTCP E True cid c s"

definition tcpClosed :: "env \<Rightarrow> ENDPOINT_ID \<Rightarrow> NF_TCP_CONN_INFO \<Rightarrow> event_handler \<Rightarrow> event_handler option" where
  "tcpClosed E cid c s = do {
     s \<leftarrow> LogTCP E False cid c s;
     Some (s\<lparr>m_connInfoMap := m_erase cid (m_connInfoMap s)\<rparr>)
   }"

definition tcpReceive :: "env \<Rightarrow> ENDPOINT_ID \<Rightarrow> bytes \<Rightarrow> int \<Rightarrow> event_handler \<Rightarrow> event_handler" where
  "tcpReceive E cid buf len s =
     (case map_of (m_connInfoMap s) cid of
        Some oci \<Rightarrow>
          let s = (if pendedSends oci \<noteq> []
                   then emit E (Nf (TcpPostSend cid (pendedSends oci) (int_of_size (length (pendedSends oci))))) s
                   else s)
          in s\<lparr>m_connInfoMap := m_erase cid (m_connInfoMap s)\<rparr>
      | None \<Rightarrow>
          let s = emit E (Nf (TcpPostReceive cid buf len)) s
          in emit E (Nf (TcpDisableFiltering cid)) s)"

definition socks4_connect :: "u32 \<Rightarrow> u16 \<Rightarrow> SOCKS4_REQUEST" where
  "socks4_connect ip port = \<lparr>s4q_version = SOCKS_4, s4q_command = S4C_CONNECT, s4q_port = port,
     s4q_ip = ip, s4q_userid = [0]\<rparr>"

definition tcpSend :: "env \<Rightarrow> ENDPOINT_ID \<Rightarrow> bytes \<Rightarrow> int \<Rightarrow> event_handler \<Rightarrow> event_handler option" where
  "tcpSend E cid buf len s =
     (case map_of (m_connInfoMap s) cid of
        Some oci \<Rightarrow> do {
          family \<leftarrow> sa_family (oci_remoteAddress oci);
          if family = AF_INET6 then Some s
          else do {
            ip \<leftarrow> sin_addr (oci_remoteAddress oci);
            port \<leftarrow> sin_port (oci_remoteAddress oci);
            let s = emit E (Nf (TcpPostSend cid (enc_SOCKS4_REQUEST (socks4_connect ip port))
                      (int sizeof_SOCKS4_REQUEST))) s;
            b \<leftarrow> memcpy_from buf len;
            Some (s\<lparr>m_connInfoMap := m_insert cid (oci\<lparr>pendedSends := pendedSends oci @ b\<rparr>) (m_connInfoMap s)\<rparr>)
          }
        }
      | None \<Rightarrow> Some (emit E (Nf (TcpPostSend cid buf len)) s))"

section \<open>UDP events\<close>

definition EventHandler_onUdpReceiveComplete :: "env \<Rightarrow> event_handler recv_fun" where
  "EventHandler_onUdpReceiveComplete E cid buf len remoteAddress remoteAddressLen s =
     (let s = lock_guard E s
      in case map_of (m_udpCtxMap s) cid of
           None \<Rightarrow> Some (unlock_guard E s)
         | Some ctx \<Rightarrow>
             let s = emit E (Nf (UdpPostReceive cid remoteAddress buf len (m_options ctx))) s
             in Some (unlock_guard E s))"

definition udpCreated :: "env \<Rightarrow> ENDPOINT_ID \<Rightarrow> NF_UDP_CONN_INFO \<Rightarrow> event_handler \<Rightarrow> event_handler option" where
  "udpCreated E cid c s = do {
     s \<leftarrow> LogUDP E True cid c (lock_guard E s);
     Some (unlock_guard E s)
   }"

definition udpClosed :: "env \<Rightarrow> ENDPOINT_ID \<Rightarrow> NF_UDP_CONN_INFO \<Rightarrow> event_handler \<Rightarrow> event_handler option" where
  "udpClosed E cid c s = do {
     s \<leftarrow> LogUDP E False cid c s;
     let s = deleteProxyConnection E cid s;
     let s = lock_guard E s;
     let s = (case map_of (m_udpCtxMap s) cid of
                None \<Rightarrow> s
              | Some ctx \<Rightarrow> s\<lparr>m_udpCtxMap := m_erase cid (m_udpCtxMap s)\<rparr>);
     Some (unlock_guard E s)
   }"

definition udpReceive :: "env \<Rightarrow> ENDPOINT_ID \<Rightarrow> bytes \<Rightarrow> bytes \<Rightarrow> int \<Rightarrow> NF_UDP_OPTIONS option \<Rightarrow>
    event_handler \<Rightarrow> event_handler" where
  "udpReceive E cid remoteAddress buf len opts s =
     emit E (Nf (UdpPostReceive cid remoteAddress buf len (map_option enc_NF_UDP_OPTIONS opts))) s"

text \<open>The guarded scope of \<open>udpSend\<close>: the connection of a new endpoint; \<open>False\<close> is the early return.\<close>

definition ensure_connection :: "env \<Rightarrow> ENDPOINT_ID \<Rightarrow> NF_UDP_OPTIONS option \<Rightarrow> event_handler \<Rightarrow>
    (bool \<times> event_handler) option" where
  "ensure_connection E cid opts s =
     (let s = lock_guard E s
      in case map_of (m_udpCtxMap s) cid of
           Some ctx \<Rightarrow> Some (True, unlock_guard E s)
         | None \<Rightarrow>
             let (ok, s) = createProxyConnection E cid s
             in if \<not> ok then Some (False, unlock_guard E s)
                else do {
                  ctx \<leftarrow> UDPContext_ctor opts;
                  let s = s\<lparr>m_udpCtxMap := m_insert cid ctx (m_udpCtxMap s)\<rparr>;
                  Some (True, unlock_guard E s)
                })"

definition EventHandler_udpSend :: "env \<Rightarrow> ENDPOINT_ID \<Rightarrow> bytes \<Rightarrow> bytes \<Rightarrow> int \<Rightarrow> NF_UDP_OPTIONS option \<Rightarrow>
    event_handler \<Rightarrow> event_handler option" where
  "EventHandler_udpSend E cid remoteAddress buf len opts s = do {
     (ok, s) \<leftarrow> ensure_connection E cid opts s;
     if \<not> ok then Some s
     else do {
       family \<leftarrow> sa_family remoteAddress;
       let addrLen = (if family = AF_INET then sizeof_sockaddr_in else sizeof_sockaddr_in6);
       (sent, s) \<leftarrow> udpSend E cid buf len remoteAddress (int addrLen) s;
       if \<not> sent
       then Some (emit E (Nf (UdpPostSend cid remoteAddress buf len (map_option enc_NF_UDP_OPTIONS opts))) s)
       else Some s
     }
   }"

section \<open>Events without an effect\<close>

text \<open>\<open>tcpCanReceive\<close>, \<open>tcpCanSend\<close>, \<open>udpConnectRequest\<close>, \<open>udpCanReceive\<close>, \<open>udpCanSend\<close>, \<open>threadStart\<close>, \<open>threadEnd\<close>.\<close>

definition ignored_event :: "event_handler \<Rightarrow> event_handler" where
  "ignored_event s = s"

end
