(* ===== verification/Handler_Frame.thy ===== *)
theory Handler_Frame
  imports Event_Handler
begin

text \<open>
  The proxy and the handler around it do not touch each other's data: every proxy operation leaves
  the fields that extend its state alone (\<open>udp_proxy.more\<close>), unless a callback changes them, and
  what the handler does beside calling the proxy is \<open>aside\<close>: it makes no network call and leaves
  the proxy's data alone.
\<close>

section \<open>Proxy operations keep the extension\<close>

lemma more_emit [simp]:
  "udp_proxy.more (emit E c s) = udp_proxy.more s"
  "udp_proxy.more (snd (sys E c s)) = udp_proxy.more s"
  by (simp_all add: emit_eq sys_snd)

lemma more_upd [simp]:
  "udp_proxy.more (ov_upd p f s) = udp_proxy.more s"
  "udp_proxy.more (pd_upd cid g s) = udp_proxy.more s"
  "udp_proxy.more (set_state cid st s) = udp_proxy.more s"
  by (simp_all add: ov_upd_def pd_upd_def set_state_def split: option.split)

lemma more_new [simp]:
  "udp_proxy.more (snd (newOV_DATA E s)) = udp_proxy.more s"
  "udp_proxy.more (deleteOV_DATA E p s) = udp_proxy.more s"
  by (simp_all add: newOV_DATA_def deleteOV_DATA_def Let_def split: option.split)

lemma more_submit [simp]:
  "udp_proxy.more (snd (submit E ok c p s)) = udp_proxy.more s"
  "udp_proxy.more (snd (postCompletion E sk n p s)) = udp_proxy.more s"
  "udp_proxy.more (snd (registerSocket E sk s)) = udp_proxy.more s"
  by (simp_all add: submit_def postCompletion_def registerSocket_def sys_def Let_def)

lemma more_post_or_delete [simp]: "udp_proxy.more (post_or_delete E sk p s) = udp_proxy.more s"
  by (simp add: post_or_delete_def split_def Let_def)

lemma more_start [simp]:
  "udp_proxy.more (snd (startConnect E sk a cid s)) = udp_proxy.more s"
  "udp_proxy.more (snd (startTcpSend E sk b cid s)) = udp_proxy.more s"
  by (simp_all add: startConnect_def startTcpSend_def split_def Let_def)

lemma more_startTcpReceive: "startTcpReceive E sk cid pov s = Some (r, t) \<Longrightarrow> udp_proxy.more t = udp_proxy.more s"
  by (cases pov) (auto simp: startTcpReceive_def split_def Let_def bind_eq_Some_conv)

lemma more_startUdpReceive: "startUdpReceive E sk cid pov s = Some (r, t) \<Longrightarrow> udp_proxy.more t = udp_proxy.more s"
  by (cases pov) (auto simp: startUdpReceive_def split_def Let_def bind_eq_Some_conv)

lemma more_udpSend: "udpSend E cid buf len ra ralen s = Some (r, t) \<Longrightarrow> udp_proxy.more t = udp_proxy.more s"
  by (auto simp: udpSend_def udpSend_connected_def split_def Let_def bind_eq_Some_conv
      split: option.splits if_splits dest!: more_startUdpReceive)

lemma more_flush: "flush_packets E cid s = Some t \<Longrightarrow> udp_proxy.more t = udp_proxy.more s"
  by (induction rule: flush_packets_induct) (auto dest: more_udpSend)

lemma more_tcp_reply: "tcp_reply E cid pd n buf s = Some t \<Longrightarrow> udp_proxy.more t = udp_proxy.more s"
  by (auto simp: tcp_reply_def reply_auth_def reply_auth_negotiation_def reply_udp_assoc_def
      send_and_advance_def split_def Let_def bind_eq_Some_conv
      split: PROXY_STATE.splits if_splits option.splits dest!: more_flush)

lemma more_delete_PROXY_DATA [simp]: "udp_proxy.more (delete_PROXY_DATA E pd s) = udp_proxy.more s"
  by (simp add: delete_PROXY_DATA_def Let_def)

lemma more_deleteProxyConnection [simp]: "udp_proxy.more (deleteProxyConnection E cid s) = udp_proxy.more s"
  by (simp add: deleteProxyConnection_def Let_def split: option.split)

lemma more_createProxyConnection [simp]: "udp_proxy.more (snd (createProxyConnection E cid s)) = udp_proxy.more s"
  by (simp add: createProxyConnection_def split_def Let_def)

lemma more_handlers:
  "onTcpReceiveComplete E sk n p err s = Some t \<Longrightarrow> udp_proxy.more t = udp_proxy.more s"
  "onConnectComplete E sk n p err s = Some t \<Longrightarrow> udp_proxy.more t = udp_proxy.more s"
  by (auto simp: onTcpReceiveComplete_def onConnectComplete_def send_and_advance_def split_def Let_def bind_eq_Some_conv
      split: option.splits if_splits dest!: more_startTcpReceive more_tcp_reply)

definition keeps_more :: "'a udp_proxy_scheme recv_fun \<Rightarrow> bool" where
  "keeps_more recv \<longleftrightarrow> (\<forall>cid b l a al s t. recv cid b l a al s = Some t \<longrightarrow> udp_proxy.more t = udp_proxy.more s)"

lemma keeps_moreD: "keeps_more recv \<Longrightarrow> recv cid b l a al s = Some t \<Longrightarrow> udp_proxy.more t = udp_proxy.more s"
  by (auto simp: keeps_more_def)

lemma more_onUdpReceiveComplete:
  assumes "keeps_more recv" and "onUdpReceiveComplete E recv sk n p err s = Some t"
  shows "udp_proxy.more t = udp_proxy.more s"
  using assms(2)
  by (auto simp: onUdpReceiveComplete_def Let_def bind_eq_Some_conv split: if_splits
      dest!: keeps_moreD [OF assms(1)] more_startUdpReceive)

lemma more_onComplete:
  assumes "keeps_more recv" and "onComplete E recv sk n p err s = Some t"
  shows "udp_proxy.more t = udp_proxy.more s"
proof -
  from assms(2) obtain q d where d: "p = Some q" "map_of (m_ovDataSet s) q = Some d"
    by (auto simp: onComplete_def bind_eq_Some_conv)
  show ?thesis
  proof (cases "ov_type d")
    case OVT_CONNECT
    with assms(2) d show ?thesis by (auto simp: onComplete_def dest: more_handlers)
  next
    case OVT_TCP_RECEIVE
    with assms(2) d show ?thesis by (auto simp: onComplete_def dest: more_handlers)
  next
    case OVT_UDP_RECEIVE
    with assms(2) d have "onUdpReceiveComplete E recv sk n q err s = Some t" by (simp add: onComplete_def)
    from more_onUdpReceiveComplete [OF assms(1) this] show ?thesis by blast
  qed (use assms(2) d in \<open>auto simp: onComplete_def onTcpSendComplete_def onUdpSendComplete_def\<close>)
qed

lemma more_worker_body:
  assumes "keeps_more recv" and "worker_body (onComplete E recv) c (deliver c s) = Some t"
  shows "udp_proxy.more t = udp_proxy.more s"
proof -
  have "udp_proxy.more (deliver c s) = udp_proxy.more s" by (simp add: deliver_def split: option.split)
  with assms(2) more_onComplete [OF assms(1)] show ?thesis
    by (auto simp: worker_body_def split: if_splits)
qed

section \<open>The handler's own data\<close>

definition handler_data :: "event_handler \<Rightarrow> (ENDPOINT_ID \<times> ORIGINAL_CONN_INFO) list \<times> (u64 \<times> UDPContext) list \<times> bytes" where
  "handler_data s = (m_connInfoMap s, m_udpCtxMap s, g_proxyAddress s)"

lemma handler_data_more: "udp_proxy.more t = udp_proxy.more s \<Longrightarrow> handler_data t = handler_data s"
  by (cases s; cases t) (simp add: handler_data_def)

lemma handler_data_emit [simp]: "handler_data (emit E c s) = handler_data s"
  by (rule handler_data_more) simp

lemma handler_fields_emit [simp]:
  "m_connInfoMap (emit E c s) = m_connInfoMap s" "m_udpCtxMap (emit E c s) = m_udpCtxMap s"
  "g_proxyAddress (emit E c s) = g_proxyAddress s"
  by (simp_all add: emit_eq)

section \<open>What the handler does beside calling the proxy\<close>

definition no_net :: "trace \<Rightarrow> bool" where
  "no_net tr \<longleftrightarrow> list_all (\<lambda>(c, r). \<forall>n. c \<noteq> Net n) tr"

definition aside :: "'a udp_proxy_scheme \<Rightarrow> 'b udp_proxy_scheme \<Rightarrow> bool" where
  "aside s t \<longleftrightarrow> proxy_data t = proxy_data s \<and> extends no_net s t"

lemma aside_refl [simp]: "aside s s"
  by (simp add: aside_def extends_def no_net_def)

lemma aside_trans: "aside s t \<Longrightarrow> aside t u \<Longrightarrow> aside s u"
  by (auto simp: aside_def extends_def no_net_def)

lemma aside_emit:
  assumes "\<forall>n. c \<noteq> Net n" "aside s t"
  shows "aside s (emit E c t)"
proof (rule aside_trans [OF assms(2)])
  show "aside t (emit E c t)"
    using assms(1) by (simp add: aside_def extends_def no_net_def emit_eq proxy_data_def)
qed

lemma aside_emits [simp]:
  "aside s t \<Longrightarrow> aside s (emit E (Sync y) t)" "aside s t \<Longrightarrow> aside s (emit E (Nf z) t)"
  "aside s t \<Longrightarrow> aside s (emit E (DoLog i p b l r q n) t)"
  by (rule aside_emit; simp)+

lemma aside_fields [simp]:
  "aside s (t\<lparr>m_connInfoMap := x\<rparr>) = aside s t" "aside s (t\<lparr>m_udpCtxMap := y\<rparr>) = aside s t"
  by (simp_all add: aside_def extends_def proxy_data_def)

lemma no_net_monitors: "no_net tr \<Longrightarrow> no_sockets tr" "no_net tr \<Longrightarrow> no_datagrams tr"
proof -
  show "no_net tr \<Longrightarrow> no_sockets tr"
    by (induction tr) (auto simp: no_net_def no_sockets_def split: api.splits)
  show "no_net tr \<Longrightarrow> no_datagrams tr"
    by (induction tr) (auto simp: no_net_def no_datagrams_def sent_step_def split: api.splits)
qed

lemma aside_map: "aside s t \<Longrightarrow> m_socketMap t = m_socketMap s"
  by (simp add: aside_def proxy_data_def)

lemma aside_running: "aside s t \<Longrightarrow> proxy_running t = proxy_running s"
  using proxy_inv_data [of t s "{}"] by (simp add: aside_def proxy_running_def proxy_data_def)

lemma aside_connects: "aside s t \<Longrightarrow> connects t = connects s"
  by (simp add: aside_def proxy_data_def connects_def)

lemma aside_connects_once: "aside s t \<Longrightarrow> connects_once t = connects_once s"
  by (simp add: connects_once_def aside_connects aside_map)

lemma aside_balanced: "aside s t \<Longrightarrow> sockets_balanced s \<Longrightarrow> sockets_balanced t"
  using aside_map [of s t] by (auto simp: aside_def extends_def held_sockets_def intro!: sockets_ext [of s t] dest: no_net_monitors(1))

lemma aside_outboxes: "aside s t \<Longrightarrow> outboxes t = outboxes s"
  using aside_map [of s t] no_net_monitors(2) by (auto simp: aside_def extends_def intro!: quiet_outboxes)

lemma aside_own: "aside s t \<Longrightarrow> own_sockets t = own_sockets s"
  by (rule own_sockets_same) (rule aside_map)

end
