(* ===== verification/Handler_Inv.thy ===== *)
theory Handler_Inv
  imports Handler_Frame
begin

text \<open>
  The running plugin as a state machine: the driver's events and the completions of the proxy's
  port, in any order. Every event returns (but an empty datagram for an established association),
  keeps the invariant, and acts on the proxy only through the proxy's operations (\<open>proxy_moves\<close>),
  so the properties of the proxy are properties of the plugin.
\<close>

section \<open>The receiver the handler gives the proxy\<close>

lemma handler_receiver: "receiver_ok (EventHandler_onUdpReceiveComplete E)"
  by (simp add: receiver_ok_def EventHandler_onUdpReceiveComplete_def Let_def split: option.split)

interpretation handler: udp_receiver E "EventHandler_onUdpReceiveComplete E" for E
  by unfold_locales (rule handler_receiver)

lemma handler_receiver_aside:
  "EventHandler_onUdpReceiveComplete E cid b l a al s = Some t \<Longrightarrow> aside s t \<and> handler_data t = handler_data s"
  by (auto simp: EventHandler_onUdpReceiveComplete_def Let_def split: option.splits)

lemma handler_receiver_more: "keeps_more (EventHandler_onUdpReceiveComplete E)"
  by (auto simp: keeps_more_def EventHandler_onUdpReceiveComplete_def Let_def split: option.splits)

lemma handler_receiver_calls:
  "receiver_calls no_sockets (EventHandler_onUdpReceiveComplete E)"
  "receiver_calls no_datagrams (EventHandler_onUdpReceiveComplete E)"
  using handler_receiver_aside [of E] no_net_monitors
  by (auto simp: receiver_calls_def aside_def extends_def) blast+

section \<open>Events\<close>

datatype nf_event =
    EvTcpConnectRequest ENDPOINT_ID NF_TCP_CONN_INFO
  | EvTcpConnected ENDPOINT_ID NF_TCP_CONN_INFO
  | EvTcpClosed ENDPOINT_ID NF_TCP_CONN_INFO
  | EvTcpReceive ENDPOINT_ID bytes int
  | EvTcpSend ENDPOINT_ID bytes int
  | EvUdpCreated ENDPOINT_ID NF_UDP_CONN_INFO
  | EvUdpClosed ENDPOINT_ID NF_UDP_CONN_INFO
  | EvUdpReceive ENDPOINT_ID bytes bytes int "NF_UDP_OPTIONS option"
  | EvUdpSend ENDPOINT_ID bytes bytes int "NF_UDP_OPTIONS option"
  | EvThreadStart | EvThreadEnd
  | EvTcpCanReceive ENDPOINT_ID | EvTcpCanSend ENDPOINT_ID
  | EvUdpConnectRequest ENDPOINT_ID | EvUdpCanReceive ENDPOINT_ID | EvUdpCanSend ENDPOINT_ID

fun handle_event :: "env \<Rightarrow> nf_event \<Rightarrow> event_handler \<Rightarrow> event_handler option" where
  "handle_event E (EvTcpConnectRequest cid c) s = map_option snd (tcpConnectRequest cid c s)"
| "handle_event E (EvTcpConnected cid c) s = tcpConnected E cid c s"
| "handle_event E (EvTcpClosed cid c) s = tcpClosed E cid c s"
| "handle_event E (EvTcpReceive cid buf len) s = Some (tcpReceive E cid buf len s)"
| "handle_event E (EvTcpSend cid buf len) s = tcpSend E cid buf len s"
| "handle_event E (EvUdpCreated cid c) s = udpCreated E cid c s"
| "handle_event E (EvUdpClosed cid c) s = udpClosed E cid c s"
| "handle_event E (EvUdpReceive cid ra buf len opts) s = Some (udpReceive E cid ra buf len opts s)"
| "handle_event E (EvUdpSend cid ra buf len opts) s = EventHandler_udpSend E cid ra buf len opts s"
| "handle_event E EvThreadStart s = Some (ignored_event s)"
| "handle_event E EvThreadEnd s = Some (ignored_event s)"
| "handle_event E (EvTcpCanReceive cid) s = Some (ignored_event s)"
| "handle_event E (EvTcpCanSend cid) s = Some (ignored_event s)"
| "handle_event E (EvUdpConnectRequest cid) s = Some (ignored_event s)"
| "handle_event E (EvUdpCanReceive cid) s = Some (ignored_event s)"
| "handle_event E (EvUdpCanSend cid) s = Some (ignored_event s)"

text \<open>
  What the driver promises: addresses have their declared size, buffers hold \<open>len\<close> bytes, options
  are well-formed, and an endpoint's identifier is not reused while its connect request is pending.
\<close>

definition address_ok :: "bytes \<Rightarrow> bool" where
  "address_ok a \<longleftrightarrow> (if sa_family a = Some AF_INET then 16 else 28) \<le> length a"

fun event_ok :: "nf_event \<Rightarrow> event_handler \<Rightarrow> bool" where
  "event_ok (EvTcpConnectRequest cid c) s = tcp_conn_info_ok c"
| "event_ok (EvTcpConnected cid c) s = tcp_conn_info_ok c"
| "event_ok (EvTcpClosed cid c) s = tcp_conn_info_ok c"
| "event_ok (EvTcpSend cid buf len) s \<longleftrightarrow> 0 \<le> len \<and> len \<le> int (length buf)"
| "event_ok (EvUdpCreated cid c) s = udp_conn_info_ok c"
| "event_ok (EvUdpClosed cid c) s = udp_conn_info_ok c"
| "event_ok (EvUdpSend cid ra buf len opts) s \<longleftrightarrow> len \<le> int (length buf) \<and> address_ok ra \<and>
     options_ok opts \<and> (map_of (m_udpCtxMap s) cid = None \<longrightarrow> cid \<notin> snd ` connects s)"
| "event_ok _ s = True"

text \<open>The one event that the code does not survive: an empty datagram for an established association.\<close>

fun event_sendable :: "nf_event \<Rightarrow> event_handler \<Rightarrow> bool" where
  "event_sendable (EvUdpSend cid ra buf len opts) s = sendable cid len s"
| "event_sendable _ s = True"

inductive handler_step :: "env \<Rightarrow> event_handler \<Rightarrow> event_handler \<Rightarrow> bool" for E where
  step_event: "event_ok ev s \<Longrightarrow> handle_event E ev s = Some s' \<Longrightarrow> handler_step E s s'"
| step_completion: "legal s c \<Longrightarrow>
    worker_body (onComplete E (EventHandler_onUdpReceiveComplete E)) c (deliver c s) = Some s' \<Longrightarrow>
    handler_step E s s'"

section \<open>Moves of the proxy\<close>

definition proxy_move :: "env \<Rightarrow> event_handler \<Rightarrow> event_handler \<Rightarrow> bool" where
  "proxy_move E s t \<longleftrightarrow> proxy_step E (EventHandler_onUdpReceiveComplete E) s t \<or> aside s t"

abbreviation proxy_moves :: "env \<Rightarrow> event_handler \<Rightarrow> event_handler \<Rightarrow> bool" where
  "proxy_moves E \<equiv> (proxy_move E)\<^sup>*\<^sup>*"

lemma moves_aside: "aside s t \<Longrightarrow> proxy_moves E s t"
  by (simp add: proxy_move_def r_into_rtranclp)

lemma moves_step: "proxy_step E (EventHandler_onUdpReceiveComplete E) s t \<Longrightarrow> proxy_moves E s t"
  by (simp add: proxy_move_def r_into_rtranclp)

definition proxy_good :: "'a udp_proxy_scheme \<Rightarrow> bool" where
  "proxy_good s \<longleftrightarrow> proxy_running s \<and> connects_once s \<and> sockets_balanced s"

lemma aside_good: "aside s t \<Longrightarrow> proxy_good s \<Longrightarrow> proxy_good t"
  by (simp add: proxy_good_def aside_running aside_connects_once aside_balanced)

lemma moves_good: "proxy_moves E s t \<Longrightarrow> proxy_good s \<Longrightarrow> proxy_good t"
proof (induction rule: rtranclp_induct)
  case (step t u)
  then have t: "proxy_running t" "connects_once t" "sockets_balanced t" by (simp_all add: proxy_good_def)
  show ?case
  proof (cases "aside t u")
    case True
    with step show ?thesis using aside_good by blast
  next
    case False
    with step(2) have "proxy_step E (EventHandler_onUdpReceiveComplete E) t u" by (simp add: proxy_move_def)
    with t show ?thesis
      using proxy_step_running proxy_step_once proxy_step_sockets handler_receiver handler_receiver_calls(1)
      unfolding proxy_good_def by blast
  qed
qed

section \<open>The invariant\<close>

definition handler_own :: "event_handler \<Rightarrow> bool" where
  "handler_own s \<longleftrightarrow> m_sorted (m_connInfoMap s) \<and> m_sorted (m_udpCtxMap s) \<and>
     length (g_proxyAddress s) = NF_MAX_ADDRESS_LENGTH \<and>
     (\<forall>oci \<in> ran (map_of (m_connInfoMap s)). length (oci_remoteAddress oci) = NF_MAX_ADDRESS_LENGTH)"

text \<open>Every proxied endpoint has a context.\<close>

definition contexts_cover :: "event_handler \<Rightarrow> bool" where
  "contexts_cover s \<longleftrightarrow> dom (map_of (m_socketMap s)) \<subseteq> dom (map_of (m_udpCtxMap s))"

definition handler_inv :: "event_handler \<Rightarrow> bool" where
  "handler_inv s \<longleftrightarrow> proxy_good s \<and> handler_own s \<and> contexts_cover s"

definition event_handled :: "env \<Rightarrow> event_handler \<Rightarrow> event_handler option \<Rightarrow> bool" where
  "event_handled E s r \<longleftrightarrow> (\<exists>t. r = Some t \<and> handler_inv t \<and> proxy_moves E s t)"

lemma handler_own_data: "handler_data t = handler_data s \<Longrightarrow> handler_own t = handler_own s"
  by (simp add: handler_own_def handler_data_def)

lemma handler_own_same: "handler_own s \<Longrightarrow> handler_data t = handler_data s \<Longrightarrow> handler_own t"
  by (simp add: handler_own_def handler_data_def)

lemma event_handled_refl: "handler_inv s \<Longrightarrow> event_handled E s (Some s)"
  by (simp add: event_handled_def)

lemma handled_aside:
  assumes "handler_inv s" "aside s t" "handler_own t" "m_udpCtxMap t = m_udpCtxMap s"
  shows "event_handled E s (Some t)"
  using assms aside_good [OF assms(2)] moves_aside [OF assms(2), of E]
  by (simp add: event_handled_def handler_inv_def contexts_cover_def aside_map)

lemma handled_moves:
  assumes "handler_inv s" "proxy_moves E s t" "handler_own t" "contexts_cover t"
  shows "event_handled E s (Some t)"
  using assms moves_good [OF assms(2)] by (simp add: event_handled_def handler_inv_def)

lemma handler_inv_ran:
  "handler_own s \<Longrightarrow> map_of (m_connInfoMap s) cid = Some oci \<Longrightarrow> length (oci_remoteAddress oci) = NF_MAX_ADDRESS_LENGTH"
  by (auto simp: handler_own_def intro: ranI)

section \<open>Events that do not concern the proxy\<close>

text \<open>
  \<open>event_alone s r\<close>: the event returned without touching the proxy or the contexts, and the handler's own
  data is well-formed. It needs nothing of the proxy's state, so it also holds while the
  worker thread is in the middle of a completion.
\<close>

definition event_alone :: "event_handler \<Rightarrow> event_handler option \<Rightarrow> bool" where
  "event_alone s r \<longleftrightarrow> (\<exists>t. r = Some t \<and> aside s t \<and> handler_own t \<and> m_udpCtxMap t = m_udpCtxMap s)"

lemma event_aloneI:
  "aside s t \<Longrightarrow> handler_own t \<Longrightarrow> m_udpCtxMap t = m_udpCtxMap s \<Longrightarrow> event_alone s (Some t)"
  by (simp add: event_alone_def)

lemma alone_handled: "handler_inv s \<Longrightarrow> event_alone s r \<Longrightarrow> event_handled E s r"
  unfolding event_alone_def by (auto intro: handled_aside)

section \<open>TCP events\<close>

lemma sockaddr_size_total:
  assumes "length a = NF_MAX_ADDRESS_LENGTH"
  obtains sz where "sockaddr_size a = Some sz" "sz \<le> NF_MAX_ADDRESS_LENGTH" "sz \<in> {16, 28}"
proof -
  from assms obtain f where "sa_family a = Some f"
    by (cases "sa_family a") (simp_all add: NF_MAX_ADDRESS_LENGTH_def)
  then show thesis
    by (intro that [of "if f = AF_INET6 then 28 else 16"])
      (simp_all add: sockaddr_size_def sizeof_sockaddr_in_def sizeof_sockaddr_in6_def NF_MAX_ADDRESS_LENGTH_def)
qed

lemma addr_string_total:
  assumes "length a = NF_MAX_ADDRESS_LENGTH" shows "\<exists>w. addr_string E a = Some w"
proof -
  from assms obtain sz where "sockaddr_size a = Some sz" "sz \<le> NF_MAX_ADDRESS_LENGTH"
    by (rule sockaddr_size_total)
  then show ?thesis using assms by (simp add: addr_string_def rdn_def)
qed

lemma LogTCP_ok:
  assumes "tcp_conn_info_ok c"
  shows "\<exists>l r n. LogTCP E open1 cid c s = Some (emit E (DoLog cid P_TCP open1 l r (ci_processId c) n) s)"
proof -
  obtain l r where "addr_string E (ci_localAddress c) = Some l" "addr_string E (ci_remoteAddress c) = Some r"
    using assms addr_string_total unfolding tcp_conn_info_ok_def by blast
  then show ?thesis by (simp add: LogTCP_def) blast
qed

lemma LogUDP_ok:
  assumes "udp_conn_info_ok c"
  shows "\<exists>l. LogUDP E open1 cid c s = Some (emit E (DoLog cid P_UDP open1 l [] (ui_processId c) []) s)"
proof -
  obtain l where "addr_string E (ui_localAddress c) = Some l"
    using assms addr_string_total unfolding udp_conn_info_ok_def by blast
  then show ?thesis by (cases "process_name E (ui_processId c)") (auto simp: LogUDP_def)
qed

lemma rdn_all: "length a = n \<Longrightarrow> rdn 0 n a = Some a"
  by (simp add: rdn_def)

lemma handler_own_connInfo:
  assumes "handler_own s"
  shows "length (oci_remoteAddress oci) = NF_MAX_ADDRESS_LENGTH \<Longrightarrow>
      handler_own (s\<lparr>m_connInfoMap := m_insert cid oci (m_connInfoMap s)\<rparr>)"
    and "handler_own (s\<lparr>m_connInfoMap := m_erase cid (m_connInfoMap s)\<rparr>)"
proof -
  have ran: "\<forall>x \<in> ran (map_of (m_connInfoMap s)). length (oci_remoteAddress x) = NF_MAX_ADDRESS_LENGTH"
    using assms by (simp add: handler_own_def)
  show "length (oci_remoteAddress oci) = NF_MAX_ADDRESS_LENGTH \<Longrightarrow>
      handler_own (s\<lparr>m_connInfoMap := m_insert cid oci (m_connInfoMap s)\<rparr>)"
    using assms ran_upd_ok [OF ran] by (simp add: handler_own_def m_sorted_insert)
  show "handler_own (s\<lparr>m_connInfoMap := m_erase cid (m_connInfoMap s)\<rparr>)"
    using assms ran_None_ok [OF ran] by (simp add: handler_own_def m_sorted_erase)
qed

text \<open>What \<open>tcpConnectRequest\<close> computes.\<close>

lemma tcpConnectRequest_eq:
  assumes "handler_own s" "tcp_conn_info_ok c" "sockaddr_size (ci_remoteAddress c) = Some sz"
  shows "tcpConnectRequest cid c s = Some
    (if take sz (ci_remoteAddress c) \<noteq> take sz (g_proxyAddress s)
     then c\<lparr>ci_remoteAddress := g_proxyAddress s, ci_filteringFlag := ci_filteringFlag c OR flag_value NF_FILTER\<rparr>
     else c,
     s\<lparr>m_connInfoMap := m_insert cid \<lparr>oci_remoteAddress = ci_remoteAddress c, pendedSends = []\<rparr> (m_connInfoMap s)\<rparr>)"
proof -
  have len: "length (ci_remoteAddress c) = NF_MAX_ADDRESS_LENGTH" "length (g_proxyAddress s) = NF_MAX_ADDRESS_LENGTH"
    using assms(1,2) by (simp_all add: handler_own_def tcp_conn_info_ok_def)
  from len(1) obtain sz' where "sockaddr_size (ci_remoteAddress c) = Some sz'" "sz' \<le> NF_MAX_ADDRESS_LENGTH"
    by (rule sockaddr_size_total)
  then have "rdn 0 sz (ci_remoteAddress c) = Some (take sz (ci_remoteAddress c))"
    "rdn 0 sz (g_proxyAddress s) = Some (take sz (g_proxyAddress s))"
    using assms(3) len by (simp_all add: rdn_def)
  then show ?thesis
    using assms(3) by (simp add: tcpConnectRequest_def rdn_all len Let_def)
qed

lemma tcpConnectRequest_alone:
  assumes "handler_own s" "tcp_conn_info_ok c"
  shows "event_alone s (map_option snd (tcpConnectRequest cid c s))"
proof -
  note own = assms(1)
  have len: "length (ci_remoteAddress c) = NF_MAX_ADDRESS_LENGTH"
    using assms(2) by (simp add: tcp_conn_info_ok_def)
  then obtain sz where "sockaddr_size (ci_remoteAddress c) = Some sz" by (rule sockaddr_size_total)
  from tcpConnectRequest_eq [OF own assms(2) this] show ?thesis
    using event_aloneI handler_own_connInfo(1) [OF own] len by simp
qed

lemma tcpClosed_alone:
  assumes "handler_own s" "tcp_conn_info_ok c"
  shows "event_alone s (tcpConnected E cid c s)" "event_alone s (tcpClosed E cid c s)"
proof -
  note own = assms(1)
  from LogTCP_ok [OF assms(2)] obtain l r n where
    log: "LogTCP E True cid c s = Some (emit E (DoLog cid P_TCP True l r (ci_processId c) n) s)" by blast
  have "handler_own (emit E (DoLog cid P_TCP True l r (ci_processId c) n) s)"
    using own handler_own_data [OF handler_data_emit] by blast
  with event_aloneI show "event_alone s (tcpConnected E cid c s)"
    by (simp add: tcpConnected_def log)
  from LogTCP_ok [OF assms(2)] obtain l r n where
    log: "LogTCP E False cid c s = Some (emit E (DoLog cid P_TCP False l r (ci_processId c) n) s)" by blast
  let ?t = "emit E (DoLog cid P_TCP False l r (ci_processId c) n) s"
  have "handler_own ?t"
    using own handler_own_data [OF handler_data_emit] by blast
  from event_aloneI [OF _ handler_own_connInfo(2) [OF this]]
  show "event_alone s (tcpClosed E cid c s)" by (simp add: tcpClosed_def log)
qed

lemma tcpReceive_alone:
  assumes "handler_own s" shows "event_alone s (Some (tcpReceive E cid buf len s))"
proof -
  have own: "handler_own (emit E c s)" "handler_own s" for c :: api
    using assms handler_own_data [OF handler_data_emit] by simp_all
  show ?thesis
  proof (cases "map_of (m_connInfoMap s) cid")
    case None
    have "handler_own (emit E c (emit E c' s))" for c c' :: api
      using own(1) handler_own_data [OF handler_data_emit] by blast
    with None show ?thesis using event_aloneI by (simp add: tcpReceive_def)
  next
    case (Some oci)
    let ?u = "emit E (Nf (TcpPostSend cid (pendedSends oci) (int_of_size (length (pendedSends oci))))) s"
    from event_aloneI [OF _ handler_own_connInfo(2) [OF own(1)]]
      event_aloneI [OF _ handler_own_connInfo(2) [OF own(2)]] Some show ?thesis
      by (simp add: tcpReceive_def Let_def)
  qed
qed

text \<open>What \<open>tcpSend\<close> computes.\<close>

lemma tcpSend_pending:
  assumes "map_of (m_connInfoMap s) cid = Some oci" "length (oci_remoteAddress oci) = NF_MAX_ADDRESS_LENGTH"
    and "sa_family (oci_remoteAddress oci) \<noteq> Some AF_INET6" "0 \<le> len" "len \<le> int (length buf)"
  obtains ip port where "sin_addr (oci_remoteAddress oci) = Some ip" "sin_port (oci_remoteAddress oci) = Some port"
    and "tcpSend E cid buf len s = Some
      ((emit E (Nf (TcpPostSend cid (enc_SOCKS4_REQUEST (socks4_connect ip port)) 9)) s)
        \<lparr>m_connInfoMap := m_insert cid (oci\<lparr>pendedSends := pendedSends oci @ take (nat len) buf\<rparr>) (m_connInfoMap s)\<rparr>)"
proof -
  let ?a = "oci_remoteAddress oci"
  obtain f ip port where "sa_family ?a = Some f" "sin_addr ?a = Some ip" "sin_port ?a = Some port"
    using assms(2) by (cases "sa_family ?a"; cases "sin_addr ?a"; cases "sin_port ?a")
      (auto simp: NF_MAX_ADDRESS_LENGTH_def)
  then show thesis
    using assms by (intro that) (simp_all add: tcpSend_def memcpy_from_total sizeof_SOCKS4_REQUEST_def Let_def)
qed

lemma tcpSend_alone:
  assumes "handler_own s" "0 \<le> len" "len \<le> int (length buf)"
  shows "event_alone s (tcpSend E cid buf len s)"
proof -
  have own: "handler_own (emit E c s)" "handler_own s" for c :: api
    using assms handler_own_data [OF handler_data_emit] by simp_all
  show ?thesis
  proof (cases "map_of (m_connInfoMap s) cid")
    case None
    with own show ?thesis using event_aloneI by (simp add: tcpSend_def)
  next
    case (Some oci)
    note len = handler_inv_ran [OF own(2) Some]
    show ?thesis
    proof (cases "sa_family (oci_remoteAddress oci) = Some AF_INET6")
      case True
      with Some own show ?thesis using event_aloneI by (simp add: tcpSend_def)
    next
      case False
      from tcpSend_pending [OF Some len False assms(2,3)] obtain c where
        "tcpSend E cid buf len s = Some ((emit E (Nf c) s)
          \<lparr>m_connInfoMap := m_insert cid (oci\<lparr>pendedSends := pendedSends oci @ take (nat len) buf\<rparr>) (m_connInfoMap s)\<rparr>)"
        by blast
      moreover have "handler_own ((emit E (Nf c) s)
          \<lparr>m_connInfoMap := m_insert cid (oci\<lparr>pendedSends := pendedSends oci @ take (nat len) buf\<rparr>) (m_connInfoMap s)\<rparr>)"
        using handler_own_connInfo(1) [OF own(1) [of "Nf c"], of "oci\<lparr>pendedSends := pendedSends oci @ take (nat len) buf\<rparr>" cid] len by simp
      ultimately show ?thesis using event_aloneI by simp
    qed
  qed
qed

section \<open>UDP events\<close>

lemma handler_own_ctx:
  assumes "handler_own s" "handler_data t = handler_data s"
  shows "handler_own (t\<lparr>m_udpCtxMap := m_insert cid ctx (m_udpCtxMap t)\<rparr>)"
    "handler_own (t\<lparr>m_udpCtxMap := m_erase cid (m_udpCtxMap t)\<rparr>)"
  using assms by (simp_all add: handler_own_def handler_data_def m_sorted_insert m_sorted_erase)

lemma udpCreated_alone:
  assumes "handler_own s" "udp_conn_info_ok c"
  shows "event_alone s (udpCreated E cid c s)"
proof -
  from LogUDP_ok [OF assms(2)] obtain l where
    log: "LogUDP E True cid c (lock_guard E s) =
      Some (emit E (DoLog cid P_UDP True l [] (ui_processId c) []) (lock_guard E s))" by blast
  let ?t = "unlock_guard E (emit E (DoLog cid P_UDP True l [] (ui_processId c) []) (lock_guard E s))"
  have "handler_own ?t" by (rule handler_own_same [OF assms(1)]) simp
  from event_aloneI [OF _ this] show ?thesis by (simp add: udpCreated_def log)
qed

lemma contexts_cover_erase:
  assumes "contexts_cover s" "map_of (m_socketMap t) = (map_of (m_socketMap s))(cid := None)"
    and "map_of (m_udpCtxMap s) \<subseteq>\<^sub>m (map_of (m_udpCtxMap t))(cid := v)"
  shows "contexts_cover t"
  unfolding contexts_cover_def
proof
  fix i assume "i \<in> dom (map_of (m_socketMap t))"
  then have "i \<noteq> cid" "i \<in> dom (map_of (m_socketMap s))" using assms(2) by (auto split: if_splits)
  then have "i \<in> dom (map_of (m_udpCtxMap s))" using assms(1) by (auto simp: contexts_cover_def)
  then show "i \<in> dom (map_of (m_udpCtxMap t))"
    using assms(3) \<open>i \<noteq> cid\<close> by (fastforce simp: map_le_def dom_def)
qed

lemma udpClosed_handled:
  assumes "handler_inv s" "udp_conn_info_ok c"
  shows "event_handled E s (udpClosed E cid c s)"
proof -
  from LogUDP_ok [OF assms(2)] obtain l where
    log: "LogUDP E False cid c s = Some (emit E (DoLog cid P_UDP False l [] (ui_processId c) []) s)" by blast
  let ?t = "emit E (DoLog cid P_UDP False l [] (ui_processId c) []) s"
  let ?u = "lock_guard E (deleteProxyConnection E cid ?t)"
  let ?v = "?u\<lparr>m_udpCtxMap := m_erase cid (m_udpCtxMap ?u)\<rparr>"
  have moves: "proxy_moves E s (deleteProxyConnection E cid ?t)"
    by (rule rtranclp_trans [OF moves_aside moves_step [OF step_delete]]) simp
  have v: "proxy_moves E s (unlock_guard E ?v)" and u: "proxy_moves E s (unlock_guard E ?u)"
    by (rule rtranclp_trans [OF moves moves_aside], simp)+
  have data: "handler_data ?u = handler_data s"
    using handler_data_more [of "deleteProxyConnection E cid ?t" s] by simp
  have own: "handler_own s" "contexts_cover s" using assms(1) by (simp_all add: handler_inv_def)
  have ctx: "m_udpCtxMap ?u = m_udpCtxMap s" using data by (simp add: handler_data_def)
  show ?thesis
  proof (cases "map_of (m_udpCtxMap s) cid")
    case None
    have "handler_own (unlock_guard E ?u)" by (rule handler_own_same [OF own(1)]) (use data in simp)
    moreover have "contexts_cover (unlock_guard E ?u)"
      by (rule contexts_cover_erase [OF own(2), of _ cid None])
        (use None ctx in \<open>simp_all add: fun_upd_idem\<close>)
    ultimately have "event_handled E s (Some (unlock_guard E ?u))" by (rule handled_moves [OF assms(1) u])
    with None ctx show ?thesis by (simp add: udpClosed_def log Let_def)
  next
    case (Some x)
    have "handler_own (unlock_guard E ?v)"
      using handler_own_ctx(2) [OF own(1) data] handler_own_data [OF handler_data_emit] by blast
    moreover have "contexts_cover (unlock_guard E ?v)"
      by (rule contexts_cover_erase [OF own(2), of _ cid "Some x"])
        (use Some ctx in \<open>simp_all add: fun_upd_idem\<close>)
    ultimately have "event_handled E s (Some (unlock_guard E ?v))" by (rule handled_moves [OF assms(1) v])
    with Some ctx show ?thesis by (simp add: udpClosed_def log Let_def)
  qed
qed

lemma udpReceive_alone:
  assumes "handler_own s" shows "event_alone s (Some (udpReceive E cid ra buf len opts s))"
  using event_aloneI [of s "udpReceive E cid ra buf len opts s"] assms handler_own_data [OF handler_data_emit]
  by (simp add: udpReceive_def)

lemma ensure_connection_handled:
  assumes "handler_inv s" "options_ok opts" "map_of (m_udpCtxMap s) cid = None \<longrightarrow> cid \<notin> snd ` connects s"
  shows "\<exists>ok t. ensure_connection E cid opts s = Some (ok, t) \<and> event_handled E s (Some t)"
proof -
  have own: "handler_own s" "contexts_cover s" "proxy_good s" using assms(1) by (simp_all add: handler_inv_def)
  let ?l = "lock_guard E s" and ?c = "createProxyConnection E cid (lock_guard E s)"
  have data: "handler_data (snd ?c) = handler_data s" using handler_data_more [of "snd ?c" s] by simp
  then have ctx: "m_udpCtxMap (snd ?c) = m_udpCtxMap s" by (simp add: handler_data_def)
  show ?thesis
  proof (cases "map_of (m_udpCtxMap s) cid")
    case (Some x)
    have "handler_own (unlock_guard E ?l)" by (rule handler_own_same [OF own(1)]) simp
    from handled_aside [OF assms(1) _ this] Some show ?thesis by (auto simp: ensure_connection_def)
  next
    case None
    then have "map_of (m_socketMap s) cid = None" using own(2) unfolding contexts_cover_def by (metis domIff subsetD)
    moreover have "connects ?l = connects s" by (rule aside_connects) simp
    ultimately have unused: "unused_id cid ?l" using assms(3) None by (simp add: unused_id_def)
    have moves: "proxy_moves E s (snd ?c)"
      by (rule rtranclp_trans [OF moves_aside moves_step [OF step_create [OF unused]]]) simp
    have "proxy_inv {} ?l" using own(3) by (simp add: proxy_good_def proxy_running_def)
    note create = createProxyConnection_ok(3,4) [OF this, of E cid]
    show ?thesis
    proof (cases "fst ?c")
      case False
      let ?t = "unlock_guard E (snd ?c)"
      have "map_of (m_socketMap ?t) \<subseteq>\<^sub>m map_of (m_socketMap s)" using create(2) False by simp
      then have "contexts_cover ?t"
        using own(2) map_le_implies_dom_le ctx by (fastforce simp: contexts_cover_def)
      moreover have "handler_own ?t" by (rule handler_own_same [OF own(1)]) (simp add: data)
      moreover have "proxy_moves E s ?t" by (rule rtranclp_trans [OF moves moves_aside]) simp
      ultimately have "event_handled E s (Some ?t)" by (intro handled_moves [OF assms(1)])
      with None False show ?thesis by (auto simp: ensure_connection_def split_def Let_def)
    next
      case True
      from UDPContext_ctor_total [OF assms(2)] obtain x where x: "UDPContext_ctor opts = Some x" by blast
      let ?t = "unlock_guard E ((snd ?c)\<lparr>m_udpCtxMap := m_insert cid x (m_udpCtxMap (snd ?c))\<rparr>)"
      have "contexts_cover ?t"
        using own(2) create(1) True ctx by (auto simp: contexts_cover_def)
      moreover have "handler_own ?t"
        using handler_own_ctx(1) [OF own(1) data] handler_own_data [OF handler_data_emit] by blast
      moreover have "proxy_moves E s ?t" by (rule rtranclp_trans [OF moves moves_aside]) simp
      ultimately have "event_handled E s (Some ?t)" by (intro handled_moves [OF assms(1)])
      with None True x show ?thesis by (auto simp: ensure_connection_def split_def Let_def)
    qed
  qed
qed

text \<open>The guarded scope never makes a connection established.\<close>

lemma ensure_connection_sendable:
  assumes "handler_inv s" "ensure_connection E cid opts s = Some (True, t)"
  shows "sendable cid len t = sendable cid len s"
proof (cases "map_of (m_udpCtxMap s) cid")
  case (Some x)
  with assms(2) have "t = unlock_guard E (lock_guard E s)" by (simp add: ensure_connection_def)
  then show ?thesis by (simp add: sendable_def)
next
  case None
  let ?c = "createProxyConnection E cid (lock_guard E s)"
  have "proxy_inv {} (lock_guard E s)" using assms(1) by (simp add: handler_inv_def proxy_good_def proxy_running_def)
  note create = createProxyConnection_ok(3) [OF this, of E cid]
  have "m_socketMap t = m_socketMap (snd ?c)" "fst ?c"
    using assms(2) None by (auto simp: ensure_connection_def split_def Let_def bind_eq_Some_conv split: if_splits)
  then have "map_of (m_socketMap t) cid = Some (fresh_connection E (lock_guard E s))" using create by simp
  moreover have "proxyState (fresh_connection E (lock_guard E s)) = PS_NONE"
    by (simp add: fresh_connection_def new_PROXY_DATA_def split_def Let_def)
  moreover have "map_of (m_socketMap s) cid = None"
    using assms(1) None unfolding handler_inv_def contexts_cover_def by (metis domIff subsetD)
  ultimately show ?thesis by (simp add: sendable_def)
qed

lemma EventHandler_udpSend_sendable:
  assumes "handler_inv s" "EventHandler_udpSend E cid ra buf len opts s = Some t"
  shows "sendable cid len s"
proof -
  from assms(2) obtain ok u where u: "ensure_connection E cid opts s = Some (ok, u)"
    by (auto simp: EventHandler_udpSend_def bind_eq_Some_conv)
  show ?thesis
  proof (cases ok)
    case True
    with u assms(2) obtain n x where "udpSend E cid buf len ra n u = Some x"
      by (auto simp: EventHandler_udpSend_def bind_eq_Some_conv Let_def)
    from udpSend_sendable [OF this] ensure_connection_sendable [OF assms(1)] u True show ?thesis by simp
  next
    case False
    with u have "map_of (m_udpCtxMap s) cid = None"
      by (cases "map_of (m_udpCtxMap s) cid") (simp_all add: ensure_connection_def)
    then have "map_of (m_socketMap s) cid = None"
      using assms(1) unfolding handler_inv_def contexts_cover_def by (metis domIff subsetD)
    then show ?thesis by (simp add: sendable_def)
  qed
qed

lemma handle_event_sendable: "handler_inv s \<Longrightarrow> handle_event E ev s = Some t \<Longrightarrow> event_sendable ev s"
  by (cases ev) (auto intro: EventHandler_udpSend_sendable)

lemma address_send_args:
  assumes "address_ok ra" "len \<le> int (length buf)" "sa_family ra = Some f"
  shows "send_args_ok buf len ra (if f = AF_INET then 16 else 28)"
    "full_address ra (if f = AF_INET then 16 else 28)"
  using assms by (auto simp: address_ok_def send_args_ok_def addr_readable_def NF_MAX_ADDRESS_LENGTH_def full_address_def)

lemma send_effect_dom: "send_effect cid s t \<Longrightarrow> dom (map_of (m_socketMap t)) = dom (map_of (m_socketMap s))"
  by (cases "map_of (m_socketMap s) cid") (auto simp: send_effect_def split: if_split_asm)

lemma event_handled_trans:
  "event_handled E s (Some t) \<Longrightarrow> event_handled E t r \<Longrightarrow> event_handled E s r"
  unfolding event_handled_def by auto

lemma udpSend_handled:
  assumes "handler_inv s" "len \<le> int (length buf)" "address_ok ra" "options_ok opts"
    and "map_of (m_udpCtxMap s) cid = None \<longrightarrow> cid \<notin> snd ` connects s" "sendable cid len s"
  shows "event_handled E s (EventHandler_udpSend E cid ra buf len opts s)"
proof -
  from ensure_connection_handled [OF assms(1,4,5)] obtain ok t where
    t: "ensure_connection E cid opts s = Some (ok, t)" "event_handled E s (Some t)" by blast
  have inv: "handler_inv t" using t(2) by (simp add: event_handled_def)
  show ?thesis
  proof (cases ok)
    case False
    with t show ?thesis by (simp add: EventHandler_udpSend_def)
  next
    case True
    obtain f where f: "sa_family ra = Some f"
      using assms(3) by (cases "sa_family ra") (auto simp: address_ok_def)
    let ?n = "if f = AF_INET then 16 else 28 :: int"
    have pinv: "proxy_inv {} t" using inv by (simp add: handler_inv_def proxy_good_def proxy_running_def)
    note args = address_send_args(1) [OF assms(3,2) f]
    have "sendable cid len t" using ensure_connection_sendable [OF assms(1)] t(1) True assms(6) by simp
    from udpSend_ok [OF pinv args this, of E] obtain r u where
      u: "udpSend E cid buf len ra ?n t = Some (r, u)" "send_effect cid t u" by blast
    let ?v = "emit E (Nf (UdpPostSend cid ra buf len (map_option enc_NF_UDP_OPTIONS opts))) u"
    have data: "handler_data u = handler_data t" "handler_data ?v = handler_data t"
      using handler_data_more [OF more_udpSend [OF u(1)]] by simp_all
    have moves: "proxy_moves E t u" "proxy_moves E t ?v"
      using moves_step [OF step_send [OF args u(1)]] rtranclp_trans [OF moves_step [OF step_send [OF args u(1)]] moves_aside]
      by simp_all
    have own: "handler_own t" "contexts_cover t" using inv by (simp_all add: handler_inv_def)
    have "contexts_cover u" "contexts_cover ?v"
      using own(2) data send_effect_dom [OF u(2)] by (simp_all add: contexts_cover_def handler_data_def)
    then have "event_handled E t (Some u)" "event_handled E t (Some ?v)"
      using handled_moves [OF inv] moves handler_own_same [OF own(1)] data by simp_all
    then have "event_handled E s (Some u)" "event_handled E s (Some ?v)"
      using event_handled_trans [OF t(2)] by simp_all
    then show ?thesis
      using t u f
      by (cases "f = AF_INET") (auto simp: EventHandler_udpSend_def Let_def sizeof_sockaddr_in_def sizeof_sockaddr_in6_def)
  qed
qed

section \<open>Steps and reachable states\<close>

lemma handle_event_alone:
  assumes "handler_own s" "event_ok ev s"
    and "\<nexists>cid ra buf len opts. ev = EvUdpSend cid ra buf len opts" "\<nexists>cid c. ev = EvUdpClosed cid c"
  shows "event_alone s (handle_event E ev s)"
  using assms
  by (cases ev) (auto simp: ignored_event_def intro: tcpConnectRequest_alone tcpClosed_alone tcpReceive_alone
      tcpSend_alone udpCreated_alone udpReceive_alone event_aloneI)

lemma handle_event_handled:
  assumes "handler_inv s" "event_ok ev s" "event_sendable ev s"
  shows "event_handled E s (handle_event E ev s)"
proof -
  have own: "handler_own s" using assms(1) by (simp add: handler_inv_def)
  consider (send) cid ra buf len opts where "ev = EvUdpSend cid ra buf len opts"
    | (closed) cid c where "ev = EvUdpClosed cid c"
    | (alone) "\<nexists>cid ra buf len opts. ev = EvUdpSend cid ra buf len opts" "\<nexists>cid c. ev = EvUdpClosed cid c"
    by blast
  then show ?thesis
  proof cases
    case alone
    with alone_handled [OF assms(1) handle_event_alone [OF own assms(2)]] show ?thesis by blast
  qed (use assms in \<open>auto intro: udpSend_handled udpClosed_handled\<close>)
qed

lemma completion_handled:
  assumes "handler_inv s" "legal s c" "\<not> port_error c"
  shows "event_handled E s (worker_body (onComplete E (EventHandler_onUdpReceiveComplete E)) c (deliver c s))"
proof -
  have good: "proxy_running s" "connects_once s" using assms(1) by (simp_all add: handler_inv_def proxy_good_def)
  from worker_body_ok [OF handler_receiver good(1) assms(2,3), of E E] connects_once_first [OF good(2)] obtain t where
    t: "worker_body (onComplete E (EventHandler_onUdpReceiveComplete E)) c (deliver c s) = Some t"
    "conn_evolves (connecting s c) s t" by blast
  have data: "handler_data t = handler_data s"
    by (rule handler_data_more) (rule more_worker_body [OF handler_receiver_more t(1)])
  have "dom (map_of (m_socketMap t)) \<subseteq> dom (map_of (m_socketMap s))"
    using t(2) unfolding conn_evolves_def by blast
  then have "contexts_cover t" using assms(1) data by (auto simp: handler_inv_def contexts_cover_def handler_data_def)
  moreover have "handler_own t" using assms(1) handler_own_same [OF _ data] by (simp add: handler_inv_def)
  ultimately show ?thesis
    using handled_moves [OF assms(1) moves_step [OF step_complete [OF assms(2) t(1)]]] t(1) by simp
qed

lemma handler_step_ok:
  assumes "handler_step E s s'" "handler_inv s"
  shows "handler_inv s' \<and> proxy_moves E s s'"
  using assms(1)
proof cases
  case (step_event ev)
  with handle_event_handled [OF assms(2), of ev E] handle_event_sendable [OF assms(2)] show ?thesis
    by (auto simp: event_handled_def)
next
  case (step_completion c)
  with completion_handled [OF assms(2) step_completion(1) worker_body_defined [OF step_completion(2)], of E]
  show ?thesis by (simp add: event_handled_def)
qed

text \<open>
  The states after a successful start; the code around the handler may make other calls
  (\<open>handler_other\<close>: the rules given to the driver). Before the start the handler is idle: no request or connection is
  left, no request is pending in the platform, and as many sockets were closed as opened.
\<close>

definition handler_idle :: "event_handler \<Rightarrow> bool" where
  "handler_idle s \<longleftrightarrow> proxy_idle s \<and> m_sorted (m_connInfoMap s) \<and> m_udpCtxMap s = [] \<and>
     (\<forall>oci \<in> ran (map_of (m_connInfoMap s)). length (oci_remoteAddress oci) = NF_MAX_ADDRESS_LENGTH)"

inductive handler_reach :: "env \<Rightarrow> event_handler \<Rightarrow> bool" for E where
  handler_start: "handler_idle s \<Longrightarrow> EventHandler_init E address user pass s = Some (True, s') \<Longrightarrow> handler_reach E s'"
| handler_run: "handler_reach E s \<Longrightarrow> handler_step E s s' \<Longrightarrow> handler_reach E s'"
| handler_other: "handler_reach E s \<Longrightarrow> aside s t \<Longrightarrow> handler_data t = handler_data s \<Longrightarrow> handler_reach E t"

lemma handler_inv_other:
  assumes "handler_inv s" "aside s t" "handler_data t = handler_data s" shows "handler_inv t"
proof -
  have "event_handled zero_env s (Some t)"
    by (rule handled_aside [OF assms(1,2)]) (use assms in \<open>auto simp: handler_inv_def handler_data_def intro: handler_own_same\<close>)
  then show ?thesis by (simp add: event_handled_def)
qed

end
