(* ===== verification/Handler_Safety.thy ===== *)
theory Handler_Safety
  imports Handler_Inv
begin

text \<open>
  Safety of the running plugin: which events and completions fault, that the locks are used in one order,
  that every proxied endpoint keeps its context, and that each event and each completion changes the
  endpoints' queues of datagrams just as an abstract machine of first-in-first-out queues says.
\<close>

section \<open>Starting\<close>

lemma more_UDPProxy_init:
  assumes "UDPProxy_init E a n user pass s = Some (r, t)" shows "udp_proxy.more t = udp_proxy.more s"
proof -
  have "udp_proxy.more (snd (initExtensions E s)) = udp_proxy.more s" for s :: "'a udp_proxy_scheme"
    by (simp add: initExtensions_def sys_def emit_eq Let_def)
  moreover have "udp_proxy.more (snd (IOCPService_init E s)) = udp_proxy.more s" for s :: "'a udp_proxy_scheme"
    by (simp add: IOCPService_init_def sys_def emit_eq Attach_def Let_def)
  ultimately show ?thesis
    using assms by (auto simp: UDPProxy_init_def split_def Let_def bind_eq_Some_conv split: if_splits)
qed

lemma EventHandler_init_cases:
  assumes "EventHandler_init E address user pass s = Some (True, s')"
  obtains a g sz where "wrn 0 a (replicate NF_MAX_ADDRESS_LENGTH 0) = Some g" "sockaddr_size g = Some sz"
    and "UDPProxy_init E g (int sz) user pass (s\<lparr>g_proxyAddress := g\<rparr>) = Some (True, s')"
  using assms by (auto simp: EventHandler_init_def Let_def bind_eq_Some_conv split: option.splits if_splits)

lemma handler_start_inv:
  assumes "handler_idle s" "EventHandler_init E address user pass s = Some (True, s')"
  shows "proxy_reach E (EventHandler_onUdpReceiveComplete E) s'" "handler_inv s'"
proof -
  from assms(2) obtain a g sz where g: "wrn 0 a (replicate NF_MAX_ADDRESS_LENGTH 0) = Some g"
    "sockaddr_size g = Some sz"
    and run: "UDPProxy_init E g (int sz) user pass (s\<lparr>g_proxyAddress := g\<rparr>) = Some (True, s')"
    by (rule EventHandler_init_cases)
  have len: "length g = NF_MAX_ADDRESS_LENGTH" using wrn_length [OF g(1)] by simp
  with g(2) have sz: "sz \<le> NF_MAX_ADDRESS_LENGTH"
    using sockaddr_size_total [OF len] by (metis option.inject)
  have idle: "proxy_idle (s\<lparr>g_proxyAddress := g\<rparr>)" using assms(1) by (simp add: handler_idle_def proxy_idle_def)
  show reach: "proxy_reach E (EventHandler_onUdpReceiveComplete E) s'"
    by (rule reach_init [OF idle _ _ _ run]) (use sz len in simp_all)
  from UDPProxy_init_ok [OF idle, of "int sz" g E user pass] sz len run have "m_socketMap s' = []" by auto
  moreover have "handler_data s' = handler_data (s\<lparr>g_proxyAddress := g\<rparr>)"
    by (rule handler_data_more [OF more_UDPProxy_init [OF run]])
  ultimately have "handler_own s'" "contexts_cover s'"
    using assms(1) len by (simp_all add: handler_own_def handler_idle_def handler_data_def contexts_cover_def m_sorted_def)
  with proxy_reach_inv [OF handler_receiver reach] proxy_reach_sockets [OF handler_receiver handler_receiver_calls(1) reach]
  show "handler_inv s'" by (simp add: handler_inv_def proxy_good_def)
qed

lemma handler_reach_inv: "handler_reach E s \<Longrightarrow> handler_inv s"
proof (induction rule: handler_reach.induct)
  case (handler_start s address user pass s')
  then show ?case by (rule handler_start_inv(2))
next
  case (handler_run s s')
  then show ?case using handler_step_ok by blast
next
  case (handler_other s t)
  then show ?case using handler_inv_other by blast
qed

lemma handler_reach_proxy:
  "handler_reach E s \<Longrightarrow> \<exists>s0. proxy_reach E (EventHandler_onUdpReceiveComplete E) s0 \<and> proxy_moves E s0 s"
proof (induction rule: handler_reach.induct)
  case (handler_start s address user pass s')
  then show ?case using handler_start_inv(1) by blast
next
  case (handler_run s s')
  then show ?case using handler_step_ok handler_reach_inv rtranclp_trans by metis
next
  case (handler_other s t)
  then show ?case using moves_aside rtranclp_trans by metis
qed

section \<open>Queues\<close>

lemma move_own:
  assumes "fresh_sockets E" "proxy_move E s t" "proxy_good s" "own_sockets s"
  shows "own_sockets t"
proof (cases "aside s t")
  case False
  then have "proxy_step E (EventHandler_onUdpReceiveComplete E) s t" using assms(2) by (simp add: proxy_move_def)
  with proxy_step_own [OF handler_receiver assms(1), of s E t] assms(3,4) show ?thesis
    by (simp add: proxy_good_def)
qed (use assms(4) in \<open>simp add: aside_own\<close>)

lemma moves_own:
  assumes "proxy_moves E s t" "fresh_sockets E" "proxy_good s" "own_sockets s"
  shows "own_sockets t"
  using assms
proof (induction rule: rtranclp_induct)
  case (step t u)
  with move_own [OF step(4) step(2) moves_good [OF step(1,5)]] show ?case by simp
qed

lemma handler_reach_own:
  assumes "fresh_sockets E" "handler_reach E s" shows "own_sockets s"
proof -
  from handler_reach_proxy [OF assms(2)] obtain s0 where
    s0: "proxy_reach E (EventHandler_onUdpReceiveComplete E) s0" "proxy_moves E s0 s" by blast
  have "proxy_good s0"
    using proxy_reach_inv [OF handler_receiver s0(1)]
      proxy_reach_sockets [OF handler_receiver handler_receiver_calls(1) s0(1)] by (simp add: proxy_good_def)
  with moves_own [OF s0(2) assms(1)] proxy_reach_own [OF handler_receiver handler_receiver_calls(1) assms(1) s0(1)]
  show ?thesis by simp
qed

text \<open>
  The abstract machine: a queue of datagrams for each endpoint that has a connection. \<open>event_queues\<close>
  and \<open>completion_queues\<close> are its answers to the driver and to the port; \<open>known\<close> are the endpoints that
  have a context. A datagram goes to the end of its endpoint's queue; a new endpoint gets a queue
  unless its connection cannot be created; a closed endpoint and a refused connection lose theirs.
\<close>

type_synonym queues = "u64 \<Rightarrow> bytes list option"

fun event_queues :: "nf_event \<Rightarrow> u64 set \<Rightarrow> queues \<Rightarrow> queues set" where
  "event_queues (EvUdpSend cid ra buf len opts) known q =
     (case q cid of
        Some ds \<Rightarrow> {q(cid \<mapsto> ds @ queued ra buf len)}
      | None \<Rightarrow> if cid \<in> known then {q} else {q, q(cid \<mapsto> queued ra buf len)})"
| "event_queues (EvUdpClosed cid c) known q = {q(cid := None)}"
| "event_queues ev known q = {q}"

definition completion_queues :: "completion \<Rightarrow> event_handler \<Rightarrow> queues" where
  "completion_queues c s =
     (case Option.bind (cq_overlapped c) (map_of (m_ovDataSet s)) of
        None \<Rightarrow> outboxes s
      | Some d \<Rightarrow>
          if ov_type d = OVT_CONNECT \<and> \<not> cq_ok c \<and> cq_error c \<noteq> 0
          then (outboxes s)(ov_id d := None) else outboxes s)"

lemma ensure_connection_queues:
  assumes E: "fresh_sockets E" and s: "handler_inv s" "own_sockets s"
    and new: "map_of (m_udpCtxMap s) cid = None \<longrightarrow> cid \<notin> snd ` connects s" "options_ok opts"
    and run: "ensure_connection E cid opts s = Some (ok, t)"
  shows "outboxes t = (if ok \<and> map_of (m_udpCtxMap s) cid = None then (outboxes s)(cid \<mapsto> []) else outboxes s)"
    and "handler_inv t" "own_sockets t"
proof -
  from ensure_connection_handled [OF s(1) new(2,1), of E] run
  have t: "handler_inv t" "proxy_moves E s t" by (auto simp: event_handled_def)
  show "handler_inv t" by (rule t(1))
  show "own_sockets t" by (rule moves_own [OF t(2) E _ s(2)]) (use s(1) in \<open>simp add: handler_inv_def\<close>)
  show "outboxes t = (if ok \<and> map_of (m_udpCtxMap s) cid = None then (outboxes s)(cid \<mapsto> []) else outboxes s)"
  proof (cases "map_of (m_udpCtxMap s) cid")
    case (Some x)
    with run show ?thesis by (auto simp: ensure_connection_def)
  next
    case None
    let ?c = "createProxyConnection E cid (lock_guard E s)"
    have bal: "sockets_balanced (lock_guard E s)" "own_sockets (lock_guard E s)"
      using s aside_balanced [of s "lock_guard E s"] by (simp_all add: handler_inv_def proxy_good_def own_sockets_def)
    have "map_of (m_socketMap (lock_guard E s)) cid = None"
      using s(1) None unfolding handler_inv_def contexts_cover_def by simp (metis domIff subsetD)
    from createProxyConnection_channel(2) [OF E bal this]
    have box: "outboxes (snd ?c) = (if fst ?c then (outboxes s)(cid \<mapsto> []) else outboxes s)" by simp
    have "m_socketMap t = m_socketMap (snd ?c)" "trace t = trace (unlock_guard E (snd ?c))" "ok = fst ?c"
      using run None by (auto simp: ensure_connection_def split_def Let_def bind_eq_Some_conv emit_eq split: if_splits)
    then have "outboxes t = outboxes (snd ?c)" "ok = fst ?c"
      using locks_outboxes [of E "Release HandlerLock" "snd ?c"] by (simp_all add: outboxes_def [abs_def])
    with box None show ?thesis by simp
  qed
qed

lemma udpSend_queues:
  fixes t :: event_handler
  assumes "handler_inv t" "own_sockets t" "address_ok ra" "len \<le> int (length buf)" "sa_family ra = Some f"
    and "udpSend E cid buf len ra (if f = AF_INET then 16 else 28) t = Some (r, u)"
  shows "outboxes u = (case outboxes t cid of None \<Rightarrow> outboxes t | Some ds \<Rightarrow> (outboxes t)(cid \<mapsto> ds @ queued ra buf len))"
proof (cases "map_of (m_socketMap t) cid")
  case None
  then have "u = leave_cs E (enter_cs E t)" using assms(6) by (simp add: udpSend_def Let_def)
  moreover have "outboxes t cid = None" using None by (simp add: outboxes_def)
  ultimately show ?thesis by simp
next
  case (Some pd)
  have inv: "proxy_inv {} t" "connects_once t" using assms(1) by (simp_all add: handler_inv_def proxy_good_def proxy_running_def)
  then have "pd_settled pd" using Some by (auto simp: connects_once_def)
  then have "proxyState pd = PS_CONNECTED \<longrightarrow> udpSendPackets pd = []" by (simp add: pd_settled_def)
  note args = address_send_args [OF assms(3-5)]
  obtain ds where "outboxes t cid = Some ds" using Some by (simp add: outboxes_def)
  with udpSend_outboxes [OF assms(6) inv(1) assms(2) args(1) Some \<open>_ \<longrightarrow> _\<close>] args(2) show ?thesis by auto
qed

lemma udpSend_event_queues:
  assumes E: "fresh_sockets E" and s: "handler_inv s" "own_sockets s"
    and ok: "event_ok (EvUdpSend cid ra buf len opts) s"
    and run: "EventHandler_udpSend E cid ra buf len opts s = Some t"
  shows "outboxes t \<in> event_queues (EvUdpSend cid ra buf len opts) (dom (map_of (m_udpCtxMap s))) (outboxes s)"
proof -
  have args: "map_of (m_udpCtxMap s) cid = None \<longrightarrow> cid \<notin> snd ` connects s" "options_ok opts" "address_ok ra"
    "len \<le> int (length buf)" using ok by simp_all
  from run obtain b u where u: "ensure_connection E cid opts s = Some (b, u)"
    by (auto simp: EventHandler_udpSend_def bind_eq_Some_conv)
  note q = ensure_connection_queues [OF E s args(1,2) u]
  have none: "map_of (m_udpCtxMap s) cid = None \<Longrightarrow> outboxes s cid = None"
    using s(1) by (auto simp: handler_inv_def contexts_cover_def outboxes_def domIff)
  show ?thesis
  proof (cases b)
    case False
    then have "t = u" using u run by (simp add: EventHandler_udpSend_def)
    moreover have "map_of (m_udpCtxMap s) cid = None"
      using u False by (cases "map_of (m_udpCtxMap s) cid") (simp_all add: ensure_connection_def)
    ultimately show ?thesis using False q(1) none by auto
  next
    case True
    obtain f where f: "sa_family ra = Some f" using args(3) by (cases "sa_family ra") (auto simp: address_ok_def)
    from run u True f obtain r v where
      v: "udpSend E cid buf len ra (if f = AF_INET then 16 else 28) u = Some (r, v)" and
      t: "t = v \<or> t = emit E (Nf (UdpPostSend cid ra buf len (map_option enc_NF_UDP_OPTIONS opts))) v"
      by (cases "f = AF_INET") (auto simp: EventHandler_udpSend_def Let_def bind_eq_Some_conv sizeof_sockaddr_in_def
          sizeof_sockaddr_in6_def split: if_splits)
    from t have "outboxes t = outboxes v" by (auto simp: emit_outboxes no_datagrams_def sent_step_def)
    with udpSend_queues [OF q(2,3) args(3,4) f v] q(1) True none show ?thesis
      by (cases "map_of (m_udpCtxMap s) cid"; cases "outboxes s cid") auto
  qed
qed

lemma udpClosed_queues:
  assumes "udpClosed E cid c s = Some t" shows "outboxes t = (outboxes s)(cid := None)"
proof -
  from assms obtain u where u: "LogUDP E False cid c s = Some u"
    and t: "t = (let v = lock_guard E (deleteProxyConnection E cid u) in unlock_guard E
      (case map_of (m_udpCtxMap v) cid of None \<Rightarrow> v | Some ctx \<Rightarrow> v\<lparr>m_udpCtxMap := m_erase cid (m_udpCtxMap v)\<rparr>))"
    by (auto simp: udpClosed_def bind_eq_Some_conv Let_def)
  have "outboxes u = outboxes s"
    using u by (auto simp: LogUDP_def bind_eq_Some_conv emit_outboxes no_datagrams_def sent_step_def)
  moreover have "outboxes (v\<lparr>m_udpCtxMap := m\<rparr>) = outboxes v" for v :: event_handler and m
    by (simp add: outboxes_def [abs_def])
  ultimately show ?thesis
    by (simp add: t Let_def deleteProxyConnection_outboxes split: option.split)
qed

lemma event_refines_queues:
  assumes "fresh_sockets E" "handler_inv s" "own_sockets s" "event_ok ev s" "handle_event E ev s = Some t"
  shows "outboxes t \<in> event_queues ev (dom (map_of (m_udpCtxMap s))) (outboxes s)"
proof -
  have own: "handler_own s" using assms(2) by (simp add: handler_inv_def)
  consider (send) cid ra buf len opts where "ev = EvUdpSend cid ra buf len opts"
    | (closed) cid c where "ev = EvUdpClosed cid c"
    | (alone) "\<nexists>cid ra buf len opts. ev = EvUdpSend cid ra buf len opts" "\<nexists>cid c. ev = EvUdpClosed cid c"
    by blast
  then show ?thesis
  proof cases
    case alone
    then have "aside s t" using handle_event_alone [OF own assms(4), of E] assms(5) by (auto simp: event_alone_def)
    with alone show ?thesis by (cases ev) (simp_all add: aside_outboxes)
  next
    case closed
    with assms(5) udpClosed_queues show ?thesis by simp
  next
    case send
    with udpSend_event_queues [OF assms(1-3), of cid ra buf len opts t] assms(4,5) show ?thesis
      by (simp del: event_queues.simps event_ok.simps)
  qed
qed

lemma completion_refines_queues:
  assumes "handler_inv s" "own_sockets s" "legal s c"
    and run: "worker_body (onComplete E (EventHandler_onUdpReceiveComplete E)) c (deliver c s) = Some t"
  shows "outboxes t = completion_queues c s"
proof (cases "cq_overlapped c")
  case None
  from timeout_noop [OF assms(3) this run] None show ?thesis by (simp add: completion_queues_def)
next
  case (Some p)
  have inv: "proxy_running s" "proxy_inv {} s" using assms(1) by (simp_all add: handler_inv_def proxy_good_def proxy_running_def)
  from deliver_inv(2) [OF inv(2) assms(3) Some] obtain d where d: "map_of (m_ovDataSet (deliver c s)) p = Some d"
    "\<forall>e. map_of (m_ovDataSet s) p = Some e \<longrightarrow> ov_type d = ov_type e \<and> ov_id d = ov_id e" by auto
  have "p \<in> set (inflight s)" using assms(3) Some by (simp add: legal_def)
  with proxy_inv_live [OF inv(2), of p] obtain e where e: "map_of (m_ovDataSet s) p = Some e" by auto
  from legal_object [OF inv(1) assms(3) Some] run have
    r: "onComplete E (EventHandler_onUdpReceiveComplete E) (cq_socket c) (cq_transferred c) (Some p)
      (if cq_ok c then 0 else cq_error c) (deliver c s) = Some t" by metis
  have "own_sockets (deliver c s)" using assms(2) by (simp add: own_sockets_def)
  from onComplete_outboxes [OF r deliver_inv(1) [OF inv(2) assms(3) Some] this handler_receiver handler_receiver_calls(2) d(1)]
  have "outboxes t = (if ov_type d = OVT_CONNECT \<and> (if cq_ok c then 0 else cq_error c) \<noteq> 0
      then (outboxes s)(ov_id d := None) else outboxes s)" by (simp add: outboxes_def [abs_def])
  with d(2) e Some show ?thesis by (auto simp: completion_queues_def)
qed

section \<open>Locks\<close>

lemma unlocked_call:
  "extends unlocked_neutral s t \<Longrightarrow> extends unlocked_neutral s (emit E (Nf z) t)"
  "extends unlocked_neutral s t \<Longrightarrow> extends unlocked_neutral s (emit E (DoLog i p b l r q n) t)"
  by (auto simp: extends_def unlocked_neutral_def emit_eq lock_run_append lock_act_def)

lemma unlocked_trans:
  "extends unlocked_neutral s t \<Longrightarrow> extends unlocked_neutral t u \<Longrightarrow> extends unlocked_neutral s u"
  unfolding extends_def using unlocked_neutral_append by (metis append.assoc)

lemma unlocked_same [simp]: "trace t = trace s \<Longrightarrow> extends unlocked_neutral s t"
  by (simp add: extends_def unlocked_neutral_def)

lemma unlocked_fields [simp]:
  "extends unlocked_neutral s (t\<lparr>m_connInfoMap := x\<rparr>) = extends unlocked_neutral s t"
  "extends unlocked_neutral s (t\<lparr>m_udpCtxMap := y\<rparr>) = extends unlocked_neutral s t"
  by (simp_all add: extends_def)

text \<open>A scope of the handler's mutex may use the proxy's lock.\<close>

lemma mutex_section:
  assumes "extends lock_neutral (lock_guard E s) t"
  shows "extends unlocked_neutral s (unlock_guard E t)"
  using assms by (auto simp: extends_def unlocked_neutral_def lock_neutral_def emit_eq lock_run_append lock_act_def)

lemma locks_call:
  "extends lock_neutral s t \<Longrightarrow> extends lock_neutral s (emit E (Nf z) t)"
  "extends lock_neutral s t \<Longrightarrow> extends lock_neutral s (emit E (DoLog i p b l r q n) t)"
  by (auto simp: extends_def lock_neutral_def emit_eq lock_run_append lock_act_def)

lemma locks_fields [simp]:
  "extends lock_neutral s (t\<lparr>m_udpCtxMap := y\<rparr>) = extends lock_neutral s t"
  by (simp add: extends_def)

lemma handler_receiver_locks: "receiver_calls unlocked_neutral (EventHandler_onUdpReceiveComplete E)"
  by (auto simp: receiver_calls_def EventHandler_onUdpReceiveComplete_def Let_def
      intro!: mutex_section locks_call split: option.splits)

lemma LogTCP_locks: "LogTCP E b cid c s = Some t \<Longrightarrow> extends unlocked_neutral s t"
  by (auto simp: LogTCP_def bind_eq_Some_conv intro!: unlocked_call)

lemma LogUDP_locks:
  "LogUDP E b cid c s = Some t \<Longrightarrow> extends unlocked_neutral s t"
  "LogUDP E b cid c (lock_guard E s) = Some t \<Longrightarrow> extends unlocked_neutral s (unlock_guard E t)"
  by (auto simp: LogUDP_def bind_eq_Some_conv intro!: unlocked_call mutex_section locks_call)

lemma ensure_connection_locks:
  "ensure_connection E cid opts s = Some (ok, t) \<Longrightarrow> extends unlocked_neutral s t"
  using locks_createProxyConnection [of "lock_guard E s" E cid]
  by (auto simp: ensure_connection_def split_def Let_def bind_eq_Some_conv intro!: mutex_section
      split: option.splits if_splits)

lemma udpSend_event_locks:
  assumes "EventHandler_udpSend E cid ra buf len opts s = Some t"
  shows "extends unlocked_neutral s t"
proof -
  from assms obtain ok u where u: "ensure_connection E cid opts s = Some (ok, u)"
    by (auto simp: EventHandler_udpSend_def bind_eq_Some_conv)
  show ?thesis
  proof (cases ok)
    case False
    with assms u show ?thesis by (auto simp: EventHandler_udpSend_def dest: ensure_connection_locks)
  next
    case True
    with assms u obtain n r v where v: "udpSend E cid buf len ra n u = Some (r, v)"
      and t: "t = v \<or> t = emit E (Nf (UdpPostSend cid ra buf len (map_option enc_NF_UDP_OPTIONS opts))) v"
      by (auto simp: EventHandler_udpSend_def bind_eq_Some_conv Let_def split: if_splits)
    have "extends unlocked_neutral u v"
      by (rule locks.ext_weaken, erule lock_neutral_unlocked, rule locks.ext_udpSend [OF v]) simp
    with unlocked_trans [OF ensure_connection_locks [OF u]] t show ?thesis
      by (auto intro: unlocked_call)
  qed
qed

lemma handle_event_locks:
  assumes "handle_event E ev s = Some t" shows "extends unlocked_neutral s t"
proof (cases ev)
  case (EvTcpConnectRequest cid c)
  with assms show ?thesis by (auto simp: tcpConnectRequest_def bind_eq_Some_conv Let_def split: if_splits)
next
  case (EvTcpConnected cid c)
  with assms show ?thesis by (auto simp: tcpConnected_def LogTCP_locks)
next
  case (EvTcpClosed cid c)
  with assms show ?thesis by (auto simp: tcpClosed_def bind_eq_Some_conv LogTCP_locks)
next
  case (EvTcpReceive cid buf len)
  with assms show ?thesis by (auto simp: tcpReceive_def Let_def intro!: unlocked_call split: option.splits)
next
  case (EvTcpSend cid buf len)
  with assms show ?thesis
    by (auto simp: tcpSend_def Let_def bind_eq_Some_conv intro!: unlocked_call split: option.splits if_splits)
next
  case (EvUdpCreated cid c)
  with assms show ?thesis by (auto simp: udpCreated_def bind_eq_Some_conv LogUDP_locks)
next
  case (EvUdpClosed cid c)
  with assms obtain u where u: "LogUDP E False cid c s = Some u"
    by (auto simp: udpClosed_def bind_eq_Some_conv)
  have "extends unlocked_neutral u (deleteProxyConnection E cid u)"
    by (rule locks.ext_weaken, erule lock_neutral_unlocked, rule locks_deleteProxyConnection) simp
  moreover have "extends unlocked_neutral (deleteProxyConnection E cid u) t"
    using assms u EvUdpClosed by (auto simp: udpClosed_def Let_def intro!: mutex_section split: option.splits)
  ultimately show ?thesis using LogUDP_locks(1) [OF u] unlocked_trans by blast
next
  case (EvUdpReceive cid ra buf len opts)
  with assms show ?thesis by (auto simp: udpReceive_def intro!: unlocked_call)
next
  case (EvUdpSend cid ra buf len opts)
  with assms udpSend_event_locks show ?thesis by simp
qed (use assms in \<open>simp_all add: ignored_event_def\<close>)

lemma handler_step_locks:
  assumes "handler_step E s t" "handler_inv s" shows "extends unlocked_neutral s t"
  using assms(1)
proof cases
  case (step_event ev)
  then show ?thesis by (simp add: handle_event_locks)
next
  case (step_completion c)
  have "proxy_running s" using assms(2) by (simp add: handler_inv_def proxy_good_def)
  from proxy_step_locks [OF handler_receiver_locks this step_complete [OF step_completion]] show ?thesis .
qed

section \<open>Stopping\<close>

lemma UDPProxy_free_fields [simp]:
  "m_ovDataSet (UDPProxy_free E s) = []" "m_socketMap (UDPProxy_free E s) = []"
  "inflight (UDPProxy_free E s) = inflight s" "m_proxyAddress (UDPProxy_free E s) = m_proxyAddress s"
  "udp_proxy.more (UDPProxy_free E s) = udp_proxy.more s"
proof -
  have free: "inflight (IOCPService_free E s) = inflight s" "m_socketMap (IOCPService_free E s) = m_socketMap s"
    "m_proxyAddress (IOCPService_free E s) = m_proxyAddress s"
    "udp_proxy.more (IOCPService_free E s) = udp_proxy.more s"
    by (simp_all add: IOCPService_free_def Close_def Let_def emit_eq)
  have conns: "m_proxyAddress (free_connections E m t) = m_proxyAddress t"
    "udp_proxy.more (free_connections E m t) = udp_proxy.more t" for m and t :: "'a udp_proxy_scheme"
    by (induction E m t rule: free_connections.induct) (simp_all add: delete_PROXY_DATA_def Let_def)
  show "m_ovDataSet (UDPProxy_free E s) = []" "m_socketMap (UDPProxy_free E s) = []"
    "inflight (UDPProxy_free E s) = inflight s" "m_proxyAddress (UDPProxy_free E s) = m_proxyAddress s"
    "udp_proxy.more (UDPProxy_free E s) = udp_proxy.more s"
    by (simp_all add: UDPProxy_free_def Let_def free conns)
qed

lemma EventHandler_free_fields:
  "m_udpCtxMap (EventHandler_free E s) = []" "m_connInfoMap (EventHandler_free E s) = m_connInfoMap s"
  "m_ovDataSet (EventHandler_free E s) = []" "m_socketMap (EventHandler_free E s) = []"
  "inflight (EventHandler_free E s) = inflight s" "m_proxyAddress (EventHandler_free E s) = m_proxyAddress s"
  "trace (EventHandler_free E s) = trace (unlock_guard E (lock_guard E (UDPProxy_free E s)))"
  using handler_data_more [OF UDPProxy_free_fields(5), of E s]
  by (simp_all add: EventHandler_free_def Let_def handler_data_def emit_eq)

section \<open>A concrete plugin\<close>

text \<open>For closed examples: the address text means 127.0.0.1:1080, nothing else fails.\<close>

definition handler_env :: env where
  "handler_env = fresh_env\<lparr>string_to_address := \<lambda>_ _. Some example_address\<rparr>"

definition example_handler_idle :: event_handler where
  "example_handler_idle = udp_proxy.extend example_idle
     \<lparr>m_connInfoMap = [], m_udpCtxMap = [], g_proxyAddress = replicate NF_MAX_ADDRESS_LENGTH 0\<rparr>"

definition example_handler :: event_handler where
  "example_handler = (case EventHandler_init handler_env [] [] [] example_handler_idle of
     Some (_, s) \<Rightarrow> s | None \<Rightarrow> example_handler_idle)"

lemma handler_env_os [simp]: "os handler_env = os fresh_env" "string_to_address handler_env w f = Some example_address"
  by (simp_all add: handler_env_def)

lemma handler_env_fresh: "fresh_sockets handler_env"
  using fresh_env_ok by (simp add: fresh_sockets_def)

lemma example_handler_idle_ok: "handler_idle example_handler_idle"
  by (simp add: handler_idle_def proxy_idle_def example_handler_idle_def udp_proxy.defs example_idle_def
      m_sorted_def opened_sockets_def closed_sockets_def map_filter_simps)

lemma example_address_size:
  "wrn 0 example_address (replicate NF_MAX_ADDRESS_LENGTH 0) = Some (example_address @ replicate 12 0)"
  "sockaddr_size (example_address @ replicate 12 0) = Some 16"
  by (simp_all add: wrn_def NF_MAX_ADDRESS_LENGTH_def example_address_def sockaddr_size_def sa_family_def
      mk_sockaddr_in_def rd16_def le16_def sizeof_sockaddr_in_def)

lemma example_handler_proxy_init:
  "\<exists>s. UDPProxy_init handler_env (example_address @ replicate 12 0) 16 [] []
     (example_handler_idle\<lparr>g_proxyAddress := example_address @ replicate 12 0\<rparr>) = Some (True, s) \<and>
     m_ovDataSet s = [] \<and> m_socketMap s = [] \<and> m_udpCtxMap s = [] \<and> next_ov s = 0 \<and> m_userName s = [] \<and>
     inflight s = [] \<and> opened_sockets (trace s) = [1] \<and> closed_sockets (trace s) = [1] \<and> m_h s OBJ_workerThread = 1"
  by (simp add: UDPProxy_init_def initExtensions_def IOCPService_init_def sys_def emit_eq example_handler_idle_def
      fresh_env_def example_env_def example_idle_def Attach_def Let_def memcpy_from_def rdn_def example_address_def wrn_def
      INVALID_SOCKET_def INVALID_HANDLE_VALUE_def NF_MAX_ADDRESS_LENGTH_def udp_proxy.defs)

lemma example_handler_init:
  "EventHandler_init handler_env [] [] [] example_handler_idle = Some (True, example_handler)"
proof -
  from example_handler_proxy_init obtain s where
    "UDPProxy_init handler_env (example_address @ replicate 12 0) 16 [] []
     (example_handler_idle\<lparr>g_proxyAddress := example_address @ replicate 12 0\<rparr>) = Some (True, s)" by blast
  then have "EventHandler_init handler_env [] [] [] example_handler_idle = Some (True, s)"
    by (simp add: EventHandler_init_def example_address_size Let_def)
  then show ?thesis by (simp add: example_handler_def)
qed

lemma example_handler_reach: "handler_reach handler_env example_handler"
  by (rule handler_start [OF example_handler_idle_ok example_handler_init])

text \<open>An endpoint sends a datagram: its connection is created and the datagram waits.\<close>

definition example_datagram :: nf_event where
  "example_datagram = EvUdpSend 7 example_address [1, 2] 2 None"

definition example_proxied :: event_handler where
  "example_proxied = the (handle_event handler_env example_datagram example_handler)"

lemma example_handler_fields:
  "m_ovDataSet example_handler = []" "m_socketMap example_handler = []" "m_udpCtxMap example_handler = []"
  "next_ov example_handler = 0" "m_userName example_handler = []" "inflight example_handler = []"
  "opened_sockets (trace example_handler) = [1]" "closed_sockets (trace example_handler) = [1]"
  "m_h example_handler OBJ_workerThread = 1"
proof -
  from example_handler_init have "UDPProxy_init handler_env (example_address @ replicate 12 0) 16 [] []
     (example_handler_idle\<lparr>g_proxyAddress := example_address @ replicate 12 0\<rparr>) = Some (True, example_handler)"
    by (auto simp: EventHandler_init_def example_address_size Let_def bind_eq_Some_conv split: if_splits)
  with example_handler_proxy_init
  show "m_ovDataSet example_handler = []" "m_socketMap example_handler = []" "m_udpCtxMap example_handler = []"
    "next_ov example_handler = 0" "m_userName example_handler = []" "inflight example_handler = []"
    "opened_sockets (trace example_handler) = [1]" "closed_sockets (trace example_handler) = [1]"
    "m_h example_handler OBJ_workerThread = 1"
    by auto
qed

lemma example_connects: "connects example_handler = {}"
  by (simp add: connects_def example_handler_fields)

lemma example_create:
  "fst (createProxyConnection handler_env 7 (lock_guard handler_env example_handler))"
  by (simp add: createProxyConnection_def example_handler_fields sys_def emit_eq
      fresh_env_def example_env_def Let_def INVALID_SOCKET_def registerSocket_def startConnect_def submit_def
      newOV_DATA_def ov_upd_def new_OV_DATA_def)

lemma example_datagram_ok: "event_ok example_datagram example_handler"
  by (simp add: example_datagram_def address_ok_def example_address_def options_ok_def example_connects example_handler_fields)

lemma example_datagram_sendable: "event_sendable example_datagram s"
  by (simp add: example_datagram_def sendable_def)

lemma example_datagram_step:
  "handle_event handler_env example_datagram example_handler = Some example_proxied"
  using handle_event_handled [OF handler_reach_inv [OF example_handler_reach] example_datagram_ok, of handler_env]
    example_datagram_sendable
  by (auto simp: event_handled_def example_proxied_def)

lemma example_proxied_reach: "handler_reach handler_env example_proxied"
  by (rule handler_run [OF example_handler_reach step_event [OF example_datagram_ok example_datagram_step]])

lemma proxy_inv_ctx [simp]: "proxy_inv H (s\<lparr>m_udpCtxMap := y\<rparr>) = proxy_inv H s"
  by (simp add: proxy_inv_def)

definition example_ensured :: event_handler where
  "example_ensured = snd (the (ensure_connection handler_env 7 None example_handler))"

lemma example_ensured:
  "ensure_connection handler_env 7 None example_handler = Some (True, example_ensured)"
  "\<exists>pd. map_of (m_socketMap example_ensured) 7 = Some pd"
  "proxy_inv {} example_ensured"
proof -
  let ?c = "createProxyConnection handler_env 7 (lock_guard handler_env example_handler)"
  let ?t = "unlock_guard handler_env ((snd ?c)\<lparr>m_udpCtxMap := m_insert 7 \<lparr>m_options = None\<rparr> (m_udpCtxMap (snd ?c))\<rparr>)"
  have t: "ensure_connection handler_env 7 None example_handler = Some (True, ?t)"
    using example_create by (simp add: ensure_connection_def example_handler_fields split_def Let_def UDPContext_ctor_def)
  have inv: "proxy_inv {} example_handler"
    using handler_reach_inv [OF example_handler_reach] by (simp add: handler_inv_def proxy_good_def proxy_running_def)
  show "ensure_connection handler_env 7 None example_handler = Some (True, example_ensured)"
    by (simp add: example_ensured_def t)
  show "\<exists>pd. map_of (m_socketMap example_ensured) 7 = Some pd" "proxy_inv {} example_ensured"
    using createProxyConnection_ok(1,3) [of "{}" "lock_guard handler_env example_handler" handler_env 7] example_create
    by (simp_all add: example_ensured_def t inv)
qed

lemma example_proxied_connected: "\<exists>pd. map_of (m_socketMap example_proxied) 7 = Some pd"
proof -
  have "send_args_ok [1, 2] 2 example_address 16"
    by (simp add: send_args_ok_def addr_readable_def example_address_def NF_MAX_ADDRESS_LENGTH_def)
  from udpSend_ok [OF example_ensured(3) this, of 7 handler_env] obtain r u where
    u: "udpSend handler_env 7 [1, 2] 2 example_address 16 example_ensured = Some (r, u)" "send_effect 7 example_ensured u"
    by (auto simp: sendable_def)
  have "7 \<in> dom (map_of (m_socketMap u))" using example_ensured(2) send_effect_dom [OF u(2)] by auto
  moreover have "handle_event handler_env example_datagram example_handler = Some (if r then u
      else emit handler_env (Nf (UdpPostSend 7 example_address [1, 2] 2 None)) u)"
    using example_ensured(1) u(1)
    by (simp add: example_datagram_def EventHandler_udpSend_def Let_def sizeof_sockaddr_in_def example_address_def)
  then have "m_socketMap example_proxied = m_socketMap u" by (simp add: example_proxied_def)
  ultimately show ?thesis by auto
qed

section \<open>Properties\<close>

text \<open>
  What the sequential plugin faults on: in every reachable state each event the driver may send is
  handled but an empty datagram for an established association, and each completion but the error
  of a port that does not exist: no memory outside a block is touched, no freed object is used, no
  loop runs forever.
\<close>

lemma plugin_never_faults:
  assumes "handler_reach E s"
  shows "(event_ok ev s \<longrightarrow> event_sendable ev s \<longrightarrow> (\<exists>s'. handle_event E ev s = Some s'))
    \<and> (legal s c \<longrightarrow> \<not> port_error c \<longrightarrow>
         (\<exists>s'. worker_body (onComplete E (EventHandler_onUdpReceiveComplete E)) c (deliver c s) = Some s'))"
  using handle_event_handled [OF handler_reach_inv [OF assms], of ev E]
    completion_handled [OF handler_reach_inv [OF assms], of c E] unfolding event_handled_def by blast

text \<open>
  The worker thread is safe whatever a port delivers: started in a reachable state, it handles
  every sequence of packets the platform can deliver, and it ends exactly when the stop event is seen.
\<close>

lemma worker_thread_safe:
  assumes "handler_reach E s"
    and "legal_run (\<lambda>s c. legal s c \<and> \<not> port_error c) deliver (onComplete E (EventHandler_onUdpReceiveComplete E)) cs s"
  shows "\<exists>s'. workerThread deliver (onComplete E (EventHandler_onUdpReceiveComplete E)) cs s =
    Some (\<exists>c \<in> set cs. cq_stop c, s')"
proof -
  have "proxy_running s" using handler_reach_inv [OF assms(1)] by (simp add: handler_inv_def proxy_good_def)
  from handler.proxy.worker_safe [OF this assms(2)] show ?thesis by blast
qed

text \<open>
  C2: the endpoints' datagrams form first-in-first-out queues. Each event of the driver changes the
  queues just as the abstract machine says: a datagram is encapsulated and appended to the queue of
  its endpoint, once, and to no other; a closed endpoint loses its queue; no other event touches one.
  No completion reorders, drops, repeats or adds a datagram, the flush of the waiting datagrams
  included: a refused connection loses its queue, and every other completion leaves all queues alone.
\<close>

theorem plugin_refines_fifo:
  assumes "fresh_sockets E" "handler_reach E s"
  shows "(event_ok ev s \<and> handle_event E ev s = Some t \<longrightarrow>
      outboxes t \<in> event_queues ev (dom (map_of (m_udpCtxMap s))) (outboxes s)) \<and>
    (legal s c \<and> worker_body (onComplete E (EventHandler_onUdpReceiveComplete E)) c (deliver c s) = Some u \<longrightarrow>
      outboxes u = completion_queues c s)"
  using event_refines_queues [OF assms(1) handler_reach_inv [OF assms(2)] handler_reach_own [OF assms], of ev t]
    completion_refines_queues [OF handler_reach_inv [OF assms(2)] handler_reach_own [OF assms], of c E u] by blast

theorem plugin_refines_fifo_witness:
  "outboxes example_handler = Map.empty \<and>
   outboxes example_proxied = [7 \<mapsto> [[0, 0, 0, 1, 0x7f, 0, 0, 1, 4, 0x38, 1, 2]]]"
proof -
  have empty: "outboxes example_handler = Map.empty" by (rule ext) (simp add: outboxes_def example_handler_fields)
  have "udp_datagram example_address (take (nat 2) [1, 2]) = Some [0, 0, 0, 1, 0x7f, 0, 0, 1, 4, 0x38, 1, 2]"
    by code_simp
  then have "queued example_address [1, 2] 2 = [[0, 0, 0, 1, 0x7f, 0, 0, 1, 4, 0x38, 1, 2]]" by (simp add: queued_def)
  moreover have "outboxes example_proxied 7 \<noteq> None" using example_proxied_connected by (auto simp: outboxes_def)
  ultimately show ?thesis
    using plugin_refines_fifo [OF handler_env_fresh example_handler_reach, of example_datagram example_proxied]
      example_datagram_ok example_datagram_step empty
    by (auto simp: example_datagram_def example_handler_fields)
qed

text \<open>
  The plugin's lock discipline: every event and every completion acquires and releases the
  handler's mutex and the proxy's critical section in a nested way, the mutex before the critical
  section, and holds neither at its end; so no two of them can deadlock.
\<close>

lemma plugin_lock_discipline:
  assumes "handler_reach E s" "handler_step E s s'"
  shows "\<exists>tr. trace s' = trace s @ tr \<and> lock_run tr (0, False) = Some (0, False)"
  using handler_step_locks [OF assms(2) handler_reach_inv [OF assms(1)]]
  by (simp add: extends_def unlocked_neutral_def)

text \<open>
  C8: a datagram from the proxy is never lost in the plugin: as long as an endpoint has a connection
  it has a context, and the datagram is indicated to the driver with the endpoint's own options.
\<close>

theorem received_datagram_indicated:
  assumes "handler_reach E s" "map_of (m_socketMap s) cid = Some pd"
  shows "\<exists>ctx. map_of (m_udpCtxMap s) cid = Some ctx \<and>
    EventHandler_onUdpReceiveComplete E cid buf len ra ralen s =
      Some (unlock_guard E (emit E (Nf (UdpPostReceive cid ra buf len (m_options ctx))) (lock_guard E s)))"
proof -
  have "contexts_cover s" using handler_reach_inv [OF assms(1)] by (simp add: handler_inv_def)
  then obtain ctx where "map_of (m_udpCtxMap s) cid = Some ctx"
    using assms(2) unfolding contexts_cover_def by (metis domD domI subsetD)
  then show ?thesis by (simp add: EventHandler_onUdpReceiveComplete_def)
qed

theorem received_datagram_indicated_witness:
  "\<exists>ctx :: UDPContext. EventHandler_onUdpReceiveComplete handler_env 7 [5] 1 example_address 16 example_proxied =
      Some (unlock_guard handler_env (emit handler_env (Nf (UdpPostReceive 7 example_address [5] 1 (m_options ctx)))
        (lock_guard handler_env example_proxied)))"
proof -
  from example_proxied_connected obtain pd where "map_of (m_socketMap example_proxied) 7 = Some pd" ..
  from received_datagram_indicated [OF example_proxied_reach this,
      where buf = "[5]" and len = 1 and ra = example_address and ralen = 16] show ?thesis by blast
qed

lemma handler_stop_closes:
  assumes "handler_reach E s"
  shows "m_ovDataSet (EventHandler_free E s) = [] \<and> m_socketMap (EventHandler_free E s) = []
    \<and> m_udpCtxMap (EventHandler_free E s) = [] \<and> m_connInfoMap (EventHandler_free E s) = m_connInfoMap s
    \<and> mset (opened_sockets (trace (EventHandler_free E s))) = mset (closed_sockets (trace (EventHandler_free E s)))
    \<and> handler_idle ((EventHandler_free E s)\<lparr>inflight := []\<rparr>)"
proof -
  have inv: "proxy_good s" "handler_own s" using handler_reach_inv [OF assms] by (simp_all add: handler_inv_def)
  then have "mset (opened_sockets (trace (UDPProxy_free E s))) = mset (closed_sockets (trace (UDPProxy_free E s)))"
    by (intro UDPProxy_free_closes) (simp_all add: proxy_good_def)
  then have closed: "mset (opened_sockets (trace (EventHandler_free E s))) = mset (closed_sockets (trace (EventHandler_free E s)))"
    by (simp add: EventHandler_free_fields(7) emit_eq)
  moreover have "length (m_proxyAddress s) = NF_MAX_ADDRESS_LENGTH"
    using inv(1) by (simp add: proxy_good_def proxy_running_def proxy_inv_def)
  ultimately show ?thesis
    using inv(2) by (simp add: EventHandler_free_fields(1-6) handler_idle_def proxy_idle_def handler_own_def)
qed

end
