(* ===== verification/Handler_Events.thy ===== *)
theory Handler_Events
  imports Handler_Safety
begin

text \<open>
  What the driver's events do: the redirection of TCP connections and the SOCKS4 handshake, the
  route of UDP datagrams, and what is logged.
\<close>

section \<open>TCP connections\<close>

text \<open>The application's sends before the proxy has answered, in order.\<close>

fun tcpSends :: "env \<Rightarrow> ENDPOINT_ID \<Rightarrow> bytes list \<Rightarrow> event_handler \<Rightarrow> event_handler option" where
  "tcpSends E cid [] s = Some s"
| "tcpSends E cid (b # bs) s = Option.bind (tcpSend E cid b (int (length b)) s) (tcpSends E cid bs)"

lemma tcpSends_pending:
  assumes "map_of (m_connInfoMap s) cid = Some oci" "length (oci_remoteAddress oci) = NF_MAX_ADDRESS_LENGTH"
    and "sa_family (oci_remoteAddress oci) \<noteq> Some AF_INET6"
    and "sin_addr (oci_remoteAddress oci) = Some ip" "sin_port (oci_remoteAddress oci) = Some port"
  shows "\<exists>t. tcpSends E cid bs s = Some t \<and>
    map fst (trace t) = map fst (trace s)
      @ replicate (length bs) (Nf (TcpPostSend cid (enc_SOCKS4_REQUEST (socks4_connect ip port)) 9)) \<and>
    map_of (m_connInfoMap t) cid = Some (oci\<lparr>pendedSends := pendedSends oci @ concat bs\<rparr>)"
  using assms
proof (induction bs arbitrary: s oci)
  case (Cons b bs)
  let ?oci = "oci\<lparr>pendedSends := pendedSends oci @ b\<rparr>"
  let ?t = "(emit E (Nf (TcpPostSend cid (enc_SOCKS4_REQUEST (socks4_connect ip port)) 9)) s)
        \<lparr>m_connInfoMap := m_insert cid ?oci (m_connInfoMap s)\<rparr>"
  have step: "tcpSend E cid b (int (length b)) s = Some ?t"
    by (rule tcpSend_pending [OF Cons.prems(1-3), of "int (length b)" b E]) (use Cons.prems in simp_all)
  have "map_of (m_connInfoMap ?t) cid = Some ?oci" by simp
  from Cons.IH [OF this] Cons.prems obtain u where
    "tcpSends E cid bs ?t = Some u"
    "map fst (trace u) = map fst (trace ?t)
      @ replicate (length bs) (Nf (TcpPostSend cid (enc_SOCKS4_REQUEST (socks4_connect ip port)) 9))"
    "map_of (m_connInfoMap u) cid = Some (?oci\<lparr>pendedSends := pendedSends ?oci @ concat bs\<rparr>)" by auto
  with step show ?case by (simp add: emit_eq)
qed simp

lemma int_of_size_small: "n < 2 ^ 31 \<Longrightarrow> int_of_size n = int n"
  by (simp add: int_of_size_def signed_of_nat signed_take_bit_int_eq_self)

section \<open>UDP endpoints\<close>

lemma udpSend_unknown:
  assumes "map_of (m_socketMap s) cid = None"
  shows "udpSend E cid buf len ra n s = Some (False, leave_cs E (enter_cs E s))"
  using assms by (simp add: udpSend_def Let_def)

lemma EventHandler_udpSend_bypass:
  assumes "map_of (m_udpCtxMap s) cid = Some ctx" "map_of (m_socketMap s) cid = None" "address_ok ra"
  shows "\<exists>u. EventHandler_udpSend E cid ra buf len opts s = Some u \<and>
    last (map fst (trace u)) = Nf (UdpPostSend cid ra buf len (map_option enc_NF_UDP_OPTIONS opts))"
proof -
  obtain f where "sa_family ra = Some f"
    using assms(3) by (cases "sa_family ra") (auto simp: address_ok_def)
  then show ?thesis
    using assms(1,2) by (simp add: EventHandler_udpSend_def ensure_connection_def udpSend_unknown Let_def emit_eq)
qed

section \<open>Properties\<close>

text \<open>
  C19: a TCP connection is redirected to the proxy and its destination remembered: the driver is given
  back the request with the whole address array of the proxy and the filtering flag added to the
  flags it had, or exactly the request it sent when that already went to the proxy; nothing else of
  the request is changed and the array keeps its size; the original address is stored under the
  connection's identifier with no data waiting, nothing else of the plugin is changed and no call is
  made. A request that was redirected is not changed by a second one.
\<close>

theorem tcp_redirected:
  assumes "handler_reach E s" "tcp_conn_info_ok c"
  shows "\<exists>c' s' sz. tcpConnectRequest cid c s = Some (c', s') \<and> sockaddr_size (ci_remoteAddress c) = Some sz \<and>
    c' = (if take sz (ci_remoteAddress c) = take sz (g_proxyAddress s) then c
      else c\<lparr>ci_remoteAddress := g_proxyAddress s, ci_filteringFlag := ci_filteringFlag c OR flag_value NF_FILTER\<rparr>) \<and>
    length (ci_remoteAddress c') = NF_MAX_ADDRESS_LENGTH \<and>
    map_of (m_connInfoMap s') = (map_of (m_connInfoMap s))(cid \<mapsto> \<lparr>oci_remoteAddress = ci_remoteAddress c, pendedSends = []\<rparr>) \<and>
    s' = s\<lparr>m_connInfoMap := m_connInfoMap s'\<rparr> \<and> map_option fst (tcpConnectRequest cid' c' s') = Some c'"
proof -
  have own: "handler_own s" using handler_reach_inv [OF assms(1)] by (simp add: handler_inv_def)
  have len: "length (ci_remoteAddress c) = NF_MAX_ADDRESS_LENGTH" "length (ci_localAddress c) = NF_MAX_ADDRESS_LENGTH"
    "length (g_proxyAddress s) = NF_MAX_ADDRESS_LENGTH"
    using assms(2) own by (simp_all add: tcp_conn_info_ok_def handler_own_def)
  from len(1) obtain sz where sz: "sockaddr_size (ci_remoteAddress c) = Some sz" by (rule sockaddr_size_total)
  let ?c = "if take sz (ci_remoteAddress c) = take sz (g_proxyAddress s) then c
      else c\<lparr>ci_remoteAddress := g_proxyAddress s, ci_filteringFlag := ci_filteringFlag c OR flag_value NF_FILTER\<rparr>"
  let ?s = "s\<lparr>m_connInfoMap := m_insert cid \<lparr>oci_remoteAddress = ci_remoteAddress c, pendedSends = []\<rparr> (m_connInfoMap s)\<rparr>"
  have "tcpConnectRequest cid c s = Some (?c, ?s)"
    using tcpConnectRequest_eq [OF own assms(2) sz, of cid] by simp
  moreover have "map_option fst (tcpConnectRequest cid' ?c ?s) = Some ?c"
  proof -
    from len(3) obtain n where n: "sockaddr_size (g_proxyAddress s) = Some n" by (rule sockaddr_size_total)
    have "handler_own ?s" by (rule handler_own_connInfo(1) [OF own]) (simp add: len)
    moreover have "tcp_conn_info_ok ?c" using assms(2) len by (simp add: tcp_conn_info_ok_def)
    moreover have "sockaddr_size (ci_remoteAddress ?c) = Some (if ?c = c then sz else n)" using sz n by auto
    ultimately show ?thesis using tcpConnectRequest_eq [of ?s ?c "if ?c = c then sz else n" cid'] by auto
  qed
  ultimately show ?thesis using sz len by (intro exI [of _ ?c] exI [of _ ?s] exI [of _ sz]) simp
qed

definition example_request :: NF_TCP_CONN_INFO where
  "example_request = \<lparr>ci_filteringFlag = 16, ci_processId = 1, ci_direction = 2, ci_ip_family = AF_INET,
     ci_localAddress = replicate 28 0, ci_remoteAddress = mk_sockaddr_in 0x5000 0x8080808 @ replicate 12 0\<rparr>"

lemma example_request_ok: "tcp_conn_info_ok example_request"
  by (simp add: tcp_conn_info_ok_def example_request_def NF_MAX_ADDRESS_LENGTH_def)

theorem tcp_redirected_witness:
  "\<exists>c' s'. tcpConnectRequest 5 example_request example_handler = Some (c', s') \<and>
     map_of (m_connInfoMap s') 5 = Some \<lparr>oci_remoteAddress = ci_remoteAddress example_request, pendedSends = []\<rparr>"
proof -
  from tcp_redirected [OF example_handler_reach example_request_ok, of 5 5] obtain c' s' where
    "tcpConnectRequest 5 example_request example_handler = Some (c', s')"
    "map_of (m_connInfoMap s') = (map_of (m_connInfoMap example_handler))
      (5 \<mapsto> \<lparr>oci_remoteAddress = ci_remoteAddress example_request, pendedSends = []\<rparr>)" by blast
  then show ?thesis by simp
qed

text \<open>
  The SOCKS4 handshake of a redirected IPv4 connection: whatever the application sends before
  the proxy's first answer is held back, in order; the proxy is sent a CONNECT request for the
  original address, once for each of those sends; the first answer is consumed, whatever it says,
  and releases all the held data in one piece; then the connection is no longer tracked.
\<close>

lemma tcp_handshake:
  assumes "handler_reach E s" "map_of (m_connInfoMap s) cid = Some oci" "pendedSends oci = []"
    and "sa_family (oci_remoteAddress oci) \<noteq> Some AF_INET6" "length (concat bs) < 2 ^ 31"
  shows "\<exists>t ip port. tcpSends E cid bs s = Some t \<and>
    sin_addr (oci_remoteAddress oci) = Some ip \<and> sin_port (oci_remoteAddress oci) = Some port \<and>
    map fst (trace (tcpReceive E cid answer len t)) = map fst (trace s)
      @ replicate (length bs) (Nf (TcpPostSend cid (enc_SOCKS4_REQUEST (socks4_connect ip port)) 9))
      @ (if concat bs = [] then [] else [Nf (TcpPostSend cid (concat bs) (int (length (concat bs))))]) \<and>
    map_of (m_connInfoMap (tcpReceive E cid answer len t)) cid = None"
proof -
  have "handler_own s" using handler_reach_inv [OF assms(1)] by (simp add: handler_inv_def)
  from handler_inv_ran [OF this assms(2)] have len: "length (oci_remoteAddress oci) = NF_MAX_ADDRESS_LENGTH" .
  then obtain ip port where a: "sin_addr (oci_remoteAddress oci) = Some ip" "sin_port (oci_remoteAddress oci) = Some port"
    by (cases "sin_addr (oci_remoteAddress oci)"; cases "sin_port (oci_remoteAddress oci)")
      (auto simp: NF_MAX_ADDRESS_LENGTH_def)
  from tcpSends_pending [OF assms(2) len assms(4) a] obtain t where
    t: "tcpSends E cid bs s = Some t" "map fst (trace t) = map fst (trace s)
      @ replicate (length bs) (Nf (TcpPostSend cid (enc_SOCKS4_REQUEST (socks4_connect ip port)) 9))"
    "map_of (m_connInfoMap t) cid = Some (oci\<lparr>pendedSends := concat bs\<rparr>)"
    using assms(3) by auto
  have "map fst (trace (tcpReceive E cid answer len t)) = map fst (trace t)
      @ (if concat bs = [] then [] else [Nf (TcpPostSend cid (concat bs) (int (length (concat bs))))])"
    "map_of (m_connInfoMap (tcpReceive E cid answer len t)) cid = None"
    using t(3) int_of_size_small [OF assms(5)] by (simp_all add: tcpReceive_def Let_def emit_eq del: concat_eq_Nil_conv)
  with t(1,2) a show ?thesis by auto
qed

definition example_tracked :: event_handler where
  "example_tracked = the (handle_event handler_env (EvTcpConnectRequest 5 example_request) example_handler)"

lemma example_tracked_reach: "handler_reach handler_env example_tracked"
  "map_of (m_connInfoMap example_tracked) 5 = Some \<lparr>oci_remoteAddress = ci_remoteAddress example_request, pendedSends = []\<rparr>"
proof -
  have own: "handler_own example_handler" using handler_reach_inv [OF example_handler_reach] by (simp add: handler_inv_def)
  have "length (ci_remoteAddress example_request) = NF_MAX_ADDRESS_LENGTH"
    using example_request_ok by (simp add: tcp_conn_info_ok_def)
  then obtain sz where "sockaddr_size (ci_remoteAddress example_request) = Some sz" by (rule sockaddr_size_total)
  from tcpConnectRequest_eq [OF own example_request_ok this, of 5] have
    t: "handle_event handler_env (EvTcpConnectRequest 5 example_request) example_handler = Some example_tracked"
    "example_tracked = example_handler\<lparr>m_connInfoMap := m_insert 5
      \<lparr>oci_remoteAddress = ci_remoteAddress example_request, pendedSends = []\<rparr> (m_connInfoMap example_handler)\<rparr>"
    by (simp_all add: example_tracked_def)
  show "handler_reach handler_env example_tracked"
    by (rule handler_run [OF example_handler_reach step_event [OF _ t(1)]]) (simp add: example_request_ok)
  show "map_of (m_connInfoMap example_tracked) 5 = Some \<lparr>oci_remoteAddress = ci_remoteAddress example_request, pendedSends = []\<rparr>"
    by (simp add: t(2))
qed

text \<open>
  An IPv6 connection is redirected but never proxied: until the proxy speaks first, everything the
  application sends is dropped; no request goes to the proxy and no data is kept.
\<close>

lemma tcp_ipv6_dropped:
  assumes "map_of (m_connInfoMap s) cid = Some oci" "sa_family (oci_remoteAddress oci) = Some AF_INET6"
  shows "tcpSends E cid bs s = Some s"
  by (induction bs) (use assms in \<open>simp_all add: tcpSend_def\<close>)

text \<open>
  C15: a datagram of an endpoint that has, or now gets, a connection goes to that connection's queue,
  encapsulated for its destination, and to no other.
\<close>

theorem udp_datagram_proxied:
  assumes "fresh_sockets E" "handler_reach E s" "event_ok (EvUdpSend cid ra buf len opts) s" "0 < len"
    and "ensure_connection E cid opts s = Some (True, t)" "map_of (m_socketMap t) cid = Some pd"
    and "EventHandler_udpSend E cid ra buf len opts s = Some s'"
  shows "\<exists>d. udp_datagram ra (take (nat len) buf) = Some d \<and>
    outboxes s' = (outboxes t)(cid \<mapsto> the (outboxes t cid) @ [d])"
proof -
  have ok: "len \<le> int (length buf)" "address_ok ra" "options_ok opts"
    "map_of (m_udpCtxMap s) cid = None \<longrightarrow> cid \<notin> snd ` connects s"
    using assms(3) by simp_all
  note inv = handler_reach_inv [OF assms(2)]
  note t = ensure_connection_queues [OF assms(1) inv handler_reach_own [OF assms(1,2)] ok(4,3) assms(5)]
  obtain f where f: "sa_family ra = Some f"
    using ok(2) by (cases "sa_family ra") (auto simp: address_ok_def)
  note args = address_send_args [OF ok(2,1) f]
  obtain r u where u: "udpSend E cid buf len ra (if f = AF_INET then 16 else 28) t = Some (r, u)"
    and s': "s' = u \<or> s' = emit E (Nf (UdpPostSend cid ra buf len (map_option enc_NF_UDP_OPTIONS opts))) u"
    using assms(5,7) f by (cases "f = AF_INET")
      (auto simp: EventHandler_udpSend_def Let_def bind_eq_Some_conv sizeof_sockaddr_in_def sizeof_sockaddr_in6_def
        split: if_splits)
  obtain ds where ds: "outboxes t cid = Some ds" using assms(6) by (simp add: outboxes_def)
  from udp_datagram_total [of ra "take (nat len) buf"] args(1) assms(4) obtain d where
    d: "udp_datagram ra (take (nat len) buf) = Some d" by (auto simp: send_args_ok_def)
  have "outboxes s' = outboxes u" using s' by (auto simp: emit_outboxes no_datagrams_def sent_step_def)
  with udpSend_queues [OF t(2,3) ok(2,1) f u] ds d assms(4) show ?thesis by (simp add: queued_def)
qed

theorem udp_datagram_proxied_witness:
  "outboxes example_proxied = (outboxes example_ensured)
     (7 \<mapsto> the (outboxes example_ensured 7) @ [[0, 0, 0, 1, 0x7f, 0, 0, 1, 4, 0x38, 1, 2]])"
proof -
  from example_ensured(2) obtain pd where pd: "map_of (m_socketMap example_ensured) 7 = Some pd" ..
  have "udp_datagram example_address (take (nat 2) [1, 2]) = Some [0, 0, 0, 1, 0x7f, 0, 0, 1, 4, 0x38, 1, 2]"
    by code_simp
  with udp_datagram_proxied [OF handler_env_fresh example_handler_reach
      example_datagram_ok [unfolded example_datagram_def] _ example_ensured(1) pd, of example_proxied]
    example_datagram_step show ?thesis
    by (simp add: example_datagram_def)
qed

text \<open>
  C38: when the connection to the proxy could not be established, later datagrams of the endpoint are
  not proxied: they are sent directly to their destination.
\<close>

theorem failed_connect_bypasses_proxy:
  assumes "handler_reach E s" "legal s c" "cq_overlapped c = Some p" "map_of (m_ovDataSet s) p = Some d"
    and "ov_type d = OVT_CONNECT" "\<not> cq_ok c" "cq_error c \<noteq> 0" "map_of (m_udpCtxMap s) (ov_id d) = Some ctx"
    and "worker_body (onComplete E (EventHandler_onUdpReceiveComplete E)) c (deliver c s) = Some t" "address_ok ra"
  shows "\<exists>u. EventHandler_udpSend E (ov_id d) ra buf len opts t = Some u \<and>
    last (map fst (trace u)) = Nf (UdpPostSend (ov_id d) ra buf len (map_option enc_NF_UDP_OPTIONS opts))"
proof -
  have "proxy_running s" "proxy_inv {} s"
    using handler_reach_inv [OF assms(1)] by (simp_all add: handler_inv_def proxy_good_def proxy_running_def)
  from deliver_inv(2) [OF this(2) assms(2,3)] assms(4,5) obtain e where
    e: "map_of (m_ovDataSet (deliver c s)) p = Some e" "ov_type e = OVT_CONNECT" "ov_id e = ov_id d" by auto
  have "onConnectComplete E (cq_socket c) (cq_transferred c) p (cq_error c) (deliver c s) = Some t"
    using assms(2,3,6,9) e by (auto simp: worker_body_def onComplete_def legal_def is_timeout_def)
  then have "t = deleteOV_DATA E p (deleteProxyConnection E (ov_id d) (deliver c s))"
    using e assms(7) by (simp add: onConnectComplete_def)
  then have "map_of (m_socketMap t) (ov_id d) = None" by simp
  moreover have "handler_data t = handler_data s"
    by (rule handler_data_more) (rule more_worker_body [OF handler_receiver_more assms(9)])
  ultimately show ?thesis
    using assms(8,10) by (intro EventHandler_udpSend_bypass) (simp_all add: handler_data_def)
qed

lemma example_proxied_fields:
  "m_ovDataSet example_proxied = [(0, new_OV_DATA\<lparr>ov_type := OVT_CONNECT, ov_id := 7\<rparr>)]"
  "inflight example_proxied = [0]" "m_h example_proxied OBJ_workerThread = 1"
proof -
  let ?c = "createProxyConnection handler_env 7 (lock_guard handler_env example_handler)"
  let ?pd = "new_PROXY_DATA\<lparr>tcpSocket := 3, udpSocket := 4, userPassword := m_userPassword example_handler\<rparr>"
  have "m_ovDataSet (snd ?c) = [(0, new_OV_DATA\<lparr>ov_type := OVT_CONNECT, ov_id := 7\<rparr>)] \<and> inflight (snd ?c) = [0] \<and>
      m_socketMap (snd ?c) = [(7, ?pd\<lparr>userName := []\<rparr>)] \<and> m_h (snd ?c) OBJ_workerThread = 1"
    by (simp add: createProxyConnection_def example_handler_fields sys_def emit_eq
      fresh_env_def example_env_def Let_def INVALID_SOCKET_def registerSocket_def startConnect_def submit_def
      newOV_DATA_def ov_upd_def new_OV_DATA_def)
  then have c: "m_ovDataSet example_ensured = [(0, new_OV_DATA\<lparr>ov_type := OVT_CONNECT, ov_id := 7\<rparr>)]"
    "inflight example_ensured = [0]" "m_socketMap example_ensured = [(7, ?pd\<lparr>userName := []\<rparr>)]"
    "m_h example_ensured OBJ_workerThread = 1"
    using example_create
    by (simp_all add: example_ensured_def ensure_connection_def example_handler_fields split_def Let_def
        UDPContext_ctor_def emit_eq [of _ "Sync x" for x])
  have "send_args_ok [1, 2] 2 example_address 16"
    by (simp add: send_args_ok_def addr_readable_def example_address_def NF_MAX_ADDRESS_LENGTH_def)
  from new_UDP_PACKET_ok [OF this] obtain p where p: "new_UDP_PACKET [1, 2] 2 example_address 16 = Some p" by auto
  let ?u = "leave_cs handler_env (pd_upd 7 (\<lambda>pd. pd\<lparr>udpSendPackets := udpSendPackets pd @ [p]\<rparr>)
      (enter_cs handler_env example_ensured))"
  have "udpSend handler_env 7 [1, 2] 2 example_address 16 example_ensured = Some (True, ?u)"
    using p c(3) by (simp add: udpSend_def new_PROXY_DATA_def Let_def)
  then have "handle_event handler_env example_datagram example_handler = Some ?u"
    using example_ensured(1)
    by (simp add: example_datagram_def EventHandler_udpSend_def Let_def sizeof_sockaddr_in_def example_address_def)
  then have u: "example_proxied = ?u" by (simp add: example_proxied_def)
  show "m_ovDataSet example_proxied = [(0, new_OV_DATA\<lparr>ov_type := OVT_CONNECT, ov_id := 7\<rparr>)]"
    "inflight example_proxied = [0]" "m_h example_proxied OBJ_workerThread = 1"
    unfolding u by (simp_all add: c(1,2,4) pd_upd_def emit_eq [of _ "Sync x" for x] split: option.split)
qed

definition example_refused :: completion where
  "example_refused = \<lparr>cq_ok = False, cq_socket = 3, cq_transferred = 0, cq_overlapped = Some 0,
     cq_error = 1225, cq_data = [], cq_stop = False\<rparr>"

theorem failed_connect_bypasses_proxy_witness:
  "\<exists>t u. worker_body (onComplete handler_env (EventHandler_onUdpReceiveComplete handler_env)) example_refused
      (deliver example_refused example_proxied) = Some t \<and>
    EventHandler_udpSend handler_env 7 example_address [3] 1 None t = Some u \<and>
    last (map fst (trace u)) = Nf (UdpPostSend 7 example_address [3] 1 None)"
proof -
  let ?d = "new_OV_DATA\<lparr>ov_type := OVT_CONNECT, ov_id := 7\<rparr>"
  have legal: "legal example_proxied example_refused"
    by (simp add: legal_def example_refused_def is_timeout_def WAIT_TIMEOUT_def example_proxied_fields)
  moreover have "\<not> port_error example_refused" by (simp add: example_refused_def)
  ultimately obtain t where t: "worker_body (onComplete handler_env (EventHandler_onUdpReceiveComplete handler_env)) example_refused
      (deliver example_refused example_proxied) = Some t"
    using completion_handled [OF handler_reach_inv [OF example_proxied_reach], of example_refused handler_env]
    by (auto simp: event_handled_def)
  from example_proxied_connected handler_reach_inv [OF example_proxied_reach] obtain ctx where
    "map_of (m_udpCtxMap example_proxied) 7 = Some ctx"
    unfolding handler_inv_def contexts_cover_def by (metis domD domI subsetD)
  with failed_connect_bypasses_proxy [OF example_proxied_reach legal _ _ _ _ _ _ t, of 0 ?d ctx example_address "[3]" 1 None] t
  show ?thesis
    by (auto simp: example_proxied_fields example_refused_def address_ok_def example_address_def)
qed

text \<open>
  The log of a UDP endpoint never names its process, whether the platform knows the name or not.
\<close>

lemma udp_log_has_no_process:
  assumes "udp_conn_info_ok c"
  shows "\<exists>l s'. udpCreated E cid c s = Some s' \<and> map fst (trace s') = map fst (trace s)
    @ [Sync (Acquire HandlerLock), DoLog cid P_UDP True l [] (ui_processId c) [], Sync (Release HandlerLock)]"
  using LogUDP_ok [OF assms, of E True cid "lock_guard E s"] by (auto simp: udpCreated_def emit_eq)

end
