(* ===== verification/Udp_Protocol.thy ===== *)
theory Udp_Protocol
  imports Udp_Conversation Handler_Events
begin

text \<open>
  Conformance to SOCKS5 in every reachable state: what the client has said on the TCP connection to
  the proxy is always one of the dialogues that the state of the connection allows, whatever the proxy
  answers, whichever calls fail, and however the completions of different connections are
  interleaved. Messages are counted when the platform accepts them.
\<close>

section \<open>What was said\<close>

text \<open>
  \<open>said_step sk\<close> follows the messages on socket \<open>sk\<close>: the messages accepted since it was opened, and
  one that was refused for the moment, until the error says whether it is pending.
\<close>

fun said_step :: "sock \<Rightarrow> bytes list \<times> bytes option \<Rightarrow> api \<times> u64 \<Rightarrow> bytes list \<times> bytes option" where
  "said_step sk (acc, w) (Net (WSASend sk' b p), r) =
     (if sk' \<noteq> sk then (acc, None) else if r = 0 then (acc @ [b], None) else (acc, Some b))"
| "said_step sk (acc, w) (Net WSAGetLastError, r) =
     (case w of Some b \<Rightarrow> if r = ERROR_IO_PENDING then (acc @ [b], None) else (acc, None) | None \<Rightarrow> (acc, None))"
| "said_step sk (acc, w) (Net (WSASocket ty), r) = (if r = sk then ([], None) else (acc, None))"
| "said_step sk (acc, w) _ = (acc, None)"

definition talk :: "sock \<Rightarrow> trace \<Rightarrow> bytes list \<times> bytes option" where
  "talk sk tr = foldl (said_step sk) ([], None) tr"

definition said :: "sock \<Rightarrow> trace \<Rightarrow> bytes list" where
  "said sk tr = fst (talk sk tr)"

text \<open>The dialogues that a state allows.\<close>

definition dialogues :: "PROXY_DATA \<Rightarrow> bytes list list" where
  "dialogues pd =
     (let requested = [greeting pd, udp_associate_request] #
            (if userName pd = [] then []
             else [[greeting pd, password_request (userName pd) (userPassword pd), udp_associate_request]])
      in case proxyState pd of
           PS_NONE \<Rightarrow> [[]]
         | PS_AUTH \<Rightarrow> [[greeting pd]]
         | PS_AUTH_NEGOTIATION \<Rightarrow>
             (if userName pd = [] then [] else [[greeting pd, password_request (userName pd) (userPassword pd)]])
         | PS_UDP_ASSOC \<Rightarrow> requested
         | PS_CONNECTED \<Rightarrow> requested
         | PS_CLOSED \<Rightarrow> [])"

section \<open>Operations that say nothing\<close>

definition wordless :: "trace \<Rightarrow> bool" where
  "wordless tr \<longleftrightarrow> (\<forall>sk acc. foldl (said_step sk) (acc, None) tr = (acc, None))"

interpretation silent: send_monitor wordless
  by unfold_locales
    (auto simp: wordless_def request_call_def split: api.splits net_call.splits)

lemma wordless_net:
  "(\<And>sk b p. n \<noteq> WSASend sk b p) \<Longrightarrow> (\<And>ty. n \<noteq> WSASocket ty) \<Longrightarrow> wordless [(Net n, r)]"
  by (cases n) (auto simp: wordless_def)

lemma wordless_sync [simp]: "wordless [(Sync y, r)]"
  by (simp add: wordless_def)

lemma no_net_wordless: "no_net tr \<Longrightarrow> wordless tr"
proof (induction tr)
  case (Cons x tr)
  then show ?case by (cases x; cases "fst x") (auto simp: no_net_def wordless_def)
qed (simp add: wordless_def)

lemma silent_sync: "extends wordless s (emit E (Sync y) s)"
  by (simp add: extends_def emit_eq)

text \<open>Between operations no message is in doubt.\<close>

definition decided :: "'a world_scheme \<Rightarrow> bool" where
  "decided s \<longleftrightarrow> (\<forall>sk. snd (talk sk (trace s)) = None)"

lemma silent_talk:
  assumes "extends wordless s t" "decided s"
  shows "decided t" "said sk (trace t) = said sk (trace s)"
proof -
  have "talk k (trace t) = talk k (trace s)" for k
  proof -
    from assms(2) have "snd (talk k (trace s)) = None" by (simp add: decided_def)
    then have eq: "talk k (trace s) = (fst (talk k (trace s)), None)" by (metis prod.collapse)
    from assms(1) obtain tr where "trace t = trace s @ tr" "wordless tr" by (auto simp: extends_def)
    then show ?thesis using eq by (simp add: talk_def wordless_def) metis
  qed
  with assms(2) show "decided t" "said sk (trace t) = said sk (trace s)" by (simp_all add: decided_def said_def)
qed

section \<open>Saying something\<close>

lemma startTcpSend_said:
  fixes s :: "'a udp_proxy_scheme" and E sk msg cid
  assumes "decided s"
  defines "t \<equiv> snd (startTcpSend E sk msg cid s)" and "ok \<equiv> fst (startTcpSend E sk msg cid s)"
  shows "decided t"
    and "said k (trace t) = said k (trace s) @ (if k = sk \<and> ok then [msg] else [])"
    and "m_socketMap t = m_socketMap s"
proof -
  let ?p = "next_ov s"
  define u where "u = (let v = ov_upd ?p (\<lambda>d. d\<lparr>ov_id := cid, ov_type := OVT_TCP_SEND\<rparr>) (snd (newOV_DATA E s))
    in if 0 < length msg then ov_upd ?p (\<lambda>d. d\<lparr>ov_buffer := msg\<rparr>) v else v)"
  let ?sub = "submit E (\<lambda>r. r = 0) (Net (WSASend sk msg ?p)) ?p u"
  have u: "extends wordless s u"
    unfolding u_def Let_def by (auto intro!: silent.ext_fields silent.ext_newOV)
  note u = silent_talk [OF u assms(1)]
  have talk: "talk k (trace (snd ?sub)) = (said k (trace s) @ (if k = sk \<and> fst ?sub then [msg] else []), None)" for k
  proof -
    have "talk k (trace u) = (said k (trace s), None)"
      using u by (simp add: decided_def said_def prod_eq_iff)
    then show ?thesis by (simp add: submit_def sys_def Let_def talk_def)
  qed
  then have v: "decided (snd ?sub)" "\<And>k. said k (trace (snd ?sub)) = said k (trace s) @ (if k = sk \<and> fst ?sub then [msg] else [])"
    by (simp_all add: decided_def said_def)
  have eq: "startTcpSend E sk msg cid s = (if fst ?sub then (True, snd ?sub)
      else (False, post_or_delete E sk ?p (ov_upd ?p (\<lambda>d. d\<lparr>ov_type := OVT_TCP_RECEIVE, ov_buffer := []\<rparr>) (snd ?sub))))"
    by (simp add: startTcpSend_def u_def split_def Let_def)
  have "extends wordless (snd ?sub) (post_or_delete E sk ?p (ov_upd ?p (\<lambda>d. d\<lparr>ov_type := OVT_TCP_RECEIVE, ov_buffer := []\<rparr>) (snd ?sub)))"
    by (intro silent.ext_post_or_delete silent.ext_fields) simp
  note w = silent_talk [OF this v(1)]
  show "decided t" "said k (trace t) = said k (trace s) @ (if k = sk \<and> ok then [msg] else [])"
    unfolding t_def ok_def eq using v w by auto
  show "m_socketMap t = m_socketMap s" by (simp add: t_def)
qed

section \<open>The invariant\<close>

definition talks :: "'a udp_proxy_scheme \<Rightarrow> bool" where
  "talks s \<longleftrightarrow> decided s \<and> (\<forall>c pd. map_of (m_socketMap s) c = Some pd \<longrightarrow>
     tcpSocket pd \<noteq> INVALID_SOCKET \<and> said (tcpSocket pd) (trace s) \<in> set (dialogues pd) \<and>
     (\<forall>c' pd'. map_of (m_socketMap s) c' = Some pd' \<longrightarrow> c \<noteq> c' \<longrightarrow> tcpSocket pd \<noteq> tcpSocket pd'))"

text \<open>Two states of a connection that allow the same dialogues.\<close>

definition talks_like :: "PROXY_DATA \<Rightarrow> PROXY_DATA \<Rightarrow> bool" where
  "talks_like pd pd' \<longleftrightarrow> tcpSocket pd' = tcpSocket pd \<and> dialogues pd' = dialogues pd"

lemma talks_like_refl [simp]: "talks_like pd pd"
  by (simp add: talks_like_def)

lemma talks_silent:
  assumes "talks s" "extends wordless s t"
    and "\<And>c pd'. map_of (m_socketMap t) c = Some pd' \<Longrightarrow> \<exists>pd. map_of (m_socketMap s) c = Some pd \<and> talks_like pd pd'"
  shows "talks t"
proof -
  have d: "decided s" using assms(1) by (simp add: talks_def)
  note quiet = silent_talk [OF assms(2) d]
  show ?thesis
    unfolding talks_def quiet(2)
  proof (intro conjI allI impI)
    show "decided t" by (rule quiet(1))
    fix c pd' assume c: "map_of (m_socketMap t) c = Some pd'"
    then obtain pd where pd: "map_of (m_socketMap s) c = Some pd" "talks_like pd pd'" using assms(3) by blast
    then show "tcpSocket pd' \<noteq> INVALID_SOCKET" "said (tcpSocket pd') (trace s) \<in> set (dialogues pd')"
      using assms(1) by (auto simp: talks_def talks_like_def)
    fix c2 pd2' assume c2: "map_of (m_socketMap t) c2 = Some pd2'" "c \<noteq> c2"
    then obtain pd2 where "map_of (m_socketMap s) c2 = Some pd2" "talks_like pd2 pd2'" using assms(3) by blast
    with pd c2(2) assms(1) show "tcpSocket pd' \<noteq> tcpSocket pd2'" by (auto simp: talks_def talks_like_def)
  qed
qed

lemma talks_same: "talks s \<Longrightarrow> extends wordless s t \<Longrightarrow> m_socketMap t = m_socketMap s \<Longrightarrow> talks t"
  by (rule talks_silent) auto

lemma talks_upd:
  assumes "talks s" "\<And>pd. map_of (m_socketMap s) cid = Some pd \<Longrightarrow> talks_like pd (f pd)"
  shows "talks (pd_upd cid f s)"
proof (cases "map_of (m_socketMap s) cid")
  case None
  then show ?thesis using assms(1) by (simp add: pd_upd_def)
next
  case (Some pd)
  show ?thesis
    by (rule talks_silent [OF assms(1)]) (use assms(2) in \<open>auto simp: pd_upd_find [OF Some] Some split: if_splits\<close>)
qed

text \<open>The next message of a dialogue.\<close>

lemma talks_advance:
  fixes s :: "'a udp_proxy_scheme"
  assumes "talks s" "map_of (m_socketMap s) cid = Some pd"
    and "\<And>said. said \<in> set (dialogues pd) \<Longrightarrow> said @ [msg] \<in> set (dialogues (pd\<lparr>proxyState := st\<rparr>))"
  shows "talks (send_and_advance E cid pd msg st s)"
proof -
  let ?u = "snd (startTcpSend E (tcpSocket pd) msg cid s)" and ?ok = "fst (startTcpSend E (tcpSocket pd) msg cid s)"
  have d: "decided s" using assms(1) by (simp add: talks_def)
  note say = startTcpSend_said [OF d, where E = E and sk = "tcpSocket pd" and msg = msg and cid = cid]
  show ?thesis
  proof (cases ?ok)
    case False
    have "talks ?u" unfolding talks_def say(2,3) using say(1) assms(1) False by (simp add: talks_def)
    with False show ?thesis by (simp add: send_and_advance_def split_def Let_def)
  next
    case True
    let ?t = "set_state cid st ?u"
    have tr: "trace ?t = trace ?u" by (simp add: set_state_def)
    have map: "map_of (m_socketMap ?t) = (map_of (m_socketMap s))(cid \<mapsto> pd\<lparr>proxyState := st\<rparr>)"
      using assms(2) say(3) by (simp add: set_state_def pd_upd_find)
    have "talks ?t"
      unfolding talks_def map
    proof (intro conjI allI impI)
      show "decided ?t" using say(1) by (simp add: decided_def tr)
      fix c q assume c: "((map_of (m_socketMap s))(cid \<mapsto> pd\<lparr>proxyState := st\<rparr>)) c = Some q"
      then obtain q0 where q0: "map_of (m_socketMap s) c = Some q0" "tcpSocket q = tcpSocket q0"
        using assms(2) by (auto split: if_splits)
      then show "tcpSocket q \<noteq> INVALID_SOCKET" using assms(1) by (auto simp: talks_def)
      show "said (tcpSocket q) (trace ?t) \<in> set (dialogues q)"
      proof (cases "c = cid")
        case True
        then show ?thesis using c assms \<open>?ok\<close> by (auto simp: tr say(2) talks_def)
      next
        case False
        with q0 assms(1,2) have "tcpSocket q0 \<noteq> tcpSocket pd" by (auto simp: talks_def)
        then show ?thesis using c False q0 assms(1) by (auto simp: tr say(2) talks_def)
      qed
      fix c2 q2 assume c2: "((map_of (m_socketMap s))(cid \<mapsto> pd\<lparr>proxyState := st\<rparr>)) c2 = Some q2" "c \<noteq> c2"
      then obtain q20 where "map_of (m_socketMap s) c2 = Some q20" "tcpSocket q2 = tcpSocket q20"
        using assms(2) by (auto split: if_splits)
      with q0 c2(2) assms(1) show "tcpSocket q \<noteq> tcpSocket q2" by (auto simp: talks_def)
    qed
    with True show ?thesis by (simp add: send_and_advance_def split_def Let_def)
  qed
qed

section \<open>The operations of the proxy\<close>

lemma greeting_fields [simp]:
  "greeting (pd\<lparr>proxyState := st\<rparr>) = greeting pd" "greeting (pd\<lparr>udpSendPackets := q\<rparr>) = greeting pd"
  "greeting (pd\<lparr>udpRecvStarted := r\<rparr>) = greeting pd" "greeting (pd\<lparr>pd_remoteAddress := a\<rparr>) = greeting pd"
  "greeting (pd\<lparr>pd_remoteAddressLen := n\<rparr>) = greeting pd"
  by (simp_all add: greeting_def)

lemma dialogues_fields [simp]:
  "dialogues (pd\<lparr>udpSendPackets := q\<rparr>) = dialogues pd" "dialogues (pd\<lparr>udpRecvStarted := r\<rparr>) = dialogues pd"
  "dialogues (pd\<lparr>pd_remoteAddress := a\<rparr>) = dialogues pd" "dialogues (pd\<lparr>pd_remoteAddressLen := n\<rparr>) = dialogues pd"
  by (simp_all add: dialogues_def Let_def split: PROXY_STATE.split)

lemma dialogue_greeting:
  "proxyState pd = PS_NONE \<Longrightarrow> msgs \<in> set (dialogues pd) \<Longrightarrow>
   msgs @ [greeting pd] \<in> set (dialogues (pd\<lparr>proxyState := PS_AUTH\<rparr>))"
  by (simp add: dialogues_def Let_def)

lemma dialogue_credentials:
  "proxyState pd = PS_AUTH \<Longrightarrow> userName pd \<noteq> [] \<Longrightarrow> msgs \<in> set (dialogues pd) \<Longrightarrow>
   msgs @ [password_request (userName pd) (userPassword pd)] \<in> set (dialogues (pd\<lparr>proxyState := PS_AUTH_NEGOTIATION\<rparr>))"
  by (simp add: dialogues_def Let_def)

lemma dialogue_request:
  "proxyState pd = PS_AUTH \<or> proxyState pd = PS_AUTH_NEGOTIATION \<Longrightarrow> msgs \<in> set (dialogues pd) \<Longrightarrow>
   msgs @ [udp_associate_request] \<in> set (dialogues (pd\<lparr>proxyState := PS_UDP_ASSOC\<rparr>))"
  by (auto simp: dialogues_def Let_def split: if_splits)

lemma talks_udpSend:
  assumes "udpSend E cid buf len ra ralen s = Some (r, t)" "send_effect cid s t" "talks s"
  shows "talks t"
proof (rule talks_silent [OF assms(3)])
  show "extends wordless s t" by (rule silent.ext_udpSend [OF assms(1)]) simp
  fix c pd' assume "map_of (m_socketMap t) c = Some pd'"
  then show "\<exists>pd. map_of (m_socketMap s) c = Some pd \<and> talks_like pd pd'"
    using assms(2) by (auto simp: send_effect_def talks_like_def split: option.splits if_splits)
qed

lemma flush_talks:
  assumes "flush_packets E cid s = Some t" "proxy_inv H s" "talks s"
    and "map_of (m_socketMap s) cid = Some pd" "proxyState pd = PS_CONNECTED"
  shows "talks t"
proof -
  from flush_packets_ok [OF assms(2,4,5), of E] assms(1) obtain pd' where
    "map_of (m_socketMap t) = (map_of (m_socketMap s))(cid \<mapsto> pd')"
    "pd' \<in> {pd\<lparr>udpSendPackets := []\<rparr>, pd\<lparr>udpSendPackets := [], udpRecvStarted := True\<rparr>}"
    by auto
  then show ?thesis
    by (intro talks_silent [OF assms(3) silent.ext_flush [OF assms(1)]])
      (use assms(4) in \<open>auto simp: talks_like_def split: if_splits\<close>)
qed

lemma tcp_reply_talks:
  assumes "tcp_reply E cid pd n buf s = Some t" "proxy_inv H s" "talks s"
    and pd: "map_of (m_socketMap s) cid = Some pd"
  shows "talks t"
proof (cases "t = s")
  case False
  have advance: "talks (send_and_advance E cid pd msg st s)"
    if "\<And>msgs. msgs \<in> set (dialogues pd) \<Longrightarrow> msgs @ [msg] \<in> set (dialogues (pd\<lparr>proxyState := st\<rparr>))" for msg st
    by (rule talks_advance [OF assms(3) pd that])
  show ?thesis
  proof (cases "proxyState pd = PS_UDP_ASSOC")
    case assoc: True
    let ?f = "\<lambda>a ra pd. pd\<lparr>pd_remoteAddress := ra, pd_remoteAddressLen := int (length (a :: bytes))\<rparr>"
    from assoc False assms(1) obtain a ra where a: "wrn 0 a (pd_remoteAddress pd) = Some ra"
      and run: "flush_packets E cid (set_state cid PS_CONNECTED (pd_upd cid (?f a ra) s)) = Some t"
      by (auto simp: tcp_reply_def reply_udp_assoc_def bind_eq_Some_conv Let_def split: if_splits option.splits)
    let ?u = "pd_upd cid (?f a ra) s" and ?pd = "(?f a ra pd)\<lparr>proxyState := PS_CONNECTED\<rparr>"
    have find: "map_of (m_socketMap ?u) cid = Some (?f a ra pd)"
      "map_of (m_socketMap (set_state cid PS_CONNECTED ?u)) cid = Some ?pd"
      using pd by (simp_all add: set_state_def pd_upd_find)
    have "proxy_inv H ?u"
      using assms(2) by (rule pd_upd_inv) (use a proxy_inv_pd [OF assms(2) pd] in \<open>auto simp: pd_ok_def dest: wrn_length\<close>)
    then have inv: "proxy_inv H (set_state cid PS_CONNECTED ?u)" by (rule set_state_inv)
    have "talks ?u" by (rule talks_upd [OF assms(3)]) (simp add: talks_like_def)
    then have "talks (set_state cid PS_CONNECTED ?u)"
      unfolding set_state_def
      by (rule talks_upd) (use find(1) assoc in \<open>auto simp: talks_like_def dialogues_def Let_def\<close>)
    from flush_talks [OF run inv this find(2)] show ?thesis by simp
  next
    case False
    with \<open>t \<noteq> s\<close> assms(1) have "t = send_and_advance E cid pd (password_request (userName pd) (userPassword pd)) PS_AUTH_NEGOTIATION s \<and>
        proxyState pd = PS_AUTH \<and> userName pd \<noteq> [] \<or>
      t = send_and_advance E cid pd udp_associate_request PS_UDP_ASSOC s \<and>
        (proxyState pd = PS_AUTH \<or> proxyState pd = PS_AUTH_NEGOTIATION)"
      by (cases "proxyState pd")
        (auto simp: tcp_reply_def reply_auth_def reply_auth_negotiation_def bind_eq_Some_conv split: if_splits)
    with advance dialogue_credentials dialogue_request show ?thesis by blast
  qed
qed (use assms(3) in simp)

lemma onTcpReceiveComplete_talks:
  assumes "onTcpReceiveComplete E sk n p err s = Some t" "proxy_inv H s" "talks s"
  shows "talks t"
proof (cases "n = 0")
  case True
  with assms(1) have "t = deleteOV_DATA E p s" by (simp add: onTcpReceiveComplete_def)
  then show ?thesis using talks_same [OF assms(3) silent.ext_deleteOV, of s E p] by simp
next
  case False
  with assms(1) obtain d v i r where
    v: "(case map_of (m_socketMap s) (ov_id (d :: OV_DATA)) of None \<Rightarrow> Some (enter_cs E s)
       | Some pd \<Rightarrow> tcp_reply E (ov_id d) pd n (ov_buffer d) (enter_cs E s)) = Some v"
    and u: "startTcpReceive E sk i (Some p) (leave_cs E v) = Some (r, t)"
    unfolding onTcpReceiveComplete_def Let_def by (simp add: bind_eq_Some_conv split_paired_Ex) blast
  have s: "talks (enter_cs E s)" by (rule talks_same [OF assms(3) silent_sync]) simp
  have "talks v"
  proof (cases "map_of (m_socketMap s) (ov_id d)")
    case (Some pd)
    have "proxy_inv H (enter_cs E s)" "map_of (m_socketMap (enter_cs E s)) (ov_id d) = Some pd"
      using assms Some by simp_all
    from tcp_reply_talks [OF _ this(1) s this(2), of E n "ov_buffer d" v] v Some show ?thesis by simp
  qed (use v s in auto)
  then have "talks (leave_cs E v)" by (rule talks_same [OF _ silent_sync]) simp
  from talks_same [OF this silent.ext_startTcpReceive [OF u] startTcpReceive_map [OF u]] show ?thesis by simp
qed

lemma onConnectComplete_talks:
  assumes "onConnectComplete E sk n p 0 s = Some t" "talks s"
    and none: "\<And>d pd. map_of (m_ovDataSet s) p = Some d \<Longrightarrow> map_of (m_socketMap s) (ov_id d) = Some pd \<Longrightarrow>
      proxyState pd = PS_NONE"
  shows "talks t"
proof -
  have opt: "extends wordless w (emit E (Net (SetSockOpt sk)) w)" for w :: "'a udp_proxy_scheme"
    by (rule silent.ext_emit) simp_all
  have del: "talks (leave_cs E (deleteOV_DATA E p w))" if "talks w" for w :: "'a udp_proxy_scheme"
  proof -
    have "talks (deleteOV_DATA E p w)" using talks_same [OF that silent.ext_deleteOV, of w E p] by simp
    then show ?thesis by (rule talks_same [OF _ silent_sync]) simp
  qed
  have s: "talks (enter_cs E s)" by (rule talks_same [OF assms(2) silent_sync]) simp
  from assms(1) obtain d where d: "map_of (m_ovDataSet s) p = Some d"
    by (auto simp: onConnectComplete_def bind_eq_Some_conv)
  show ?thesis
  proof (cases "map_of (m_socketMap s) (ov_id d)")
    case None
    with assms(1) d have "t = leave_cs E (deleteOV_DATA E p (enter_cs E s))" by (simp add: onConnectComplete_def Let_def)
    with del [OF s] show ?thesis by simp
  next
    case (Some pd)
    let ?v = "emit E (Net (SetSockOpt sk)) (emit E (Net (SetSockOpt sk)) (enter_cs E s))"
    let ?w = "send_and_advance E (ov_id d) pd (greeting pd) PS_AUTH ?v"
    from Some assms d obtain r u where u: "startTcpReceive E (tcpSocket pd) (ov_id d) None ?w = Some (r, u)"
      and t: "t = leave_cs E (deleteOV_DATA E p u)"
      by (auto simp: onConnectComplete_def Let_def bind_eq_Some_conv)
    have "talks (emit E (Net (SetSockOpt sk)) (enter_cs E s))" by (rule talks_same [OF s opt]) simp
    then have v: "talks ?v" by (rule talks_same [OF _ opt]) simp
    have "map_of (m_socketMap ?v) (ov_id d) = Some pd" using Some by simp
    from talks_advance [OF v this dialogue_greeting [OF none [OF d Some]]] have "talks ?w" .
    from talks_same [OF this silent.ext_startTcpReceive [OF u] startTcpReceive_map [OF u]] del t show ?thesis by simp
  qed
qed

lemma ext_net: "extends wordless s t \<Longrightarrow> wordless [(c, os E (trace t) c)] \<Longrightarrow> extends wordless s (emit E c t)"
  by (rule silent.ext_call [of c]) (simp_all add: emit_eq)

lemma deleteProxyConnection_talks: "talks s \<Longrightarrow> talks (deleteProxyConnection E cid s)"
proof (erule talks_silent)
  have "extends wordless u (delete_PROXY_DATA E pd u)" for pd and u :: "'a udp_proxy_scheme"
    by (simp add: delete_PROXY_DATA_def Let_def ext_net wordless_net)
  then show "extends wordless s (deleteProxyConnection E cid s)"
    unfolding deleteProxyConnection_def Let_def
    by (intro silent.ext_section) (auto split: option.split intro!: silent.ext_fields)
qed (auto split: if_splits)

lemma onUdpReceiveComplete_talks:
  assumes "onUdpReceiveComplete E recv sk n p err s = Some t" "receiver_ok recv" "receiver_calls wordless recv" "talks s"
  shows "talks t"
proof (rule talks_same [OF assms(4)])
  show "extends wordless s t"
    by (rule silent.ext_onUdpReceiveComplete [OF assms(1)])
      (use assms(3) silent.good_append in \<open>auto simp: receiver_calls_def\<close>)
  show "m_socketMap t = m_socketMap s"
    using assms(1) by (auto simp: onUdpReceiveComplete_def Let_def bind_eq_Some_conv split: if_splits
        dest!: startUdpReceive_map receiver_map [OF assms(2)])
qed

lemma onComplete_talks:
  assumes "onComplete E recv sk n (Some p) err s = Some t" "proxy_inv H s" "connects_once s" "talks s"
    and recv: "receiver_ok recv" "receiver_calls wordless recv"
  shows "talks t"
proof -
  from assms(1) obtain d where d: "map_of (m_ovDataSet s) p = Some d"
    by (auto simp: onComplete_def bind_eq_Some_conv)
  have del: "talks (deleteOV_DATA E p u)" if "talks u" for u :: "'a udp_proxy_scheme"
    using talks_same [OF that silent.ext_deleteOV, of u E p] by simp
  show ?thesis
  proof (cases "ov_type d")
    case OVT_CONNECT
    show ?thesis
    proof (cases "err = 0")
      case True
      then have "onConnectComplete E sk n p 0 s = Some t"
        using OVT_CONNECT assms(1) d by (simp add: onComplete_def)
      then show ?thesis using assms(4)
        by (rule onConnectComplete_talks) (use assms(3) d OVT_CONNECT in \<open>auto simp: connects_once_def connects_def\<close>)
    next
      case False
      then have "t = deleteOV_DATA E p (deleteProxyConnection E (ov_id d) s)"
        using OVT_CONNECT assms(1) d by (simp add: onComplete_def onConnectComplete_def)
      with del [OF deleteProxyConnection_talks [OF assms(4)]] show ?thesis by simp
    qed
  next
    case OVT_UDP_RECEIVE
    with assms(1) d onUdpReceiveComplete_talks [OF _ recv assms(4)] show ?thesis by (simp add: onComplete_def)
  next
    case OVT_TCP_RECEIVE
    with assms(1) d onTcpReceiveComplete_talks [OF _ assms(2,4)] show ?thesis by (simp add: onComplete_def)
  qed (use assms(1,4) d del in \<open>auto simp: onComplete_def onTcpSendComplete_def onUdpSendComplete_def\<close>)
qed

section \<open>A new connection\<close>

lemma socket_said:
  fixes s :: "'a world_scheme" and E ty
  assumes "decided s"
  defines "t \<equiv> snd (sys E (Net (WSASocket ty)) s)"
  shows "decided t" "said k (trace t) = (if os E (trace s) (Net (WSASocket ty)) = k then [] else said k (trace s))"
proof -
  have "talk k (trace t) = (if os E (trace s) (Net (WSASocket ty)) = k then [] else said k (trace s), None)" for k
    by (cases "talk k (trace s)") (simp add: t_def sys_snd talk_def said_def)
  then show "decided t" "said k (trace t) = (if os E (trace s) (Net (WSASocket ty)) = k then [] else said k (trace s))"
    by (simp_all add: decided_def said_def)
qed

lemma fresh_other_tcp:
  assumes "fresh_sockets E" "map_of (m_socketMap s) c = Some pd" "tcpSocket pd \<noteq> INVALID_SOCKET"
    and "held_sockets s \<subseteq># mset (opened_sockets tr) - mset (closed_sockets tr)"
  shows "os E tr (Net (WSASocket ty)) \<noteq> tcpSocket pd"
proof -
  have "held_sockets s = held_sockets (s\<lparr>m_socketMap := m_erase c (m_socketMap s)\<rparr>) + conn_sockets pd"
    using held_erase [of "s\<lparr>m_socketMap := m_erase c (m_socketMap s)\<rparr>" s c] assms(2) by simp
  then have "tcpSocket pd \<in># held_sockets s" using assms(3) by (simp add: conn_sockets_def)
  from mset_subset_eqD [OF assms(4) this] assms(1,3) show ?thesis
    unfolding fresh_sockets_def Let_def by metis
qed

lemma socket_talks:
  assumes "fresh_sockets E" "talks s"
    and held: "held_sockets s \<subseteq># mset (opened_sockets (trace s)) - mset (closed_sockets (trace s))"
  shows "talks (snd (sys E (Net (WSASocket ty)) s))"
proof -
  have d: "decided s" using assms(2) by (simp add: talks_def)
  note new = socket_said [OF d, where E = E and ty = ty]
  have map: "m_socketMap (snd (sys E (Net (WSASocket ty)) s)) = m_socketMap s" by simp
  show ?thesis
    unfolding talks_def map new(2)
    using new(1) assms(2) fresh_other_tcp [OF assms(1) _ _ held, of _ _ ty] by (auto simp: talks_def)
qed

lemma connection_start_silent: "extends wordless t (snd (connection_start E cid tcp udp t))"
proof -
  have reg: "extends wordless t (snd (registerSocket E sk u))" if "extends wordless t u"
    for sk and u :: "'a udp_proxy_scheme"
    using ext_net [OF that, of "Net (CreateIoCompletionPort sk (m_hIOCP u) sk)" E]
    by (simp add: registerSocket_def emit_def split_def Let_def wordless_net)
  show ?thesis by (simp add: connection_start_def split_def Let_def reg silent.ext_startConnect)
qed

lemma createProxyConnection_talks:
  assumes "fresh_sockets E" "sockets_balanced s" "talks s" "map_of (m_socketMap s) cid = None"
  shows "talks (snd (createProxyConnection E cid s))"
proof -
  let ?t1 = "snd (sys E (Net (WSASocket SOCK_STREAM)) s)"
  let ?tcp = "fst (sys E (Net (WSASocket SOCK_STREAM)) s)"
  let ?t2 = "snd (sys E (Net (WSASocket SOCK_DGRAM)) ?t1)"
  let ?udp = "fst (sys E (Net (WSASocket SOCK_DGRAM)) ?t1)"
  let ?fc = "fresh_connection E s"
  let ?t3 = "leave_cs E ((enter_cs E ?t2)\<lparr>m_socketMap := m_insert cid ?fc (m_socketMap s)\<rparr>)"
  let ?t4 = "connection_start E cid ?tcp ?udp ?t3"
  have open1: "held_sockets s \<subseteq># mset (opened_sockets (trace s)) - mset (closed_sockets (trace s))"
    using assms(2) by (simp add: sockets_balanced_def)
  have open2: "held_sockets ?t1 \<subseteq># mset (opened_sockets (trace ?t1)) - mset (closed_sockets (trace ?t1))"
    using assms(2) by (simp add: sys_snd sockets_balanced_def held_sockets_def)
  have t1: "talks ?t1" by (rule socket_talks [OF assms(1,3) open1])
  have t2: "talks ?t2" by (rule socket_talks [OF assms(1) t1 open2])
  have fc: "tcpSocket ?fc = ?tcp" "dialogues ?fc = [[]]"
    by (simp_all add: fresh_connection_def dialogues_def new_PROXY_DATA_def split_def Let_def)
  have new: "said ?tcp (trace ?t2) = []"
    using socket_said(2) [of s ?tcp E SOCK_STREAM] socket_said(2) [of ?t1 ?tcp E SOCK_DGRAM] assms(3) t1
    by (simp add: talks_def)
  have others: "tcpSocket pd \<noteq> ?tcp" if "map_of (m_socketMap s) c = Some pd" for c pd
    using fresh_other_tcp [OF assms(1) that _ open1, of SOCK_STREAM] that assms(3) by (auto simp: talks_def)
  have t3: "talks ?t3" if "?tcp \<noteq> INVALID_SOCKET"
  proof -
    have "extends wordless ?t2 ?t3"
      by (rule silent.ext_section [where t = ?t2]) simp_all
    note quiet = silent_talk [OF this]
    have d: "decided ?t2" using t2 by (simp add: talks_def)
    have map: "map_of (m_socketMap ?t3) = (map_of (m_socketMap s))(cid \<mapsto> ?fc)" by simp
    show ?thesis
      unfolding talks_def map quiet(2) [OF d]
      using quiet(1) [OF d] t2 that new others others [symmetric] fc by (auto simp: talks_def)
  qed
  have t4: "talks (snd ?t4)" if "?tcp \<noteq> INVALID_SOCKET"
    by (rule talks_same [OF t3 [OF that] connection_start_silent connection_start_map])
  have close: "talks (emit E (Net (Closesocket ?tcp)) ?t2)"
    by (rule talks_same [OF t2 ext_net]) (simp_all add: wordless_net)
  have "talks (deleteProxyConnection E cid (snd ?t4))" if "?tcp \<noteq> INVALID_SOCKET"
    by (rule deleteProxyConnection_talks [OF t4 [OF that]])
  with t1 close t4 show ?thesis
    unfolding createProxyConnection_cases by simp
qed

section \<open>Reachable states\<close>

lemma proxy_step_talks:
  assumes recv: "receiver_ok recv" "receiver_calls wordless recv" and "fresh_sockets E"
    and inv: "proxy_running s" "connects_once s" "sockets_balanced s" "talks s"
    and step: "proxy_step E recv s s'"
  shows "talks s'"
  using step
proof cases
  case (step_complete c)
  show ?thesis
  proof (cases "cq_overlapped c")
    case None
    with timeout_noop [OF step_complete(1) _ step_complete(2)] inv(4) show ?thesis by simp
  next
    case (Some p)
    have "proxy_inv {} s" using inv(1) by (simp add: proxy_running_def)
    note del = deliver_inv(1) [OF this step_complete(1) Some]
    from legal_object [OF inv(1) step_complete(1) Some] obtain d where
      r: "onComplete E recv (cq_socket c) (cq_transferred c) (Some p) (if cq_ok c then 0 else cq_error c)
        (deliver c s) = Some s'" using step_complete(2) by metis
    have "connects_once (deliver c s)" using inv(2) by (simp add: connects_once_def connects_deliver)
    moreover have "talks (deliver c s)" by (rule talks_same [OF inv(4)]) simp_all
    ultimately show ?thesis by (rule onComplete_talks [OF r del _ _ recv])
  qed
next
  case (step_send buf len ra ralen cid r)
  have "proxy_inv {} s" using inv(1) by (simp add: proxy_running_def)
  from udpSend_ok [OF this step_send(1) udpSend_sendable [OF step_send(2)], of E] step_send(2) have "send_effect cid s s'" by auto
  from talks_udpSend [OF step_send(2) this inv(4)] show ?thesis .
next
  case (step_create cid)
  then show ?thesis using createProxyConnection_talks [OF assms(3) inv(3,4)] by (simp add: unused_id_def)
next
  case (step_delete cid)
  then show ?thesis using deleteProxyConnection_talks [OF inv(4)] by simp
qed

lemma handler_receiver_wordless: "receiver_calls wordless (EventHandler_onUdpReceiveComplete E)"
  using handler_receiver_aside [of E] no_net_wordless
  by (auto simp: receiver_calls_def aside_def extends_def) blast

lemma aside_talks:
  assumes "aside s t" "talks s" shows "talks t"
proof (rule talks_same [OF assms(2)])
  show "extends wordless s t" using assms(1) no_net_wordless by (auto simp: aside_def extends_def)
  show "m_socketMap t = m_socketMap s" using aside_map [OF assms(1)] by simp
qed

lemma moves_talk:
  assumes "fresh_sockets E" "proxy_moves E s t" "proxy_good s" "talks s"
  shows "talks t"
  using assms(2)
proof (induction rule: rtranclp_induct)
  case base
  show ?case by (rule assms(4))
next
  case (step t u)
  have good: "proxy_running t" "connects_once t" "sockets_balanced t"
    using moves_good [OF step(1) assms(3)] by (simp_all add: proxy_good_def)
  show ?case
  proof (cases "aside t u")
    case True
    then show ?thesis by (rule aside_talks [OF _ step(3)])
  next
    case False
    with step(2) have "proxy_step E (EventHandler_onUdpReceiveComplete E) t u" by (simp add: proxy_move_def)
    from proxy_step_talks [OF handler_receiver handler_receiver_wordless assms(1) good step(3) this] show ?thesis .
  qed
qed

lemma sync_step: "snd (said_step sk st (Sync y, r)) = None"
  by (cases st) simp

lemma init_talks:
  assumes "UDPProxy_init E a n user pass s = Some (True, t)" "m_socketMap t = []" shows "talks t"
proof -
  from assms(1) have "trace t = trace (snd (IOCPService_init E (snd (initExtensions E s))))"
    and "fst (IOCPService_init E (snd (initExtensions E s)))"
    by (auto simp: UDPProxy_init_def split_def Let_def bind_eq_Some_conv split: if_splits)
  then obtain tr r where "trace t = tr @ [(Sync BeginThread, r)]"
    by (auto simp: IOCPService_init_def split_def Let_def sys_snd emit_eq Attach_def split: if_splits)
  then have "decided t" by (simp add: decided_def talk_def sync_step)
  then show ?thesis using assms(2) by (simp add: talks_def)
qed

lemma proxy_reach_talks:
  assumes "receiver_ok recv" "receiver_calls no_sockets recv" "receiver_calls wordless recv"
    and "fresh_sockets E" "proxy_reach E recv s"
  shows "talks s"
  using assms(5)
proof induction
  case (reach_init s n a user pass s')
  from UDPProxy_init_ok [OF reach_init(1-4), of E user pass] reach_init(5) have "m_socketMap s' = []" by auto
  with init_talks [OF reach_init(5)] show ?case by simp
next
  case (reach_step s s')
  from proxy_step_talks [OF assms(1,3,4) proxy_reach_inv [OF assms(1) reach_step(1)]
      proxy_reach_sockets [OF assms(1,2) reach_step(1)] reach_step(3,2)]
  show ?case .
qed

lemma handler_reach_talks:
  assumes "fresh_sockets E" "handler_reach E s" shows "talks s"
proof -
  from handler_reach_proxy [OF assms(2)] obtain s0 where
    s0: "proxy_reach E (EventHandler_onUdpReceiveComplete E) s0" "proxy_moves E s0 s" by blast
  have "proxy_good s0"
    using proxy_reach_inv [OF handler_receiver s0(1)]
      proxy_reach_sockets [OF handler_receiver handler_receiver_calls(1) s0(1)] by (simp add: proxy_good_def)
  from moves_talk [OF assms(1) s0(2) this
      proxy_reach_talks [OF handler_receiver handler_receiver_calls(1) handler_receiver_wordless assms(1) s0(1)]]
  show ?thesis .
qed

section \<open>Properties\<close>

text \<open>
  C4: the client keeps to the protocol. In every reachable state of the plugin the messages that the
  platform has accepted on a connection's TCP socket since it was opened are one of the dialogues
  its state allows: nothing before the connection is made, then the greeting, then the credentials
  (only when there is a user name), then one association request and nothing after it. No two
  connections share a TCP socket, and no connection is in the state \<open>PS_CLOSED\<close>.
\<close>

theorem socks5_conformance:
  assumes "fresh_sockets E" "handler_reach E s" "map_of (m_socketMap s) cid = Some pd"
  shows "said (tcpSocket pd) (trace s) \<in> set (dialogues pd) \<and> proxyState pd \<noteq> PS_CLOSED \<and>
    (\<forall>cid' pd'. map_of (m_socketMap s) cid' = Some pd' \<longrightarrow> tcpSocket pd' = tcpSocket pd \<longrightarrow> cid' = cid)"
proof -
  have "talks s" by (rule handler_reach_talks [OF assms(1,2)])
  then have said: "said (tcpSocket pd) (trace s) \<in> set (dialogues pd)"
    and own: "\<And>cid' pd'. map_of (m_socketMap s) cid' = Some pd' \<Longrightarrow> cid \<noteq> cid' \<Longrightarrow> tcpSocket pd \<noteq> tcpSocket pd'"
    using assms(3) unfolding talks_def by blast+
  from said have "proxyState pd \<noteq> PS_CLOSED" by (auto simp: dialogues_def Let_def)
  with said own show ?thesis by fastforce
qed

theorem socks5_conformance_witness:
  "\<exists>t pd. worker_body (onComplete handler_env (EventHandler_onUdpReceiveComplete handler_env)) example_connected
       (deliver example_connected example_proxied) = Some t \<and>
     map_of (m_socketMap t) 7 = Some pd \<and> proxyState pd = PS_AUTH \<and> said (tcpSocket pd) (trace t) = [greeting pd]"
proof -
  have legal: "legal example_proxied example_connected"
    by (simp add: legal_def example_connected_def is_timeout_def example_proxied_fields)
  have c: "cq_ok example_connected" "cq_overlapped example_connected = Some 0"
    and d: "map_of (m_ovDataSet example_proxied) 0 = Some (new_OV_DATA\<lparr>ov_type := OVT_CONNECT, ov_id := 7\<rparr>)"
    by (simp_all add: example_connected_def example_proxied_fields)
  have accepts: "accepts_tcp handler_env" using fresh_env_accepts by (simp add: accepts_tcp_def)
  from example_proxied_connected obtain pd where pd: "map_of (m_socketMap example_proxied) 7 = Some pd" ..
  have "proxy_inv {} example_proxied"
    using handler_reach_inv [OF example_proxied_reach] by (simp add: handler_inv_def proxy_good_def proxy_running_def)
  from connect_handled [OF accepts this legal c d _ _ pd, of "EventHandler_onUdpReceiveComplete handler_env"] obtain t where
    t: "worker_body (onComplete handler_env (EventHandler_onUdpReceiveComplete handler_env)) example_connected
       (deliver example_connected example_proxied) = Some t" "map_of (m_socketMap t) 7 = Some (pd\<lparr>proxyState := PS_AUTH\<rparr>)"
    by fastforce
  from handler_run [OF example_proxied_reach step_completion [OF legal t(1)]]
  have "handler_reach handler_env t" .
  from socks5_conformance [OF handler_env_fresh this t(2)]
  have "said (tcpSocket pd) (trace t) = [greeting pd]" by (simp add: dialogues_def Let_def)
  with t show ?thesis by (intro exI [of _ t] exI [of _ "pd\<lparr>proxyState := PS_AUTH\<rparr>"]) simp
qed

end
