(* ===== verification/Socks_Bytes.thy ===== *)
theory Socks_Bytes
  imports Event_Handler
begin

text \<open>
  The messages of the program byte by byte, as the SOCKS protocols write them (RFC 1928 and the SOCKS4
  memo), and the addresses inside them as they stand in the \<open>sockaddr\<close> structures they are copied from
  and to: the properties of this theory mention no structure of \<open>Socks\<close>.
\<close>

section \<open>Multi-byte fields are copied, not converted\<close>

named_theorems byte_simps \<open>the bytes of messages and addresses\<close>

lemma of_le_bytes [byte_simps]: "le16 (of_le16 a b) = [a, b]" "le32 (of_le32 a b c d) = [a, b, c, d]"
  by (rule of_le16_inv, rule of_le32_inv)

lemma le_literals [byte_simps]: "le16 0 = [0, 0]" "le32 0 = [0, 0, 0, 0]"
    "le16 AF_INET = [2, 0]" "le16 AF_INET6 = [23, 0]" "of_le16 2 0 = AF_INET" "of_le16 23 0 = AF_INET6"
  by code_simp+

lemma sockaddr_bytes [byte_simps]:
  "sa_family ([x, y, p1, p2, a1, a2, a3, a4] @ pad) = Some (of_le16 x y)"
  "sin_port ([x, y, p1, p2, a1, a2, a3, a4] @ pad) = Some (of_le16 p1 p2)"
  "sin_addr ([x, y, p1, p2, a1, a2, a3, a4] @ pad) = Some (of_le32 a1 a2 a3 a4)"
  by (simp_all add: sa_family_def sin_port_def sin_addr_def rd16_def rd32_def eval_nat_numeral)

lemma sockaddr6_bytes [byte_simps]:
  assumes "length flow = 4" "length a6 = 16"
  shows "sa_family ([x, y, p1, p2] @ flow @ a6 @ scope) = Some (of_le16 x y)"
    and "sin_port ([x, y, p1, p2] @ flow @ a6 @ scope) = Some (of_le16 p1 p2)"
    and "sin6_addr ([x, y, p1, p2] @ flow @ a6 @ scope) = Some a6"
  using assms by (simp_all add: sa_family_def sin_port_def sin6_addr_def rd16_def rdn_def numeral_eq_Suc)

lemma families_differ [simp]: "AF_INET \<noteq> AF_INET6" "AF_INET6 \<noteq> AF_INET"
    "SOCKS5_ADDR_IPV4 \<noteq> SOCKS5_ADDR_IPV6" "SOCKS5_ADDR_IPV6 \<noteq> SOCKS5_ADDR_IPV4"
  by (simp_all add: AF_INET_def AF_INET6_def SOCKS5_ADDR_IPV4_def SOCKS5_ADDR_IPV6_def)

section \<open>Messages of the client\<close>

lemma greeting_bytes: "greeting pd = [5, 1, if userName pd = [] then 0 else 2]"
  by (simp add: greeting_def enc_SOCKS5_AUTH_REQUEST_def socks_consts)

lemma udp_associate_bytes: "udp_associate_request = [5, 3, 0, 1, 0, 0, 0, 0, 0, 0]"
  by (simp add: udp_associate_request_def enc_SOCKS5_REQUEST_IPv4_def socks_consts byte_simps)

lemma udp_datagram_bytes:
  "udp_datagram ([2, 0, p1, p2, a1, a2, a3, a4] @ pad) payload =
     Some ([0, 0, 0, 1, a1, a2, a3, a4, p1, p2] @ payload)"
  by (simp only: udp_datagram_def byte_simps bind.bind_lunit if_True enc_SOCKS5_UDP_REQUEST_IPv4_def)
    (simp add: byte_simps SOCKS5_ADDR_IPV4_def)

lemma udp_datagram6_bytes:
  assumes "length flow = 4" "length a6 = 16"
  shows "udp_datagram ([23, 0, p1, p2] @ flow @ a6 @ scope) payload =
    Some ([0, 0, 0, 4] @ a6 @ [p1, p2] @ payload)"
  by (simp only: udp_datagram_def sockaddr6_bytes [OF assms] byte_simps bind.bind_lunit families_differ if_False
      enc_SOCKS5_UDP_REQUEST_IPv6_def) (simp add: byte_simps SOCKS5_ADDR_IPV6_def)

lemma socks4_bytes:
  "enc_SOCKS4_REQUEST (socks4_connect (of_le32 a1 a2 a3 a4) (of_le16 p1 p2)) = [4, 1, p1, p2, a1, a2, a3, a4, 0]"
  by (simp add: socks4_connect_def enc_SOCKS4_REQUEST_def socks_consts byte_simps)

section \<open>Answers of the proxy\<close>

lemma relay_bytes:
  "relay_address ([x, y, q1, q2, a1, a2, a3, a4] @ pad) ([5, 0, 0, 1, b1, b2, b3, b4, p1, p2] @ rest) 1 =
     Some (Some ([2, 0, p1, p2, a1, a2, a3, a4] @ replicate 8 0))"
proof -
  have "\<exists>r. dec_SOCKS5_RESPONSE_IPv4 ([5, 0, 0, 1, b1, b2, b3, b4, p1, p2] @ rest) = Some r \<and> s5r4_port r = of_le16 p1 p2"
    by (simp add: dec_SOCKS5_RESPONSE_IPv4_def rd8_def rd16_def rd32_def eval_nat_numeral)
  then obtain r where "dec_SOCKS5_RESPONSE_IPv4 ([5, 0, 0, 1, b1, b2, b3, b4, p1, p2] @ rest) = Some r" "s5r4_port r = of_le16 p1 p2"
    by blast
  then have "relay_address ([x, y, q1, q2, a1, a2, a3, a4] @ pad) ([5, 0, 0, 1, b1, b2, b3, b4, p1, p2] @ rest) SOCKS5_ADDR_IPV4 =
      Some (Some (mk_sockaddr_in (of_le16 p1 p2) (of_le32 a1 a2 a3 a4)))"
    by (simp only: relay_address_def sockaddr_bytes simp_thms if_True bind.bind_lunit)
  then show ?thesis by (simp add: mk_sockaddr_in_def byte_simps SOCKS5_ADDR_IPV4_def)
qed

lemma relay6_bytes:
  assumes "length flow = 4" "length a6 = 16" "length b6 = 16"
  shows "relay_address ([x, y, q1, q2] @ flow @ a6 @ scope) ([5, 0, 0, 4] @ b6 @ [p1, p2] @ rest) 4 =
    Some (Some ([23, 0, p1, p2, 0, 0, 0, 0] @ a6 @ [0, 0, 0, 0]))"
proof -
  have "\<exists>r. dec_SOCKS5_RESPONSE_IPv6 ([5, 0, 0, 4] @ b6 @ [p1, p2] @ rest) = Some r \<and> s5r6_port r = of_le16 p1 p2"
    using assms(3) by (simp add: dec_SOCKS5_RESPONSE_IPv6_def rd8_def rd16_def rdn_def nth_append numeral_eq_Suc)
  then obtain r where "dec_SOCKS5_RESPONSE_IPv6 ([5, 0, 0, 4] @ b6 @ [p1, p2] @ rest) = Some r" "s5r6_port r = of_le16 p1 p2"
    by blast
  then have "relay_address ([x, y, q1, q2] @ flow @ a6 @ scope) ([5, 0, 0, 4] @ b6 @ [p1, p2] @ rest) SOCKS5_ADDR_IPV6 =
      Some (Some (mk_sockaddr_in6 (of_le16 p1 p2) a6))"
    by (simp only: relay_address_def sockaddr6_bytes [OF assms(1,2)] families_differ simp_thms if_False if_True bind.bind_lunit)
  then show ?thesis by (simp add: mk_sockaddr_in6_def byte_simps SOCKS5_ADDR_IPV6_def numeral_eq_Suc)
qed

lemma header_bytes:
  "\<exists>r. dec_SOCKS5_UDP_REQUEST_IPv4 ([r1, r2, frag, 1, a1, a2, a3, a4, p1, p2] @ rest) = Some r \<and>
     s5u4_address_type r = SOCKS5_ADDR_IPV4 \<and> s5u4_port r = of_le16 p1 p2 \<and> s5u4_address r = of_le32 a1 a2 a3 a4"
  by (simp add: dec_SOCKS5_UDP_REQUEST_IPv4_def rd8_def rd16_def rd32_def SOCKS5_ADDR_IPV4_def eval_nat_numeral)

lemma header6_bytes:
  "length a6 = 16 \<Longrightarrow> \<exists>r. dec_SOCKS5_UDP_REQUEST_IPv6 ([r1, r2, frag, 4] @ a6 @ [p1, p2] @ rest) = Some r \<and>
     s5u6_address_type r = SOCKS5_ADDR_IPV6 \<and> s5u6_port r = of_le16 p1 p2 \<and> s5u6_address r = a6"
  by (simp add: dec_SOCKS5_UDP_REQUEST_IPv6_def rd8_def rd16_def rdn_def SOCKS5_ADDR_IPV6_def nth_append numeral_eq_Suc)

section \<open>Properties\<close>

text \<open>
  C12: the bytes on the wire are those of the protocols: the greeting, the association request, the UDP
  header before a payload for both address families, and the SOCKS4 request that \<open>tcpSend\<close> posts before it
  keeps the data; addresses and ports stand there as they stand in the \<open>sockaddr\<close> of the destination. From
  an accepting answer the relay's port is taken, and the address is that of the proxy.
\<close>

theorem messages_on_the_wire:
  assumes "length flow = 4" "length a6 = 16" "length b6 = 16"
    and "map_of (m_connInfoMap s) cid = Some \<lparr>oci_remoteAddress = [2, 0, p1, p2, a1, a2, a3, a4] @ pad, pendedSends = held\<rparr>"
  shows "greeting pd = [5, 1, if userName pd = [] then 0 else 2]
    \<and> udp_associate_request = [5, 3, 0, 1, 0, 0, 0, 0, 0, 0]
    \<and> udp_datagram ([2, 0, p1, p2, a1, a2, a3, a4] @ pad) payload =
        Some ([0, 0, 0, 1, a1, a2, a3, a4, p1, p2] @ payload)
    \<and> udp_datagram ([23, 0, p1, p2] @ flow @ a6 @ scope) payload = Some ([0, 0, 0, 4] @ a6 @ [p1, p2] @ payload)
    \<and> tcpSend E cid payload (int (length payload)) s =
        Some ((emit E (Nf (TcpPostSend cid [4, 1, p1, p2, a1, a2, a3, a4, 0] 9)) s)
          \<lparr>m_connInfoMap := m_insert cid \<lparr>oci_remoteAddress = [2, 0, p1, p2, a1, a2, a3, a4] @ pad,
             pendedSends = held @ payload\<rparr> (m_connInfoMap s)\<rparr>)
    \<and> relay_address ([2, 0, q1, q2, a1, a2, a3, a4] @ pad) ([5, 0, 0, 1, b1, b2, b3, b4, p1, p2] @ rest) 1 =
        Some (Some ([2, 0, p1, p2, a1, a2, a3, a4] @ replicate 8 0))
    \<and> relay_address ([23, 0, q1, q2] @ flow @ a6 @ scope) ([5, 0, 0, 4] @ b6 @ [p1, p2] @ rest) 4 =
        Some (Some ([23, 0, p1, p2, 0, 0, 0, 0] @ a6 @ [0, 0, 0, 0]))"
proof -
  have "tcpSend E cid payload (int (length payload)) s =
      Some ((emit E (Nf (TcpPostSend cid [4, 1, p1, p2, a1, a2, a3, a4, 0] 9)) s)
        \<lparr>m_connInfoMap := m_insert cid \<lparr>oci_remoteAddress = [2, 0, p1, p2, a1, a2, a3, a4] @ pad,
           pendedSends = held @ payload\<rparr> (m_connInfoMap s)\<rparr>)"
    unfolding tcpSend_def assms(4) option.case ORIGINAL_CONN_INFO.simps byte_simps bind.bind_lunit socks4_bytes
    by (simp add: memcpy_from_def rdn_zero_all sizeof_SOCKS4_REQUEST_def emit_eq)
  with greeting_bytes udp_associate_bytes udp_datagram_bytes udp_datagram6_bytes [OF assms(1,2)] relay_bytes
    relay6_bytes [OF assms(1-3)] show ?thesis by simp
qed

text \<open>An intercepted connection to 8.8.8.8:80 of which one byte is kept.\<close>

definition example_held :: event_handler where
  "example_held = udp_proxy.extend example_idle
     \<lparr>m_connInfoMap = [(5, \<lparr>oci_remoteAddress = [2, 0, 0, 80, 8, 8, 8, 8] @ replicate 20 0, pendedSends = [7]\<rparr>)],
      m_udpCtxMap = [], g_proxyAddress = []\<rparr>"

theorem messages_on_the_wire_witness:
  "udp_datagram ([2, 0, 0, 80, 8, 8, 8, 8] @ replicate 20 0) [1, 2] = Some [0, 0, 0, 1, 8, 8, 8, 8, 0, 80, 1, 2] \<and>
   tcpSend zero_env 5 [1, 2] 2 example_held = Some ((emit zero_env (Nf (TcpPostSend 5 [4, 1, 0, 80, 8, 8, 8, 8, 0] 9)) example_held)
     \<lparr>m_connInfoMap := [(5, \<lparr>oci_remoteAddress = [2, 0, 0, 80, 8, 8, 8, 8] @ replicate 20 0, pendedSends = [7, 1, 2]\<rparr>)]\<rparr>)"
proof -
  have map: "m_connInfoMap example_held =
      [(5, \<lparr>oci_remoteAddress = [2, 0, 0, 80, 8, 8, 8, 8] @ replicate 20 0, pendedSends = [7]\<rparr>)]"
    by (simp add: example_held_def udp_proxy.extend_def)
  then have "map_of (m_connInfoMap example_held) 5 =
      Some \<lparr>oci_remoteAddress = [2, 0, 0, 80, 8, 8, 8, 8] @ replicate 20 0, pendedSends = [7]\<rparr>" by simp
  from messages_on_the_wire [OF _ _ _ this, of "replicate 4 0" "replicate 16 0" "replicate 16 0" new_PROXY_DATA "[1, 2]"]
  show ?thesis by (simp add: map)
qed

text \<open>
  C33: what arrives from the relay is read at the places where the protocol has it, for both address
  families, and the fragment number, as the reserved bytes, is not looked at: a fragment of a larger
  datagram, which a client without reassembly has to drop, is passed on as a datagram of its own.
\<close>

theorem fragment_number_ignored:
  assumes "map_of (m_ovDataSet s) p = Some d" "m_pProxyHandler s" "length payload < 2 ^ 30"
  shows "(ov_buffer d = [r1, r2, frag, 1, a1, a2, a3, a4, p1, p2] @ payload @ rest \<and> unat n = 10 + length payload \<longrightarrow>
      onUdpReceiveComplete E recv sk n p err s = Option.bind (recv (ov_id d) (payload @ rest) (int (length payload))
        ([2, 0, p1, p2, a1, a2, a3, a4] @ replicate 8 0) 16 s) (rearm E sk p)) \<and>
    (ov_buffer d = [r1, r2, frag, 4] @ a6 @ [p1, p2] @ payload @ rest \<and> length a6 = 16 \<and> unat n = 22 + length payload \<longrightarrow>
      onUdpReceiveComplete E recv sk n p err s = Option.bind (recv (ov_id d) (payload @ rest) (int (length payload))
        ([23, 0, p1, p2, 0, 0, 0, 0] @ a6 @ [0, 0, 0, 0]) 28 s) (rearm E sk p))"
proof (intro conjI impI)
  assume buf: "ov_buffer d = [r1, r2, frag, 1, a1, a2, a3, a4, p1, p2] @ payload @ rest \<and> unat n = 10 + length payload"
  then obtain r where r: "dec_SOCKS5_UDP_REQUEST_IPv4 (ov_buffer d) = Some r" "s5u4_address_type r = SOCKS5_ADDR_IPV4"
    "s5u4_port r = of_le16 p1 p2" "s5u4_address r = of_le32 a1 a2 a3 a4" using header_bytes by metis
  from buf have "sizeof_SOCKS5_UDP_REQUEST < unat n" by (simp add: sizeof_SOCKS5_UDP_REQUEST_def)
  moreover have "payload_len n 10 = int (length payload)" using buf assms(3) by (subst payload_len_eq) auto
  moreover have "drop 10 (ov_buffer d) = payload @ rest" using buf by simp
  ultimately show "onUdpReceiveComplete E recv sk n p err s = Option.bind (recv (ov_id d) (payload @ rest)
      (int (length payload)) ([2, 0, p1, p2, a1, a2, a3, a4] @ replicate 8 0) 16 s) (rearm E sk p)"
    using receive_IPv4 [OF assms(1) r(1,2) _ assms(2)] by (simp add: r(3,4) mk_sockaddr_in_def byte_simps)
next
  assume buf: "ov_buffer d = [r1, r2, frag, 4] @ a6 @ [p1, p2] @ payload @ rest \<and> length a6 = 16 \<and> unat n = 22 + length payload"
  then obtain r where r: "dec_SOCKS5_UDP_REQUEST_IPv6 (ov_buffer d) = Some r" "s5u6_address_type r = SOCKS5_ADDR_IPV6"
    "s5u6_port r = of_le16 p1 p2" "s5u6_address r = a6" using header6_bytes by metis
  from buf have "sizeof_SOCKS5_UDP_REQUEST < unat n" by (simp add: sizeof_SOCKS5_UDP_REQUEST_def)
  moreover have "payload_len n 22 = int (length payload)" using buf assms(3) by (subst payload_len_eq) auto
  moreover have "drop 22 (ov_buffer d) = payload @ rest" using buf by simp
  ultimately show "onUdpReceiveComplete E recv sk n p err s = Option.bind (recv (ov_id d) (payload @ rest)
      (int (length payload)) ([23, 0, p1, p2, 0, 0, 0, 0] @ a6 @ [0, 0, 0, 0]) 28 s) (rearm E sk p)"
    using receive_IPv6 [OF assms(1) r(1,2) _ assms(2)] by (simp add: r(3,4) mk_sockaddr_in6_def byte_simps numeral_eq_Suc)
qed

text \<open>A last fragment (high bit set) from 8.8.8.8:53, and a first fragment from an IPv6 address.\<close>

definition example_fragment :: udp_proxy where
  "example_fragment = example_idle\<lparr>m_ovDataSet :=
     [(0, new_OV_DATA\<lparr>ov_type := OVT_UDP_RECEIVE, ov_id := 7,
        ov_buffer := [0, 0, 130, 1, 8, 8, 8, 8, 0, 53] @ [1, 2] @ [9]\<rparr>),
      (1, new_OV_DATA\<lparr>ov_type := OVT_UDP_RECEIVE, ov_id := 8,
        ov_buffer := [0, 0, 1, 4] @ replicate 16 6 @ [0, 53] @ [1, 2] @ [9]\<rparr>)], m_pProxyHandler := True\<rparr>"

theorem fragment_number_ignored_witness:
  "onUdpReceiveComplete example_env take_payload 4 12 0 0 example_fragment =
     rearm example_env 4 0 (example_fragment\<lparr>m_userName := [1, 2]\<rparr>) \<and>
   onUdpReceiveComplete example_env ignore_datagram 4 24 1 0 example_fragment =
     Option.bind (ignore_datagram 8 [1, 2, 9] 2 ([23, 0, 0, 53, 0, 0, 0, 0] @ replicate 16 6 @ [0, 0, 0, 0]) 28 example_fragment)
       (rearm example_env 4 1)"
proof
  have d: "map_of (m_ovDataSet example_fragment) 0 = Some (new_OV_DATA\<lparr>ov_type := OVT_UDP_RECEIVE, ov_id := 7,
      ov_buffer := [0, 0, 130, 1, 8, 8, 8, 8, 0, 53] @ [1, 2] @ [9]\<rparr>)" "m_pProxyHandler example_fragment"
    by (simp_all add: example_fragment_def)
  from conjunct1 [OF fragment_number_ignored [OF d, of "[1, 2]" 0 0 130 8 8 8 8 0 53 "[9]" 12]]
  show "onUdpReceiveComplete example_env take_payload 4 12 0 0 example_fragment =
     rearm example_env 4 0 (example_fragment\<lparr>m_userName := [1, 2]\<rparr>)" by (simp add: take_payload_def)
next
  have d: "map_of (m_ovDataSet example_fragment) 1 = Some (new_OV_DATA\<lparr>ov_type := OVT_UDP_RECEIVE, ov_id := 8,
      ov_buffer := [0, 0, 1, 4] @ replicate 16 6 @ [0, 53] @ [1, 2] @ [9]\<rparr>)" "m_pProxyHandler example_fragment"
    by (simp_all add: example_fragment_def)
  note fragment_number_ignored [OF d, of "[1, 2]" 0 0 1 0 0 0 0 0 53 "[9]" 24 example_env ignore_datagram 4 0 "replicate 16 6", THEN conjunct2]
  then show "onUdpReceiveComplete example_env ignore_datagram 4 24 1 0 example_fragment =
     Option.bind (ignore_datagram 8 [1, 2, 9] 2 ([23, 0, 0, 53, 0, 0, 0, 0] @ replicate 16 6 @ [0, 0, 0, 0]) 28 example_fragment)
       (rearm example_env 4 1)" by simp
qed

end
