(* ===== verification/Redirector.thy ===== *)
theory Redirector
  imports Handler_Events
begin

text \<open>
  \<open>src/netfilter/SocksRedirector.cpp\<close> (\<open>NetFilterCore\<close>) and the settings of \<open>src/core/Settings.hpp\<close>:
  starting and stopping the redirection, and the filtering rules the driver is given. Qt's
  conversions are parameters or written out (\<open>QString::number\<close>); a \<open>QString\<close> is its UTF-16 units.
\<close>

section \<open>Settings\<close>

datatype NetworkType = NETWORK_UNSPECIFIED | NETWORK_TCP | NETWORK_UDP

fun network_value :: "NetworkType \<Rightarrow> u32" where
  "network_value NETWORK_UNSPECIFIED = 0"
| "network_value NETWORK_TCP = 6"
| "network_value NETWORK_UDP = 17"

text \<open>\<open>int\<close> fields are 32-bit words.\<close>

record FilterRule =
  portFrom :: u32
  portTo :: u32
  networkType :: NetworkType
  fr_processName :: wstring

definition FilterRule_ctor :: "u32 \<Rightarrow> u32 \<Rightarrow> NetworkType \<Rightarrow> wstring \<Rightarrow> FilterRule" where
  "FilterRule_ctor f t n proc = \<lparr>portFrom = f, portTo = t, networkType = n, fr_processName = proc\<rparr>"

definition wide :: "string \<Rightarrow> wstring" where
  "wide = map (\<lambda>c. word_of_nat (of_char c))"

definition DefaultRules :: "FilterRule list" where
  "DefaultRules =
     [FilterRule_ctor 0 0 NETWORK_UNSPECIFIED (wide ''qv2ray.exe''),
      FilterRule_ctor 0 0 NETWORK_UNSPECIFIED (wide ''v2ray.exe''),
      FilterRule_ctor 67 0 NETWORK_UDP [],
      FilterRule_ctor 123 0 NETWORK_UDP []]"

record PluginOptions =
  rules :: "FilterRule list"
  autoStart :: bool

definition default_options :: PluginOptions where
  "default_options = \<lparr>rules = DefaultRules, autoStart = False\<rparr>"

section \<open>Rules\<close>

definition put_bytes :: "bytes option \<Rightarrow> bytes \<Rightarrow> bytes option" where
  "put_bytes src dst = (case src of None \<Rightarrow> Some dst | Some b \<Rightarrow> wrn 0 b dst)"

text \<open>\<open>inet_pton\<close> leaves its target alone when it fails, and the result is not checked.\<close>

definition private_ipv4_rule :: "env \<Rightarrow> string \<Rightarrow> string \<Rightarrow> NF_RULE option" where
  "private_ipv4_rule E addr netmask = do {
     let rule = zero_rule\<lparr>filteringFlag := flag_value NF_ALLOW, ip_family := AF_INET\<rparr>;
     a \<leftarrow> put_bytes (inet_pton E AF_INET addr) (remoteIpAddress rule);
     m \<leftarrow> put_bytes (inet_pton E AF_INET netmask) (remoteIpAddressMask rule);
     Some (rule\<lparr>remoteIpAddress := a, remoteIpAddressMask := m\<rparr>)
   }"

definition ADD_PRIVATE_IPV4_ADDRESS :: "env \<Rightarrow> string \<Rightarrow> string \<Rightarrow> 'a world_scheme \<Rightarrow> 'a world_scheme option" where
  "ADD_PRIVATE_IPV4_ADDRESS E addr netmask s = do {
     rule \<leftarrow> private_ipv4_rule E addr netmask;
     Some (emit E (Nf (AddRule rule False)) s)
   }"

definition ipv6_loopback_rule :: NF_RULE where
  "ipv6_loopback_rule = zero_rule\<lparr>filteringFlag := flag_value NF_ALLOW, ip_family := AF_INET6,
     remoteIpAddress := (remoteIpAddress zero_rule)[15 := 1]\<rparr>"

definition ipv6_mapped_rule :: "env \<Rightarrow> NF_RULE option" where
  "ipv6_mapped_rule E = do {
     let rule = zero_rule\<lparr>filteringFlag := flag_value NF_ALLOW, ip_family := AF_INET6\<rparr>;
     a \<leftarrow> put_bytes (inet_pton E AF_INET ''::ffff:127.0.0.1'') (remoteIpAddress rule);
     Some (rule\<lparr>remoteIpAddress := a\<rparr>)
   }"

text \<open>\<open>wcsncpy (dst, src, n)\<close>: the source up to its first zero, cut at \<open>n\<close>, padded with zeros.\<close>

definition wcsncpy :: "wstring \<Rightarrow> nat \<Rightarrow> wstring" where
  "wcsncpy src n = (let s = takeWhile (\<lambda>c. c \<noteq> 0) src in take n s @ replicate (n - length s) 0)"

definition user_rule :: "FilterRule \<Rightarrow> NF_RULE_EX" where
  "user_rule rule =
     (let ruleEx = zero_rule_ex\<lparr>filteringFlag := flag_value NF_ALLOW\<rparr>;
          ruleEx = (if portTo rule \<noteq> 0
                    then ruleEx\<lparr>remotePortRange := \<lparr>valueLow = ucast (portFrom rule), valueHigh = ucast (portTo rule)\<rparr>\<rparr>
                    else if portFrom rule \<noteq> 0 then ruleEx\<lparr>remotePort := ucast (portFrom rule)\<rparr>
                    else ruleEx);
          ruleEx = (if networkType rule \<noteq> NETWORK_UNSPECIFIED
                    then ruleEx\<lparr>protocol := network_value (networkType rule)\<rparr> else ruleEx)
      in if fr_processName rule \<noteq> []
         then ruleEx\<lparr>processName := wcsncpy (fr_processName rule) MAX_PATH\<rparr> else ruleEx)"

fun add_user_rules :: "env \<Rightarrow> FilterRule list \<Rightarrow> 'a world_scheme \<Rightarrow> 'a world_scheme" where
  "add_user_rules E [] s = s"
| "add_user_rules E (r # rs) s = add_user_rules E rs (emit E (Nf (AddRuleEx (user_rule r) True)) s)"

definition proxy_tcp_rule :: NF_RULE_EX where
  "proxy_tcp_rule = zero_rule_ex\<lparr>protocol := IPPROTO_TCP, filteringFlag := flag_value NF_INDICATE_CONNECT_REQUESTS\<rparr>"

definition proxy_udp_rule :: NF_RULE_EX where
  "proxy_udp_rule = zero_rule_ex\<lparr>protocol := IPPROTO_UDP, filteringFlag := flag_value NF_FILTER\<rparr>"

definition add_rules :: "env \<Rightarrow> FilterRule list \<Rightarrow> 'a world_scheme \<Rightarrow> 'a world_scheme option" where
  "add_rules E rs s = do {
     s \<leftarrow> ADD_PRIVATE_IPV4_ADDRESS E ''10.0.0.1'' ''255.0.0.0'' s;
     s \<leftarrow> ADD_PRIVATE_IPV4_ADDRESS E ''127.0.0.1'' ''255.0.0.0'' s;
     s \<leftarrow> ADD_PRIVATE_IPV4_ADDRESS E ''172.16.0.1'' ''255.240.0.0'' s;
     s \<leftarrow> ADD_PRIVATE_IPV4_ADDRESS E ''192.168.0.1'' ''255.255.0.0'' s;
     s \<leftarrow> ADD_PRIVATE_IPV4_ADDRESS E ''224.0.0.1'' ''240.0.0.0'' s;
     let s = emit E (Nf (AddRule ipv6_loopback_rule False)) s;
     rule \<leftarrow> ipv6_mapped_rule E;
     let s = emit E (Nf (AddRule rule False)) s;
     let s = add_user_rules E rs s;
     let s = emit E (Nf (AddRuleEx proxy_tcp_rule False)) s;
     let s = emit E (Nf (AddRuleEx proxy_udp_rule False)) s;
     Some s
   }"

section \<open>\<open>NetFilterCore\<close>\<close>

fun decimal_nat :: "nat \<Rightarrow> wstring" where
  "decimal_nat n = (if n < 10 then [word_of_nat (48 + n)]
     else decimal_nat (n div 10) @ [word_of_nat (48 + n mod 10)])"

declare decimal_nat.simps [simp del]

definition QString_number :: "u32 \<Rightarrow> wstring" where
  "QString_number i = (if sint i < 0 then 0x2d # decimal_nat (nat (- sint i)) else decimal_nat (nat (sint i)))"

definition NetFilterCore_ctor :: "env \<Rightarrow> event_handler \<Rightarrow> event_handler" where
  "NetFilterCore_ctor E s = emit E (Net WSAStartup) (EventHandler_ctor E s)"

text \<open>
  The destructor of the handler deletes the proxy, whose service closes its handles; the objects of
  the proxy's tables are not freed.
\<close>

definition NetFilterCore_dtor :: "env \<Rightarrow> event_handler \<Rightarrow> event_handler" where
  "NetFilterCore_dtor E s =
     (let s = emit E (Net WSACleanup) s;
          s = AutoHandle_dtor E OBJ_workerThread s
      in AutoEventHandle_dtor E OBJ_stopEvent s)"

definition NetFilterCore_Stop :: "env \<Rightarrow> event_handler \<Rightarrow> event_handler" where
  "NetFilterCore_Stop E s = emit E (Nf Free) (EventHandler_free E s)"

text \<open>\<open>toStd\<close> is \<open>QString::toStdString\<close>.\<close>

definition NetFilterCore_Start :: "env \<Rightarrow> (wstring \<Rightarrow> bytes) \<Rightarrow> FilterRule list \<Rightarrow> wstring \<Rightarrow> u32 \<Rightarrow>
    wstring \<Rightarrow> wstring \<Rightarrow> event_handler \<Rightarrow> (bool \<times> event_handler) option" where
  "NetFilterCore_Start E toStd rs address port username password s = do {
     let fullAddr = address @ wide '':'' @ QString_number port;
     (ok, s) \<leftarrow> EventHandler_init E fullAddr (toStd username) (toStd password) s;
     if \<not> ok then Some (False, s)
     else do {
       let (status, s) = sys E (Nf Init) s;
       if status \<noteq> status_code NF_STATUS_SUCCESS then Some (False, s)
       else do {
         s \<leftarrow> add_rules E rs s;
         Some (True, s)
       }
     }
   }"

section \<open>The driver's rule list\<close>

text \<open>
  \<open>nf_addRule\<close> and \<open>nf_addRuleEx\<close> put a rule at the head (\<open>toHead\<close>) or the tail of the driver's list
  (\<open>nfapi.h\<close>); \<open>rule_list\<close> is the list that a sequence of calls leaves.
\<close>

fun rule_step :: "(NF_RULE + NF_RULE_EX) list \<Rightarrow> api \<Rightarrow> (NF_RULE + NF_RULE_EX) list" where
  "rule_step rs (Nf (AddRule r toHead)) = (if toHead then Inl r # rs else rs @ [Inl r])"
| "rule_step rs (Nf (AddRuleEx r toHead)) = (if toHead then Inr r # rs else rs @ [Inr r])"
| "rule_step rs _ = rs"

definition rule_list :: "trace \<Rightarrow> (NF_RULE + NF_RULE_EX) list" where
  "rule_list tr = foldl rule_step [] (map fst tr)"

lemma rule_list_append: "rule_list (xs @ ys) = foldl rule_step (rule_list xs) (map fst ys)"
  by (simp add: rule_list_def)

lemma rule_list_emit: "rule_list (trace (emit E c s)) = rule_step (rule_list (trace s)) c"
  by (simp add: emit_eq rule_list_append)

lemma rule_list_other [simp]:
  "rule_list (trace (emit E (Net n) s)) = rule_list (trace s)"
  "rule_list (trace (emit E (Sync y) s)) = rule_list (trace s)"
  "rule_list (trace (snd (sys E (Net n) s))) = rule_list (trace s)"
  "rule_list (trace (snd (sys E (Sync y) s))) = rule_list (trace s)"
  "rule_list (trace (snd (sys E (Nf Init) s))) = rule_list (trace s)"
  by (simp_all add: rule_list_emit sys_snd rule_list_append)

lemma rule_list_init:
  assumes "UDPProxy_init E a n user pass s = Some (r, t)"
  shows "rule_list (trace t) = rule_list (trace s)"
proof -
  have "rule_list (trace (snd (initExtensions E s))) = rule_list (trace s)" for s :: "'a udp_proxy_scheme"
    by (simp add: initExtensions_def split_def Let_def)
  moreover have "rule_list (trace (snd (IOCPService_init E s))) = rule_list (trace s)" for s :: "'a udp_proxy_scheme"
    by (simp add: IOCPService_init_def Attach_def split_def Let_def)
  ultimately show ?thesis
    using assms by (auto simp: UDPProxy_init_def split_def Let_def bind_eq_Some_conv split: if_splits)
qed

lemma rule_list_user:
  "rule_list (trace (add_user_rules E rs s)) = map (Inr \<circ> user_rule) (rev rs) @ rule_list (trace s)"
  by (induction E rs s rule: add_user_rules.induct) (simp_all add: rule_list_emit)

lemma aside_user: "aside s t \<Longrightarrow> aside s (add_user_rules E rs t)"
  by (induction rs arbitrary: t) simp_all

lemma more_user: "udp_proxy.more (add_user_rules E rs t) = udp_proxy.more t"
  by (induction rs arbitrary: t) simp_all

text \<open>What the platform's conversions promise: results of the declared sizes.\<close>

definition conversions_fit :: "env \<Rightarrow> bool" where
  "conversions_fit E \<longleftrightarrow> (\<forall>w f a. string_to_address E w f = Some a \<longrightarrow> length a \<le> NF_MAX_ADDRESS_LENGTH) \<and>
     (\<forall>f t b. inet_pton E f t = Some b \<longrightarrow> length b \<le> NF_MAX_IP_ADDRESS_LENGTH)"

lemma put_bytes_total:
  "(\<And>b. src = Some b \<Longrightarrow> length b \<le> length dst) \<Longrightarrow> \<exists>x. put_bytes src dst = Some x"
  by (cases src) (auto simp: put_bytes_def wrn_def)

lemma rules_total:
  assumes "conversions_fit E"
  shows "\<exists>r. private_ipv4_rule E a m = Some r" "\<exists>r. ipv6_mapped_rule E = Some r"
proof -
  have fit: "\<exists>x. put_bytes (inet_pton E f t) (replicate NF_MAX_IP_ADDRESS_LENGTH 0) = Some x" for f t
    by (rule put_bytes_total) (use assms in \<open>simp add: conversions_fit_def\<close>)
  show "\<exists>r. private_ipv4_rule E a m = Some r" "\<exists>r. ipv6_mapped_rule E = Some r"
    using fit [of AF_INET a] fit [of AF_INET m] fit [of AF_INET "''::ffff:127.0.0.1''"]
    by (auto simp: private_ipv4_rule_def ipv6_mapped_rule_def zero_rule_def)
qed

lemma ADD_PRIVATE_total:
  assumes "conversions_fit E"
  shows "\<exists>r. ADD_PRIVATE_IPV4_ADDRESS E a m s = Some (emit E (Nf (AddRule r False)) s)"
  using rules_total(1) [OF assms, of a m] by (auto simp: ADD_PRIVATE_IPV4_ADDRESS_def)

lemma add_rules_total:
  assumes "conversions_fit E"
  shows "\<exists>t. add_rules E rs s = Some t \<and> aside s t \<and> udp_proxy.more t = udp_proxy.more s"
proof -
  note add = ADD_PRIVATE_total [OF assms]
  from add [of "''10.0.0.1''" "''255.0.0.0''" s] obtain s1 r1 where
    s1: "ADD_PRIVATE_IPV4_ADDRESS E ''10.0.0.1'' ''255.0.0.0'' s = Some s1" "s1 = emit E (Nf (AddRule r1 False)) s" by auto
  from add [of "''127.0.0.1''" "''255.0.0.0''" s1] obtain s2 r2 where
    s2: "ADD_PRIVATE_IPV4_ADDRESS E ''127.0.0.1'' ''255.0.0.0'' s1 = Some s2" "s2 = emit E (Nf (AddRule r2 False)) s1" by auto
  from add [of "''172.16.0.1''" "''255.240.0.0''" s2] obtain s3 r3 where
    s3: "ADD_PRIVATE_IPV4_ADDRESS E ''172.16.0.1'' ''255.240.0.0'' s2 = Some s3" "s3 = emit E (Nf (AddRule r3 False)) s2" by auto
  from add [of "''192.168.0.1''" "''255.255.0.0''" s3] obtain s4 r4 where
    s4: "ADD_PRIVATE_IPV4_ADDRESS E ''192.168.0.1'' ''255.255.0.0'' s3 = Some s4" "s4 = emit E (Nf (AddRule r4 False)) s3" by auto
  from add [of "''224.0.0.1''" "''240.0.0.0''" s4] obtain s5 r5 where
    s5: "ADD_PRIVATE_IPV4_ADDRESS E ''224.0.0.1'' ''240.0.0.0'' s4 = Some s5" "s5 = emit E (Nf (AddRule r5 False)) s4" by auto
  from rules_total(2) [OF assms] obtain r where r: "ipv6_mapped_rule E = Some r" ..
  have "aside s s5" by (simp add: s1(2) s2(2) s3(2) s4(2) s5(2))
  moreover have "udp_proxy.more s5 = udp_proxy.more s" by (simp add: s1(2) s2(2) s3(2) s4(2) s5(2))
  ultimately show ?thesis
    by (simp add: add_rules_def s1(1) s2(1) s3(1) s4(1) s5(1) r Let_def aside_user more_user)
qed

lemma UDPProxy_init_total:
  assumes "proxy_idle s" "length g = NF_MAX_ADDRESS_LENGTH" "n \<le> NF_MAX_ADDRESS_LENGTH"
  shows "\<exists>r t. UDPProxy_init E g (int n) user pass s = Some (r, t)"
  using UDPProxy_init_ok [OF assms(1), of "int n" g E user pass] assms(2,3) by auto

lemma EventHandler_init_total:
  assumes "handler_idle s" "conversions_fit E"
  shows "\<exists>r t. EventHandler_init E address user pass s = Some (r, t)"
proof -
  define parsed where "parsed = (case string_to_address E address AF_INET of
      Some a \<Rightarrow> Some a | None \<Rightarrow> string_to_address E address AF_INET6)"
  show ?thesis
  proof (cases parsed)
    case None
    then show ?thesis by (auto simp: EventHandler_init_def parsed_def Let_def)
  next
    case (Some a)
    then have "length a \<le> NF_MAX_ADDRESS_LENGTH"
      using assms(2) by (auto simp: parsed_def conversions_fit_def split: option.splits)
    then obtain g where g: "wrn 0 a (replicate NF_MAX_ADDRESS_LENGTH 0) = Some g" by (auto simp: wrn_def)
    then have len: "length g = NF_MAX_ADDRESS_LENGTH" by (auto dest: wrn_length)
    then obtain sz where sz: "sockaddr_size g = Some sz" "sz \<le> NF_MAX_ADDRESS_LENGTH" by (rule sockaddr_size_total)
    have "proxy_idle (s\<lparr>g_proxyAddress := g\<rparr>)" using assms(1) by (simp add: handler_idle_def proxy_idle_def)
    from UDPProxy_init_total [OF this len sz(2), of E user pass] Some g sz(1) show ?thesis
      by (auto simp: EventHandler_init_def parsed_def Let_def)
  qed
qed

lemma handler_data_sys: "handler_data (snd (sys E c s)) = handler_data s"
  by (rule handler_data_more) simp

lemma NetFilterCore_Start_ok:
  assumes "EventHandler_init E (address @ wide '':'' @ QString_number port) (toStd username) (toStd password) s = Some (True, t)"
    "fst (sys E (Nf Init) t) = status_code NF_STATUS_SUCCESS" "add_rules E rs (snd (sys E (Nf Init) t)) = Some v"
  shows "NetFilterCore_Start E toStd rs address port username password s = Some (True, v)"
  unfolding NetFilterCore_Start_def Let_def assms(1) bind.bind_lunit prod.case split_def fst_conv snd_conv
  by (simp only: assms(2,3) bind.bind_lunit simp_thms if_False)

lemma start_running:
  assumes "EventHandler_init E (address @ wide '':'' @ QString_number port) (toStd username) (toStd password) s = Some (True, t)"
    "handler_reach E t" "conversions_fit E" "fst (sys E (Nf Init) t) = status_code NF_STATUS_SUCCESS"
  shows "\<exists>v. NetFilterCore_Start E toStd rs address port username password s = Some (True, v) \<and> handler_reach E v"
proof -
  let ?u = "snd (sys E (Nf Init) t)"
  from add_rules_total [OF assms(3), of rs ?u] obtain v where
    v: "add_rules E rs ?u = Some v" "aside ?u v" "udp_proxy.more v = udp_proxy.more ?u" by blast
  have "aside t ?u" using aside_emits(2) [of t t E Init] by (simp add: emit_def)
  with v(2) have "aside t v" using aside_trans by blast
  moreover have "handler_data v = handler_data t"
    using handler_data_more [OF v(3)] handler_data_sys by (rule trans)
  ultimately have "handler_reach E v" by (rule handler_other [OF assms(2)])
  with NetFilterCore_Start_ok [where rs = rs, OF assms(1,4) v(1)] show ?thesis by blast
qed

lemma start_ok:
  assumes "handler_idle s" "conversions_fit E"
  shows "\<exists>r t. NetFilterCore_Start E toStd rs address port username password s = Some (r, t) \<and>
    (r \<longrightarrow> handler_reach E t)"
proof -
  let ?full = "address @ wide '':'' @ QString_number port"
  from EventHandler_init_total [OF assms, of ?full "toStd username" "toStd password"] obtain r t where
    t: "EventHandler_init E ?full (toStd username) (toStd password) s = Some (r, t)" by blast
  show ?thesis
  proof (cases "r \<and> fst (sys E (Nf Init) t) = status_code NF_STATUS_SUCCESS")
    case False
    with t show ?thesis by (auto simp: NetFilterCore_Start_def split_def Let_def)
  next
    case True
    then have r: "r = True" and st: "fst (sys E (Nf Init) t) = status_code NF_STATUS_SUCCESS" by blast+
    from t have t: "EventHandler_init E ?full (toStd username) (toStd password) s = Some (True, t)" unfolding r .
    show ?thesis
      using start_running [where rs = rs, OF t handler_start [OF assms(1) t] assms(2) st] by blast
  qed
qed



text \<open>What \<open>inet_pton (AF_INET, ...)\<close> makes of the texts of the program: it knows dotted IPv4 only.\<close>

definition ipv4_texts :: "(string \<times> bytes) list" where
  "ipv4_texts =
     [(''10.0.0.1'', [10, 0, 0, 1]), (''127.0.0.1'', [127, 0, 0, 1]), (''172.16.0.1'', [172, 16, 0, 1]),
      (''192.168.0.1'', [192, 168, 0, 1]), (''224.0.0.1'', [224, 0, 0, 1]), (''255.0.0.0'', [255, 0, 0, 0]),
      (''255.240.0.0'', [255, 240, 0, 0]), (''255.255.0.0'', [255, 255, 0, 0]), (''240.0.0.0'', [240, 0, 0, 0])]"

definition inet_pton_documented :: "env \<Rightarrow> bool" where
  "inet_pton_documented E \<longleftrightarrow> (\<forall>(t, b) \<in> set ipv4_texts. inet_pton E AF_INET t = Some b) \<and>
     inet_pton E AF_INET ''::ffff:127.0.0.1'' = None"

definition ipv4_allow :: "bytes \<Rightarrow> bytes \<Rightarrow> NF_RULE" where
  "ipv4_allow a m = zero_rule\<lparr>ip_family := AF_INET, remoteIpAddress := a @ replicate 12 0,
     remoteIpAddressMask := m @ replicate 12 0\<rparr>"

lemma private_ipv4_rule_eq:
  assumes "inet_pton_documented E" "(ta, a) \<in> set ipv4_texts" "(tm, m) \<in> set ipv4_texts"
  shows "private_ipv4_rule E ta tm = Some (ipv4_allow a m)"
proof -
  have "inet_pton E AF_INET ta = Some a" "inet_pton E AF_INET tm = Some m"
    using assms unfolding inet_pton_documented_def by blast+
  moreover have "length a = 4" "length m = 4" using assms(2,3) by (auto simp: ipv4_texts_def)
  ultimately show ?thesis
    by (simp add: private_ipv4_rule_def put_bytes_def wrn_def zero_rule_def ipv4_allow_def NF_MAX_IP_ADDRESS_LENGTH_def)
qed

lemma ipv6_mapped_rule_eq:
  "inet_pton_documented E \<Longrightarrow> ipv6_mapped_rule E = Some (zero_rule\<lparr>ip_family := AF_INET6\<rparr>)"
  by (simp add: ipv6_mapped_rule_def inet_pton_documented_def put_bytes_def zero_rule_def)

text \<open>The rules of the program itself, in list order.\<close>

definition builtin_rules :: "(NF_RULE + NF_RULE_EX) list" where
  "builtin_rules =
     [Inl (ipv4_allow [10, 0, 0, 1] [255, 0, 0, 0]), Inl (ipv4_allow [127, 0, 0, 1] [255, 0, 0, 0]),
      Inl (ipv4_allow [172, 16, 0, 1] [255, 240, 0, 0]), Inl (ipv4_allow [192, 168, 0, 1] [255, 255, 0, 0]),
      Inl (ipv4_allow [224, 0, 0, 1] [240, 0, 0, 0]), Inl ipv6_loopback_rule,
      Inl (zero_rule\<lparr>ip_family := AF_INET6\<rparr>), Inr proxy_tcp_rule, Inr proxy_udp_rule]"

lemma add_rules_list:
  assumes "inet_pton_documented E" "add_rules E rs s = Some t" "rule_list (trace s) = []"
  shows "rule_list (trace t) = map (Inr \<circ> user_rule) (rev rs) @ builtin_rules"
proof -
  have add: "ADD_PRIVATE_IPV4_ADDRESS E ta tm u = Some (emit E (Nf (AddRule (ipv4_allow a m) False)) u)"
    if "(ta, a) \<in> set ipv4_texts" "(tm, m) \<in> set ipv4_texts" for ta tm a m and u :: "'a world_scheme"
    by (simp add: ADD_PRIVATE_IPV4_ADDRESS_def private_ipv4_rule_eq [OF assms(1) that])
  note adds = add [of "''10.0.0.1''" "[10, 0, 0, 1]" "''255.0.0.0''" "[255, 0, 0, 0]"]
    add [of "''127.0.0.1''" "[127, 0, 0, 1]" "''255.0.0.0''" "[255, 0, 0, 0]"]
    add [of "''172.16.0.1''" "[172, 16, 0, 1]" "''255.240.0.0''" "[255, 240, 0, 0]"]
    add [of "''192.168.0.1''" "[192, 168, 0, 1]" "''255.255.0.0''" "[255, 255, 0, 0]"]
    add [of "''224.0.0.1''" "[224, 0, 0, 1]" "''240.0.0.0''" "[240, 0, 0, 0]"]
  have "add_rules E rs s = Some (emit E (Nf (AddRuleEx proxy_udp_rule False)) (emit E (Nf (AddRuleEx proxy_tcp_rule False))
      (add_user_rules E rs (emit E (Nf (AddRule (zero_rule\<lparr>ip_family := AF_INET6\<rparr>) False))
      (emit E (Nf (AddRule ipv6_loopback_rule False))
      (emit E (Nf (AddRule (ipv4_allow [224, 0, 0, 1] [240, 0, 0, 0]) False))
      (emit E (Nf (AddRule (ipv4_allow [192, 168, 0, 1] [255, 255, 0, 0]) False))
      (emit E (Nf (AddRule (ipv4_allow [172, 16, 0, 1] [255, 240, 0, 0]) False))
      (emit E (Nf (AddRule (ipv4_allow [127, 0, 0, 1] [255, 0, 0, 0]) False))
      (emit E (Nf (AddRule (ipv4_allow [10, 0, 0, 1] [255, 0, 0, 0]) False)) s))))))))))"
    by (simp add: add_rules_def adds ipv4_texts_def ipv6_mapped_rule_eq [OF assms(1)] Let_def)
  with assms(2) have "rule_list (trace t) = ((map (Inr \<circ> user_rule) (rev rs) @ (rule_list (trace s)
      @ take 7 builtin_rules)) @ [Inr proxy_tcp_rule]) @ [Inr proxy_udp_rule]"
    by (auto simp: rule_list_emit rule_list_user builtin_rules_def)
  with assms(3) show ?thesis by (simp add: builtin_rules_def)
qed

lemma wcsncpy_length [simp]: "length (wcsncpy src n) = n"
  by (simp add: wcsncpy_def Let_def)

section \<open>The port in the address text\<close>

text \<open>The number that a text of decimal digits with an optional minus sign denotes.\<close>

definition text_nat :: "wstring \<Rightarrow> nat" where
  "text_nat w = foldl (\<lambda>n c. 10 * n + (unat c - 48)) 0 w"

definition text_int :: "wstring \<Rightarrow> int" where
  "text_int w = (case w of [] \<Rightarrow> 0 | c # cs \<Rightarrow> if c = 0x2d then - int (text_nat cs) else int (text_nat w))"

lemma unat_digit: "n < 10 \<Longrightarrow> unat (word_of_nat (48 + n) :: u16) = 48 + n"
  by (simp add: unat_of_nat del: of_nat_add)

lemma decimal_nat_value: "text_nat (decimal_nat n) = n"
proof (induction n rule: decimal_nat.induct)
  case (1 n)
  show ?case
  proof (cases "n < 10")
    case True
    then show ?thesis by (subst decimal_nat.simps) (simp add: text_nat_def unat_digit del: of_nat_add)
  next
    case False
    with 1 show ?thesis by (subst decimal_nat.simps) (simp add: text_nat_def unat_digit del: of_nat_add)
  qed
qed

lemma decimal_nat_digits: "decimal_nat n \<noteq> [] \<and> (\<forall>c \<in> set (decimal_nat n). c \<noteq> 0x2d)"
proof (induction n rule: decimal_nat.induct)
  case (1 n)
  have digit: "(word_of_nat (48 + k) :: u16) \<noteq> 0x2d" if "k < 10" for k
    using unat_digit [OF that] by (auto dest: arg_cong [where f = unat] simp del: of_nat_add)
  show ?case
  proof (cases "n < 10")
    case True
    then show ?thesis by (subst (1 2) decimal_nat.simps) (use digit in \<open>simp del: of_nat_add\<close>)
  next
    case False
    with 1 show ?thesis by (subst (1 2) decimal_nat.simps) (use digit in \<open>simp del: of_nat_add\<close>)
  qed
qed

lemma text_int_decimal: "text_int (decimal_nat n) = int n"
  using decimal_nat_digits [of n] decimal_nat_value [of n]
  by (auto simp: text_int_def split: list.splits)

lemma port_text: "text_int (QString_number i) = sint i"
  using text_int_decimal [of "nat (sint i)"] by (simp add: QString_number_def text_int_def decimal_nat_value)

section \<open>Properties\<close>

text \<open>
  Starting an idle plugin always returns, and when it reports success the plugin is in a running
  state, so that everything proved of running states holds from then on.
\<close>

lemma start_reaches_running:
  assumes "handler_idle s" "conversions_fit E"
  shows "\<exists>r t. NetFilterCore_Start E toStd rs address port username password s = Some (r, t) \<and>
    (r \<longrightarrow> handler_reach E t)"
  by (rule start_ok [OF assms])

text \<open>For closed examples: a platform on which the driver starts and \<open>inet_pton\<close> knows the texts.\<close>

definition rules_env :: env where
  "rules_env = handler_env\<lparr>inet_pton := \<lambda>f t. map_of ipv4_texts t,
     os := \<lambda>tr c. if c = Nf Init then 0 else os handler_env tr c\<rparr>"

lemma rules_env_ok: "conversions_fit rules_env" "inet_pton_documented rules_env"
proof -
  have "length b = 4" if "map_of ipv4_texts t = Some b" for t b
    using map_of_SomeD [OF that] by (auto simp: ipv4_texts_def)
  then show "conversions_fit rules_env"
    by (auto simp: conversions_fit_def rules_env_def handler_env_def example_address_def NF_MAX_ADDRESS_LENGTH_def
        NF_MAX_IP_ADDRESS_LENGTH_def)
  show "inet_pton_documented rules_env"
    by (simp add: inet_pton_documented_def rules_env_def ipv4_texts_def)
qed

definition ascii :: "wstring \<Rightarrow> bytes" where
  "ascii = map ucast"

text \<open>
  C20: the rules the driver holds after a start, in its order: the user's rules first, the last one
  in the settings at the head; then the private IPv4 networks and the IPv6 loopback, which are not
  filtered; then a rule for every IPv6 connection, because the IPv4-mapped loopback text is not one
  the conversion knows, so its address stays zero; then the two rules that send all other TCP
  connections and all other UDP datagrams to the plugin.
\<close>

theorem start_installs_rules:
  assumes "conversions_fit E" "inet_pton_documented E" "rule_list (trace s) = []"
    and "NetFilterCore_Start E toStd rs address port username password s = Some (True, t)"
  shows "rule_list (trace t) = map (Inr \<circ> user_rule) (rev rs) @ builtin_rules"
proof -
  from assms(4) obtain u where
    u: "EventHandler_init E (address @ wide '':'' @ QString_number port) (toStd username) (toStd password) s = Some (True, u)"
    and t: "add_rules E rs (snd (sys E (Nf Init) u)) = Some t"
    by (auto simp: NetFilterCore_Start_def split_def Let_def bind_eq_Some_conv split: if_splits)
  from EventHandler_init_cases [OF u] obtain g n where
    "UDPProxy_init E g n (toStd username) (toStd password) (s\<lparr>g_proxyAddress := g\<rparr>) = Some (True, u)" by metis
  from rule_list_init [OF this] assms(3) have "rule_list (trace (snd (sys E (Nf Init) u))) = []" by simp
  from add_rules_list [OF assms(2) t this] show ?thesis .
qed

lemma rules_proxy_init:
  "\<exists>s. UDPProxy_init rules_env (example_address @ replicate 12 0) 16 [] []
     (example_handler_idle\<lparr>g_proxyAddress := example_address @ replicate 12 0\<rparr>) = Some (True, s)"
  by (simp add: UDPProxy_init_def initExtensions_def IOCPService_init_def sys_def emit_eq example_handler_idle_def
      rules_env_def fresh_env_def example_env_def example_idle_def Attach_def Let_def memcpy_from_def rdn_def
      example_address_def wrn_def INVALID_SOCKET_def INVALID_HANDLE_VALUE_def NF_MAX_ADDRESS_LENGTH_def udp_proxy.defs)

lemma example_start:
  "\<exists>t. NetFilterCore_Start rules_env ascii rs address port [] [] example_handler_idle = Some (True, t)"
proof -
  from rules_proxy_init obtain s where s:
    "UDPProxy_init rules_env (example_address @ replicate 12 0) 16 [] []
     (example_handler_idle\<lparr>g_proxyAddress := example_address @ replicate 12 0\<rparr>) = Some (True, s)" by blast
  have conv: "string_to_address rules_env w f = Some example_address" for w f
    by (simp add: rules_env_def handler_env_def)
  from s have init: "EventHandler_init rules_env (address @ wide '':'' @ QString_number port) (ascii []) (ascii [])
      example_handler_idle = Some (True, s)"
    by (simp add: EventHandler_init_def conv ascii_def example_address_size Let_def)
  have "fst (sys rules_env (Nf Init) s) = status_code NF_STATUS_SUCCESS"
    by (simp add: rules_env_def)
  from start_running [where toStd = ascii and username = "[]" and password = "[]", OF init handler_start [OF example_handler_idle_ok init] rules_env_ok(1) this]
  show ?thesis by blast
qed

theorem start_installs_rules_witness:
  "\<exists>t. NetFilterCore_Start rules_env ascii DefaultRules (wide ''127.0.0.1'') 1080 [] [] example_handler_idle = Some (True, t) \<and>
    rule_list (trace t) = map (Inr \<circ> user_rule) (rev DefaultRules) @ builtin_rules"
proof -
  obtain t where t: "NetFilterCore_Start rules_env ascii DefaultRules (wide ''127.0.0.1'') 1080 [] [] example_handler_idle = Some (True, t)"
    using example_start by blast
  have "rule_list (trace example_handler_idle) = []"
    by (simp add: example_handler_idle_def rule_list_def udp_proxy.defs example_idle_def)
  from start_installs_rules [OF rules_env_ok this t] t show ?thesis by blast
qed

text \<open>
  C39: the process name of a user's rule fills the driver's array exactly; it ends with a zero just
  when it is shorter than the array, and a longer name leaves the array without a terminator.
\<close>

theorem user_rule_process_name:
  "length (processName (user_rule r)) = MAX_PATH \<and>
   (let name = takeWhile (\<lambda>c. c \<noteq> 0) (fr_processName r)
    in if length name < MAX_PATH then takeWhile (\<lambda>c. c \<noteq> 0) (processName (user_rule r)) = name \<and> last (processName (user_rule r)) = 0
       else 0 \<notin> set (processName (user_rule r)))"
proof -
  have zero: "length (replicate MAX_PATH (0 :: u16)) = MAX_PATH" "MAX_PATH \<noteq> 0" by (simp_all add: MAX_PATH_def)
  have name: "processName (user_rule r) =
      (if fr_processName r = [] then replicate MAX_PATH 0 else wcsncpy (fr_processName r) MAX_PATH)"
    by (simp add: user_rule_def Let_def zero_rule_ex_def NF_RULE.extend_def)
  let ?n = "takeWhile (\<lambda>c. c \<noteq> 0) (fr_processName r)"
  have pad: "wcsncpy (fr_processName r) MAX_PATH = take MAX_PATH ?n @ replicate (MAX_PATH - length ?n) 0"
    by (simp add: wcsncpy_def Let_def)
  have nz: "\<forall>c \<in> set ?n. c \<noteq> 0" by (auto dest: set_takeWhileD)
  have tw: "takeWhile (\<lambda>c. c \<noteq> 0) (?n @ replicate m 0) = ?n" for m :: nat
    using nz by (subst takeWhile_append2) (auto simp: takeWhile_replicate)
  show ?thesis
  proof (cases "fr_processName r = []")
    case True
    then show ?thesis using zero(2) by (simp add: name takeWhile_replicate last_replicate)
  next
    case False
    show ?thesis
    proof (cases "length ?n < MAX_PATH")
      case True
      then show ?thesis using False tw [of "MAX_PATH - length ?n"] by (simp add: name pad Let_def last_append)
    next
      case long: False
      then have "0 \<notin> set (take MAX_PATH ?n)" using nz set_take_subset [of MAX_PATH ?n] by blast
      then show ?thesis using False long by (simp add: name pad Let_def)
    qed
  qed
qed




end
