(* ===== verification/Plugin_Core.thy ===== *)
theory Plugin_Core
  imports Redirector
begin

text \<open>
  \<open>src/core/EventHandler.cpp\<close>: the plugin's reaction to the events of the host program, which owns
  the connection; and the whole life of the plugin, from its construction through any number of
  connections. The interface of the host (a submodule) is not in the repository: of its event object
  the model has what the code reads.
\<close>

section \<open>Host events\<close>

datatype EventType = Connected | Disconnecting | OtherEvent nat

text \<open>\<open>InboundData\<close> in its order of iteration: tag, protocol, address and first port.\<close>

type_synonym inbound = "wstring \<times> wstring \<times> wstring \<times> u32"

record EventObject =
  event_Type :: EventType
  InboundData :: "inbound list"

fun socks_port :: "inbound list \<Rightarrow> u32" where
  "socks_port [] = 0"
| "socks_port ((tag, proto, addr, port_from) # rest) =
     (if proto = wide ''socks'' then port_from else socks_port rest)"

text \<open>The user name and the password have their default, the empty text. The result of \<open>Start\<close> is dropped.\<close>

definition ProcessEvent :: "env \<Rightarrow> (wstring \<Rightarrow> bytes) \<Rightarrow> PluginOptions \<Rightarrow> EventObject \<Rightarrow>
    event_handler \<Rightarrow> event_handler option" where
  "ProcessEvent E toStd opts ev s =
     (case event_Type ev of
        Connected \<Rightarrow> do {
          let socksPort = socks_port (InboundData ev);
          (r, s) \<leftarrow> NetFilterCore_Start E toStd (rules opts) (wide ''127.0.0.1'') socksPort [] [] s;
          Some s
        }
      | Disconnecting \<Rightarrow> Some (NetFilterCore_Stop E s)
      | OtherEvent _ \<Rightarrow> Some s)"

text \<open>The signal that a call of the log function becomes; \<open>pid\<close> is an \<open>int\<close>.\<close>

fun log_signal :: "api \<Rightarrow> (u64 \<times> wstring \<times> bool \<times> wstring \<times> wstring \<times> int \<times> wstring) option" where
  "log_signal (DoLog c p opn l r pid path) =
     Some (c, (case p of P_TCP \<Rightarrow> wide ''TCP'' | P_UDP \<Rightarrow> wide ''UDP''), opn, l, r, sint pid, path)"
| "log_signal _ = None"

section \<open>Idle and running\<close>

text \<open>A start that gets past the initialisation of the handler.\<close>

definition handler_started :: "env \<Rightarrow> (wstring \<Rightarrow> bytes) \<Rightarrow> wstring \<Rightarrow> u32 \<Rightarrow> wstring \<Rightarrow> wstring \<Rightarrow> event_handler \<Rightarrow> bool" where
  "handler_started E toStd address port username password s =
     (case EventHandler_init E (address @ wide '':'' @ QString_number port) (toStd username) (toStd password) s of
        Some (r, t) \<Rightarrow> r | None \<Rightarrow> False)"

lemma UDPProxy_init_failed:
  fixes s :: "'a udp_proxy_scheme"
  assumes "proxy_idle s" "UDPProxy_init E a n user pass s = Some (False, u)"
  shows "proxy_idle u" "udp_proxy.more u = udp_proxy.more s"
proof -
  let ?i = "snd (initExtensions E s)"
  have u: "u = ?i \<or> u = snd (IOCPService_init E ?i)"
    using assms(2) by (auto simp: UDPProxy_init_def split_def Let_def bind_eq_Some_conv split: if_splits)
  have "mset (opened_sockets (trace ?i)) = mset (closed_sockets (trace ?i))" if "proxy_idle s"
    using that by (simp add: initExtensions_def sys_def emit_eq proxy_idle_def Let_def)
  moreover have "opened_sockets (trace (snd (IOCPService_init E t))) = opened_sockets (trace t)"
    "closed_sockets (trace (snd (IOCPService_init E t))) = closed_sockets (trace t)"
    "udp_proxy.more (snd (IOCPService_init E t)) = udp_proxy.more t" for t :: "'a udp_proxy_scheme"
    by (simp_all add: IOCPService_init_def sys_def emit_eq Attach_def Let_def)
  moreover have "udp_proxy.more ?i = udp_proxy.more s"
    by (simp add: initExtensions_def sys_def emit_eq Let_def)
  ultimately show "proxy_idle u" "udp_proxy.more u = udp_proxy.more s"
    using u assms(1) by (auto simp: proxy_idle_def)
qed

lemma handler_idle_proxy: "handler_idle s \<Longrightarrow> proxy_idle s"
  by (simp add: handler_idle_def)

lemma handler_idle_data:
  assumes "handler_idle s" "proxy_idle t" "handler_data t = handler_data s" shows "handler_idle t"
  using assms by (simp add: handler_idle_def handler_data_def)

lemma EventHandler_free_idle:
  assumes "handler_idle s" shows "handler_idle (EventHandler_free E s)"
proof -
  have "m_socketMap (IOCPService_free E s) = []" "opened_sockets (trace (IOCPService_free E s)) = opened_sockets (trace s)"
    "closed_sockets (trace (IOCPService_free E s)) = closed_sockets (trace s)"
    using assms by (simp_all add: IOCPService_free_def Close_def Let_def emit_eq handler_idle_def proxy_idle_def)
  then have "opened_sockets (trace (UDPProxy_free E s)) = opened_sockets (trace s)"
    "closed_sockets (trace (UDPProxy_free E s)) = closed_sockets (trace s)"
    by (simp_all add: UDPProxy_free_def Let_def)
  with assms show ?thesis
    by (simp add: handler_idle_def proxy_idle_def EventHandler_free_fields emit_eq)
qed

lemma handler_idle_emit:
  assumes "handler_idle s" "opened_sockets [(c, os E (trace s) c)] = []" "closed_sockets [(c, os E (trace s) c)] = []"
  shows "handler_idle (emit E c s)"
  using assms by (simp add: emit_eq handler_idle_def proxy_idle_def)

lemma EventHandler_init_failed:
  assumes "handler_idle s" "EventHandler_init E address user pass s = Some (False, t)"
  shows "handler_idle t"
proof -
  have g: "handler_idle (s\<lparr>g_proxyAddress := g\<rparr>)" for g
    using assms(1) by (simp add: handler_idle_def proxy_idle_def)
  from assms(2) consider (bad) "t = emit E (Net WSAGetLastError) (s\<lparr>g_proxyAddress := replicate NF_MAX_ADDRESS_LENGTH 0\<rparr>)"
    | (proxy) g n u where "UDPProxy_init E g n user pass (s\<lparr>g_proxyAddress := g\<rparr>) = Some (False, u)" "t = EventHandler_free E u"
    by (auto simp: EventHandler_init_def Let_def bind_eq_Some_conv split: option.splits if_splits)
  then show ?thesis
  proof cases
    case bad
    then show ?thesis using g by (simp add: handler_idle_emit)
  next
    case proxy
    from UDPProxy_init_failed [OF handler_idle_proxy [OF g] proxy(1)] g
    have "handler_idle u" using handler_idle_data handler_data_more by blast
    then show ?thesis using proxy(2) by (simp add: EventHandler_free_idle)
  qed
qed

lemma start_result:
  assumes "handler_idle s" "conversions_fit E"
  shows "\<exists>r t. NetFilterCore_Start E toStd rs address port username password s = Some (r, t) \<and>
    (if handler_started E toStd address port username password s then handler_reach E t else handler_idle t)"
proof -
  let ?init = "EventHandler_init E (address @ wide '':'' @ QString_number port) (toStd username) (toStd password) s"
  from EventHandler_init_total [OF assms] obtain r t where t: "?init = Some (r, t)" by blast
  show ?thesis
  proof (cases r)
    case False
    with t EventHandler_init_failed [OF assms(1)] show ?thesis
      by (auto simp: NetFilterCore_Start_def handler_started_def)
  next
    case True
    with t have t: "?init = Some (True, t)" by simp
    then have reach: "handler_reach E t" by (rule handler_start [OF assms(1)])
    show ?thesis
    proof (cases "fst (sys E (Nf Init) t) = status_code NF_STATUS_SUCCESS")
      case True
      from start_running [where rs = rs, OF t reach assms(2) True] t show ?thesis
        by (auto simp: handler_started_def)
    next
      case False
      have "handler_reach E (snd (sys E (Nf Init) t))"
        by (rule handler_other [OF reach _ handler_data_sys]) (use aside_emits(2) [of t t E Init] in \<open>simp add: emit_def\<close>)
      with t False show ?thesis
        by (auto simp add: NetFilterCore_Start_def handler_started_def split_def Let_def)
    qed
  qed
qed

lemma Stop_idle: "handler_idle s \<Longrightarrow> handler_idle (NetFilterCore_Stop E s)"
  by (simp add: NetFilterCore_Stop_def handler_idle_emit EventHandler_free_idle)

text \<open>
  A stop closes the port, and the platform delivers no packet of a closed port: what it still owes the
  plugin never comes. (The request objects themselves are freed by the stop, pending or not.)
\<close>

definition port_closed :: "event_handler \<Rightarrow> event_handler" where
  "port_closed s = s\<lparr>inflight := []\<rparr>"

lemma port_closed_emit: "port_closed (emit E c s) = emit E c (port_closed s)"
  by (simp add: port_closed_def emit_eq)

lemma port_closed_idle: "handler_idle s \<Longrightarrow> port_closed s = s"
  by (simp add: port_closed_def handler_idle_def proxy_idle_def)

lemma Stop_running: "handler_reach E s \<Longrightarrow> handler_idle (port_closed (NetFilterCore_Stop E s))"
  unfolding NetFilterCore_Stop_def port_closed_emit using handler_stop_closes
  by (intro handler_idle_emit) (simp_all add: port_closed_def)

section \<open>Sessions\<close>

text \<open>The memory the plugin is constructed in: no call was made, the address array has its size.\<close>

definition blank :: "event_handler \<Rightarrow> bool" where
  "blank s \<longleftrightarrow> trace s = [] \<and> inflight s = [] \<and> length (m_proxyAddress s) = NF_MAX_ADDRESS_LENGTH"

lemma NetFilterCore_ctor_idle: "blank s \<Longrightarrow> handler_idle (NetFilterCore_ctor E s)"
  by (simp add: blank_def NetFilterCore_ctor_def EventHandler_ctor_def IOCPService_ctor_def AutoEventHandle_ctor_def
      AutoHandle_ctor_def handler_idle_def proxy_idle_def m_sorted_def sys_def emit_eq Let_def
      opened_sockets_def closed_sockets_def map_filter_simps)

text \<open>
  The life of a plugin: \<open>session b s\<close> is a state after some events of the host, callbacks of the
  driver and completions, where \<open>b\<close> says whether the proxy is running. A connection event comes
  when it is not; a disconnection comes at any moment, requests pending in the platform or not.
\<close>

inductive session :: "env \<Rightarrow> (wstring \<Rightarrow> bytes) \<Rightarrow> PluginOptions \<Rightarrow> bool \<Rightarrow> event_handler \<Rightarrow> bool"
  for E toStd opts where
  session_created: "blank s \<Longrightarrow> session E toStd opts False (NetFilterCore_ctor E s)"
| session_connected: "session E toStd opts False s \<Longrightarrow> event_Type ev = Connected \<Longrightarrow>
    ProcessEvent E toStd opts ev s = Some t \<Longrightarrow>
    session E toStd opts (handler_started E toStd (wide ''127.0.0.1'') (socks_port (InboundData ev)) [] [] s) t"
| session_disconnecting: "session E toStd opts b s \<Longrightarrow> event_Type ev = Disconnecting \<Longrightarrow>
    ProcessEvent E toStd opts ev s = Some t \<Longrightarrow> session E toStd opts False (port_closed t)"
| session_other: "session E toStd opts b s \<Longrightarrow> event_Type ev = OtherEvent k \<Longrightarrow>
    ProcessEvent E toStd opts ev s = Some t \<Longrightarrow> session E toStd opts b t"
| session_running: "session E toStd opts True s \<Longrightarrow> handler_step E s t \<Longrightarrow> session E toStd opts True t"

lemma session_state:
  "session E toStd opts b s \<Longrightarrow> conversions_fit E \<Longrightarrow> if b then handler_reach E s else handler_idle s"
proof (induction rule: session.induct)
  case (session_connected s ev t)
  then have "handler_idle s" by simp
  from start_result [OF this \<open>conversions_fit E\<close>, of toStd "rules opts" "wide ''127.0.0.1''" "socks_port (InboundData ev)" "[]" "[]"]
  show ?case using session_connected.hyps(2,3) by (auto simp: ProcessEvent_def Let_def)
next
  case (session_disconnecting b s ev t)
  then have "t = NetFilterCore_Stop E s" by (simp add: ProcessEvent_def)
  then show ?case using session_disconnecting Stop_idle Stop_running
    by (cases b) (simp_all add: port_closed_idle)
qed (auto simp: ProcessEvent_def NetFilterCore_ctor_idle intro: handler_run)

lemma ProcessEvent_total:
  assumes "handler_idle s \<or> event_Type ev \<noteq> Connected" "conversions_fit E"
  shows "\<exists>t. ProcessEvent E toStd opts ev s = Some t"
  using assms(1) start_result [of s E toStd "rules opts" "wide ''127.0.0.1''" "socks_port (InboundData ev)" "[]" "[]"] assms(2)
  by (cases "event_Type ev") (auto simp: ProcessEvent_def Let_def)

section \<open>Properties\<close>

text \<open>
  C5: through its whole life the plugin is either idle or running, in the sense of the theorems about
  those states, whichever connections succeed or fail to start and whether or not requests are
  pending when it is disconnected; and it survives each event of the host that comes in order: a
  connection when it is idle, everything else at any moment.
\<close>

theorem session_safe:
  assumes "session E toStd opts b s" "conversions_fit E"
  shows "(if b then handler_reach E s else handler_idle s) \<and>
    (\<not> b \<or> event_Type ev \<noteq> Connected \<longrightarrow> (\<exists>t. ProcessEvent E toStd opts ev s = Some t))"
  using session_state [OF assms] ProcessEvent_total [OF _ assms(2)] by (cases b) auto

definition example_connect :: EventObject where
  "example_connect = \<lparr>event_Type = Connected, InboundData =
     [(wide ''in0'', wide ''http'', [], 8080), (wide ''in1'', wide ''socks'', [], 1080)]\<rparr>"

definition example_plugin :: event_handler where
  "example_plugin = NetFilterCore_ctor rules_env example_handler_idle"

lemma example_session: "session rules_env ascii default_options False example_plugin"
  unfolding example_plugin_def
  by (rule session_created) (simp add: blank_def example_handler_idle_def example_idle_def udp_proxy.defs)

lemma example_plugin_starts:
  "\<exists>s. UDPProxy_init rules_env (example_address @ replicate 12 0) 16 [] []
     (example_plugin\<lparr>g_proxyAddress := example_address @ replicate 12 0\<rparr>) = Some (True, s)"
  by (simp add: UDPProxy_init_def initExtensions_def IOCPService_init_def sys_def emit_eq example_plugin_def example_handler_idle_def
      NetFilterCore_ctor_def EventHandler_ctor_def IOCPService_ctor_def AutoEventHandle_ctor_def AutoHandle_ctor_def
      rules_env_def fresh_env_def example_env_def example_idle_def Attach_def Let_def memcpy_from_def rdn_def
      example_address_def wrn_def INVALID_SOCKET_def INVALID_HANDLE_VALUE_def NF_MAX_ADDRESS_LENGTH_def udp_proxy.defs)

lemma example_started: "handler_started rules_env ascii address port [] [] example_plugin"
proof -
  have "string_to_address rules_env w f = Some example_address" for w f
    by (simp add: rules_env_def handler_env_def)
  then show ?thesis
    using example_plugin_starts
    by (auto simp: handler_started_def EventHandler_init_def ascii_def example_address_size Let_def)
qed

lemma example_session_started:
  "\<exists>t. ProcessEvent rules_env ascii default_options example_connect example_plugin = Some t \<and>
     session rules_env ascii default_options True t"
proof -
  from session_state [OF example_session rules_env_ok(1)] have "handler_idle example_plugin" by simp
  then obtain t where t: "ProcessEvent rules_env ascii default_options example_connect example_plugin = Some t"
    using ProcessEvent_total [OF _ rules_env_ok(1)] by blast
  from session_connected [OF example_session _ t] t example_started show ?thesis
    by (simp add: example_connect_def)
qed

theorem session_safe_witness:
  "\<exists>t. ProcessEvent rules_env ascii default_options example_connect example_plugin = Some t \<and> handler_reach rules_env t"
proof -
  from example_session_started obtain t where
    t: "ProcessEvent rules_env ascii default_options example_connect example_plugin = Some t"
      "session rules_env ascii default_options True t" by blast
  from session_safe [OF t(2) rules_env_ok(1)] t(1) show ?thesis by auto
qed

text \<open>
  C6: a disconnection, even one that comes while requests are pending, closes every socket the plugin
  has opened, once each, forgets all connections to the proxy, all requests and all UDP endpoints, and
  its last call releases the driver. The table of the redirected TCP connections is not among what it
  forgets: it is kept as it is.
\<close>

theorem disconnecting_closes_all:
  assumes "session E toStd opts b s" "conversions_fit E" "event_Type ev = Disconnecting"
  shows "\<exists>t. ProcessEvent E toStd opts ev s = Some t \<and>
    mset (opened_sockets (trace t)) = mset (closed_sockets (trace t)) \<and>
    m_socketMap t = [] \<and> m_ovDataSet t = [] \<and> m_udpCtxMap t = [] \<and> m_connInfoMap t = m_connInfoMap s \<and>
    fst (last (trace t)) = Nf Free"
proof -
  let ?f = "EventHandler_free E s"
  have "ProcessEvent E toStd opts ev s = Some (emit E (Nf Free) ?f)"
    using assms(3) by (simp add: ProcessEvent_def NetFilterCore_Stop_def)
  moreover have "mset (opened_sockets (trace ?f)) = mset (closed_sockets (trace ?f))"
    using session_state [OF assms(1,2)] handler_stop_closes EventHandler_free_idle
    by (cases b) (auto simp: handler_idle_def proxy_idle_def)
  ultimately show ?thesis by (simp add: EventHandler_free_fields emit_eq)
qed

theorem disconnecting_closes_all_witness:
  "\<exists>s t. ProcessEvent rules_env ascii default_options example_connect example_plugin = Some s \<and>
    ProcessEvent rules_env ascii default_options \<lparr>event_Type = Disconnecting, InboundData = []\<rparr> s = Some t \<and>
    mset (opened_sockets (trace t)) = mset (closed_sockets (trace t))"
proof -
  from example_session_started obtain s where
    s: "ProcessEvent rules_env ascii default_options example_connect example_plugin = Some s"
      "session rules_env ascii default_options True s" by blast
  from disconnecting_closes_all [OF s(2) rules_env_ok(1), of "\<lparr>event_Type = Disconnecting, InboundData = []\<rparr>"] s(1)
  show ?thesis by auto
qed

text \<open>
  A connection starts the proxy with the rules of the settings and the port of the first inbound
  whose protocol is SOCKS, and the decimal text of the port in the address denotes it; without such
  an inbound it starts all the same, on port 0.
\<close>

lemma connected_uses_first_socks:
  assumes "event_Type ev = Connected"
  shows "\<exists>port. port = (case find (\<lambda>(tag, proto, addr, p). proto = wide ''socks'') (InboundData ev) of
       Some (tag, proto, addr, p) \<Rightarrow> p | None \<Rightarrow> 0) \<and>
     ProcessEvent E toStd opts ev s =
       map_option snd (NetFilterCore_Start E toStd (rules opts) (wide ''127.0.0.1'') port [] [] s) \<and>
     text_int (QString_number port) = sint port"
proof -
  have "socks_port xs = (case find (\<lambda>(tag, proto, addr, p). proto = wide ''socks'') xs of
      Some (tag, proto, addr, p) \<Rightarrow> p | None \<Rightarrow> 0)" for xs
    by (induction xs rule: socks_port.induct) auto
  then show ?thesis
    using assms by (auto simp: ProcessEvent_def port_text Let_def map_option_case split: option.split Option.bind_split)
qed

end
