(* ===== verification/NF_Layout.thy ===== *)
theory NF_Layout
  imports NF_Types Packed
begin

text \<open>
  The rest of \<open>src/netfilter/include/nfdriver.h\<close>: the codes of the driver's requests, and the memory
  layout of every structure of the interface. The structures are packed, \<open>int\<close>, \<open>unsigned long\<close> have
  four bytes and \<open>wchar_t\<close> two, so a structure is the concatenation of its fields. For a structure
  \<open>X\<close>, \<open>enc_X\<close> is the memory of an object, \<open>get_X\<close> reads one and returns the rest of the buffer, \<open>dec_X\<close>
  reads one through a pointer, and \<open>ok_X\<close> says that the arrays have their declared lengths. Each
  is a \<open>packed_layout\<close>.
\<close>

section \<open>Codes\<close>

definition NF_TCP_PACKET_BUF_SIZE :: nat where "NF_TCP_PACKET_BUF_SIZE = 8192"
definition NF_UDP_PACKET_BUF_SIZE :: nat where "NF_UDP_PACKET_BUF_SIZE = 2 * 65536"

datatype NF_DATA_CODE =
    NF_TCP_CONNECTED | NF_TCP_CLOSED | NF_TCP_RECEIVE | NF_TCP_SEND | NF_TCP_CAN_RECEIVE
  | NF_TCP_CAN_SEND | NF_TCP_REQ_SUSPEND | NF_TCP_REQ_RESUME
  | NF_UDP_CREATED | NF_UDP_CLOSED | NF_UDP_RECEIVE | NF_UDP_SEND | NF_UDP_CAN_RECEIVE
  | NF_UDP_CAN_SEND | NF_UDP_REQ_SUSPEND | NF_UDP_REQ_RESUME
  | NF_REQ_ADD_HEAD_RULE | NF_REQ_ADD_TAIL_RULE | NF_REQ_DELETE_RULES
  | NF_TCP_CONNECT_REQUEST | NF_UDP_CONNECT_REQUEST
  | NF_TCP_DISABLE_USER_MODE_FILTERING | NF_UDP_DISABLE_USER_MODE_FILTERING
  | NF_REQ_SET_TCP_OPT | NF_REQ_IS_PROXY
  | NF_TCP_REINJECT | NF_TCP_REMOVE_CLOSED | NF_TCP_DEFERRED_DISCONNECT
  | NF_IP_RECEIVE | NF_IP_SEND | NF_TCP_RECEIVE_PUSH

text \<open>Enumerators without values count from zero.\<close>

definition data_codes :: "NF_DATA_CODE list" where
  "data_codes =
     [NF_TCP_CONNECTED, NF_TCP_CLOSED, NF_TCP_RECEIVE, NF_TCP_SEND, NF_TCP_CAN_RECEIVE,
      NF_TCP_CAN_SEND, NF_TCP_REQ_SUSPEND, NF_TCP_REQ_RESUME,
      NF_UDP_CREATED, NF_UDP_CLOSED, NF_UDP_RECEIVE, NF_UDP_SEND, NF_UDP_CAN_RECEIVE,
      NF_UDP_CAN_SEND, NF_UDP_REQ_SUSPEND, NF_UDP_REQ_RESUME,
      NF_REQ_ADD_HEAD_RULE, NF_REQ_ADD_TAIL_RULE, NF_REQ_DELETE_RULES,
      NF_TCP_CONNECT_REQUEST, NF_UDP_CONNECT_REQUEST,
      NF_TCP_DISABLE_USER_MODE_FILTERING, NF_UDP_DISABLE_USER_MODE_FILTERING,
      NF_REQ_SET_TCP_OPT, NF_REQ_IS_PROXY,
      NF_TCP_REINJECT, NF_TCP_REMOVE_CLOSED, NF_TCP_DEFERRED_DISCONNECT,
      NF_IP_RECEIVE, NF_IP_SEND, NF_TCP_RECEIVE_PUSH]"

fun data_code :: "NF_DATA_CODE \<Rightarrow> u32" where
  "data_code NF_TCP_CONNECTED = 0"
| "data_code NF_TCP_CLOSED = 1"
| "data_code NF_TCP_RECEIVE = 2"
| "data_code NF_TCP_SEND = 3"
| "data_code NF_TCP_CAN_RECEIVE = 4"
| "data_code NF_TCP_CAN_SEND = 5"
| "data_code NF_TCP_REQ_SUSPEND = 6"
| "data_code NF_TCP_REQ_RESUME = 7"
| "data_code NF_UDP_CREATED = 8"
| "data_code NF_UDP_CLOSED = 9"
| "data_code NF_UDP_RECEIVE = 10"
| "data_code NF_UDP_SEND = 11"
| "data_code NF_UDP_CAN_RECEIVE = 12"
| "data_code NF_UDP_CAN_SEND = 13"
| "data_code NF_UDP_REQ_SUSPEND = 14"
| "data_code NF_UDP_REQ_RESUME = 15"
| "data_code NF_REQ_ADD_HEAD_RULE = 16"
| "data_code NF_REQ_ADD_TAIL_RULE = 17"
| "data_code NF_REQ_DELETE_RULES = 18"
| "data_code NF_TCP_CONNECT_REQUEST = 19"
| "data_code NF_UDP_CONNECT_REQUEST = 20"
| "data_code NF_TCP_DISABLE_USER_MODE_FILTERING = 21"
| "data_code NF_UDP_DISABLE_USER_MODE_FILTERING = 22"
| "data_code NF_REQ_SET_TCP_OPT = 23"
| "data_code NF_REQ_IS_PROXY = 24"
| "data_code NF_TCP_REINJECT = 25"
| "data_code NF_TCP_REMOVE_CLOSED = 26"
| "data_code NF_TCP_DEFERRED_DISCONNECT = 27"
| "data_code NF_IP_RECEIVE = 28"
| "data_code NF_IP_SEND = 29"
| "data_code NF_TCP_RECEIVE_PUSH = 30"

definition data_code_of :: "u32 \<Rightarrow> NF_DATA_CODE option" where
  "data_code_of w = (if unat w < length data_codes then Some (data_codes ! unat w) else None)"

lemma data_code_of_code: "data_code_of (data_code c) = Some c"
  by (cases c) (simp_all add: data_code_of_def data_codes_def)

lemma data_code_inject: "data_code c = data_code d \<longleftrightarrow> c = d"
  using data_code_of_code by (metis option.inject)

datatype TCP_SOCKET_OPTION =
    TCP_SOCKET_NODELAY | TCP_SOCKET_KEEPALIVE | TCP_SOCKET_OOBINLINE | TCP_SOCKET_BSDURGENT
  | TCP_SOCKET_ATMARK | TCP_SOCKET_WINDOW

fun tcp_socket_option :: "TCP_SOCKET_OPTION \<Rightarrow> u32" where
  "tcp_socket_option TCP_SOCKET_NODELAY = 1"
| "tcp_socket_option TCP_SOCKET_KEEPALIVE = 2"
| "tcp_socket_option TCP_SOCKET_OOBINLINE = 3"
| "tcp_socket_option TCP_SOCKET_BSDURGENT = 4"
| "tcp_socket_option TCP_SOCKET_ATMARK = 5"
| "tcp_socket_option TCP_SOCKET_WINDOW = 6"

datatype NF_IP_FLAG = NFIF_NONE | NFIF_READONLY

fun ip_flag_value :: "NF_IP_FLAG \<Rightarrow> u32" where
  "ip_flag_value NFIF_NONE = 0"
| "ip_flag_value NFIF_READONLY = 1"

datatype NF_DRIVER_TYPE = DT_UNKNOWN | DT_TDI | DT_WFP

fun driver_type_value :: "NF_DRIVER_TYPE \<Rightarrow> u32" where
  "driver_type_value DT_UNKNOWN = 0"
| "driver_type_value DT_TDI = 1"
| "driver_type_value DT_WFP = 2"

text \<open>
  From \<open>src/netfilter/include/nfapi.h\<close>: the flags of \<open>NF_UDP_OPTIONS\<close> and of \<open>nf_setOptions\<close> (which
  the plugin does not call: it runs with one thread and no flags).
\<close>

datatype TDI_RECEIVE =
    TDI_RECEIVE_BROADCAST | TDI_RECEIVE_MULTICAST | TDI_RECEIVE_PARTIAL | TDI_RECEIVE_NORMAL | TDI_RECEIVE_EXPEDITED
  | TDI_RECEIVE_PEEK | TDI_RECEIVE_NO_RESPONSE_EXP | TDI_RECEIVE_COPY_LOOKAHEAD | TDI_RECEIVE_ENTIRE_MESSAGE
  | TDI_RECEIVE_AT_DISPATCH_LEVEL | TDI_RECEIVE_CONTROL_INFO | TDI_RECEIVE_FORCE_INDICATION | TDI_RECEIVE_NO_PUSH

fun tdi_receive_value :: "TDI_RECEIVE \<Rightarrow> u32" where
  "tdi_receive_value TDI_RECEIVE_BROADCAST = 0x00000004"
| "tdi_receive_value TDI_RECEIVE_MULTICAST = 0x00000008"
| "tdi_receive_value TDI_RECEIVE_PARTIAL = 0x00000010"
| "tdi_receive_value TDI_RECEIVE_NORMAL = 0x00000020"
| "tdi_receive_value TDI_RECEIVE_EXPEDITED = 0x00000040"
| "tdi_receive_value TDI_RECEIVE_PEEK = 0x00000080"
| "tdi_receive_value TDI_RECEIVE_NO_RESPONSE_EXP = 0x00000100"
| "tdi_receive_value TDI_RECEIVE_COPY_LOOKAHEAD = 0x00000200"
| "tdi_receive_value TDI_RECEIVE_ENTIRE_MESSAGE = 0x00000400"
| "tdi_receive_value TDI_RECEIVE_AT_DISPATCH_LEVEL = 0x00000800"
| "tdi_receive_value TDI_RECEIVE_CONTROL_INFO = 0x00001000"
| "tdi_receive_value TDI_RECEIVE_FORCE_INDICATION = 0x00002000"
| "tdi_receive_value TDI_RECEIVE_NO_PUSH = 0x00004000"

datatype NF_FLAGS =
    NFF_NONE | NFF_DONT_DISABLE_TEREDO | NFF_DONT_DISABLE_TCP_OFFLOADING | NFF_DISABLE_AUTO_REGISTER
  | NFF_DISABLE_AUTO_START

fun init_flag_value :: "NF_FLAGS \<Rightarrow> u32" where
  "init_flag_value NFF_NONE = 0"
| "init_flag_value NFF_DONT_DISABLE_TEREDO = 1"
| "init_flag_value NFF_DONT_DISABLE_TCP_OFFLOADING = 2"
| "init_flag_value NFF_DISABLE_AUTO_REGISTER = 4"
| "init_flag_value NFF_DISABLE_AUTO_START = 8"

text \<open>Different flags of \<open>NF_UDP_OPTIONS\<close> have no bit in common, so a word of flags is a set of them.\<close>

lemma tdi_receive_disjoint: "f \<noteq> g \<Longrightarrow> tdi_receive_value f AND tdi_receive_value g = 0"
  by (cases f; cases g) simp_all

lemmas layout_consts = NF_MAX_ADDRESS_LENGTH_def NF_MAX_IP_ADDRESS_LENGTH_def MAX_PATH_def


section \<open>Rules\<close>

definition sizeof_NF_PORT_RANGE :: nat where "sizeof_NF_PORT_RANGE = 4"

definition enc_NF_PORT_RANGE :: "NF_PORT_RANGE \<Rightarrow> bytes" where
  "enc_NF_PORT_RANGE r =
     le16 (valueLow r) @ le16 (valueHigh r)"

definition get_NF_PORT_RANGE :: "bytes \<Rightarrow> (NF_PORT_RANGE \<times> bytes) option" where
  "get_NF_PORT_RANGE b = do {
     (valueLow, b) \<leftarrow> get16 b;
     (valueHigh, b) \<leftarrow> get16 b;
     Some (\<lparr>valueLow = valueLow, valueHigh = valueHigh\<rparr>, b)
   }"

lemma get_NF_PORT_RANGE_iff [field_simps]: "get_NF_PORT_RANGE b = Some (x, r) \<longleftrightarrow> b = enc_NF_PORT_RANGE x @ r"
  by (cases x) (auto simp: get_NF_PORT_RANGE_def enc_NF_PORT_RANGE_def bind_eq_Some_conv field_simps)

lemma length_NF_PORT_RANGE [field_simps]: "length (enc_NF_PORT_RANGE x) = 4"
  by (simp add: enc_NF_PORT_RANGE_def field_simps layout_consts)

lemma get_NF_PORT_RANGE_total [field_total]:
  "4 \<le> length b \<Longrightarrow> get_NF_PORT_RANGE b = Some (field_value get_NF_PORT_RANGE b, drop 4 b)"
  by (rule field_valueI) (simp add: get_NF_PORT_RANGE_def layout_consts field_total)

definition dec_NF_PORT_RANGE :: "bytes \<Rightarrow> NF_PORT_RANGE option" where
  "dec_NF_PORT_RANGE b = map_option fst (get_NF_PORT_RANGE b)"

interpretation port_range: packed_layout sizeof_NF_PORT_RANGE enc_NF_PORT_RANGE dec_NF_PORT_RANGE "\<lambda>_. True"
  by (rule packed_layoutI) (auto simp: dec_NF_PORT_RANGE_def sizeof_NF_PORT_RANGE_def field_simps field_total)

definition sizeof_NF_RULE :: nat where "sizeof_NF_RULE = 83"

definition enc_NF_RULE :: "NF_RULE \<Rightarrow> bytes" where
  "enc_NF_RULE r =
     le32 (protocol r) @ le32 (processId r) @ [direction r] @ le16 (localPort r) @
     le16 (remotePort r) @ le16 (ip_family r) @ localIpAddress r @ localIpAddressMask r @
     remoteIpAddress r @ remoteIpAddressMask r @ le32 (filteringFlag r)"

definition ok_NF_RULE :: "NF_RULE \<Rightarrow> bool" where
  "ok_NF_RULE r \<longleftrightarrow>
     length (localIpAddress r) = NF_MAX_IP_ADDRESS_LENGTH \<and>
     length (localIpAddressMask r) = NF_MAX_IP_ADDRESS_LENGTH \<and>
     length (remoteIpAddress r) = NF_MAX_IP_ADDRESS_LENGTH \<and>
     length (remoteIpAddressMask r) = NF_MAX_IP_ADDRESS_LENGTH"

definition get_NF_RULE :: "bytes \<Rightarrow> (NF_RULE \<times> bytes) option" where
  "get_NF_RULE b = do {
     (protocol, b) \<leftarrow> get32 b;
     (processId, b) \<leftarrow> get32 b;
     (direction, b) \<leftarrow> get8 b;
     (localPort, b) \<leftarrow> get16 b;
     (remotePort, b) \<leftarrow> get16 b;
     (ip_family, b) \<leftarrow> get16 b;
     (localIpAddress, b) \<leftarrow> getn NF_MAX_IP_ADDRESS_LENGTH b;
     (localIpAddressMask, b) \<leftarrow> getn NF_MAX_IP_ADDRESS_LENGTH b;
     (remoteIpAddress, b) \<leftarrow> getn NF_MAX_IP_ADDRESS_LENGTH b;
     (remoteIpAddressMask, b) \<leftarrow> getn NF_MAX_IP_ADDRESS_LENGTH b;
     (filteringFlag, b) \<leftarrow> get32 b;
     Some (\<lparr>protocol = protocol, processId = processId, direction = direction,
       localPort = localPort, remotePort = remotePort, ip_family = ip_family,
       localIpAddress = localIpAddress, localIpAddressMask = localIpAddressMask,
       remoteIpAddress = remoteIpAddress, remoteIpAddressMask = remoteIpAddressMask,
       filteringFlag = filteringFlag\<rparr>, b)
   }"

lemma get_NF_RULE_iff [field_simps]: "get_NF_RULE b = Some (x, r) \<longleftrightarrow> ok_NF_RULE x \<and> b = enc_NF_RULE x @ r"
  by (cases x) (auto simp: get_NF_RULE_def enc_NF_RULE_def ok_NF_RULE_def bind_eq_Some_conv field_simps)

lemma length_NF_RULE [field_simps]: "ok_NF_RULE x \<Longrightarrow> length (enc_NF_RULE x) = 83"
  by (simp add: enc_NF_RULE_def ok_NF_RULE_def field_simps layout_consts)

lemma get_NF_RULE_total [field_total]:
  "83 \<le> length b \<Longrightarrow> get_NF_RULE b = Some (field_value get_NF_RULE b, drop 83 b)"
  by (rule field_valueI) (simp add: get_NF_RULE_def layout_consts field_total)

definition dec_NF_RULE :: "bytes \<Rightarrow> NF_RULE option" where
  "dec_NF_RULE b = map_option fst (get_NF_RULE b)"

interpretation rule: packed_layout sizeof_NF_RULE enc_NF_RULE dec_NF_RULE ok_NF_RULE
  by (rule packed_layoutI) (auto simp: dec_NF_RULE_def sizeof_NF_RULE_def field_simps field_total)

definition sizeof_NF_RULE_EX :: nat where "sizeof_NF_RULE_EX = 643"

definition enc_NF_RULE_EX :: "NF_RULE_EX \<Rightarrow> bytes" where
  "enc_NF_RULE_EX r =
     le32 (protocol r) @ le32 (processId r) @ [direction r] @ le16 (localPort r) @
     le16 (remotePort r) @ le16 (ip_family r) @ localIpAddress r @ localIpAddressMask r @
     remoteIpAddress r @ remoteIpAddressMask r @ le32 (filteringFlag r) @
     le16s (processName r) @ enc_NF_PORT_RANGE (localPortRange r) @
     enc_NF_PORT_RANGE (remotePortRange r) @ redirectTo r @ le32 (localProxyProcessId r)"

definition ok_NF_RULE_EX :: "NF_RULE_EX \<Rightarrow> bool" where
  "ok_NF_RULE_EX r \<longleftrightarrow>
     length (localIpAddress r) = NF_MAX_IP_ADDRESS_LENGTH \<and>
     length (localIpAddressMask r) = NF_MAX_IP_ADDRESS_LENGTH \<and>
     length (remoteIpAddress r) = NF_MAX_IP_ADDRESS_LENGTH \<and>
     length (remoteIpAddressMask r) = NF_MAX_IP_ADDRESS_LENGTH \<and>
     length (processName r) = MAX_PATH \<and> length (redirectTo r) = NF_MAX_ADDRESS_LENGTH"

definition get_NF_RULE_EX :: "bytes \<Rightarrow> (NF_RULE_EX \<times> bytes) option" where
  "get_NF_RULE_EX b = do {
     (protocol, b) \<leftarrow> get32 b;
     (processId, b) \<leftarrow> get32 b;
     (direction, b) \<leftarrow> get8 b;
     (localPort, b) \<leftarrow> get16 b;
     (remotePort, b) \<leftarrow> get16 b;
     (ip_family, b) \<leftarrow> get16 b;
     (localIpAddress, b) \<leftarrow> getn NF_MAX_IP_ADDRESS_LENGTH b;
     (localIpAddressMask, b) \<leftarrow> getn NF_MAX_IP_ADDRESS_LENGTH b;
     (remoteIpAddress, b) \<leftarrow> getn NF_MAX_IP_ADDRESS_LENGTH b;
     (remoteIpAddressMask, b) \<leftarrow> getn NF_MAX_IP_ADDRESS_LENGTH b;
     (filteringFlag, b) \<leftarrow> get32 b;
     (processName, b) \<leftarrow> get16s MAX_PATH b;
     (localPortRange, b) \<leftarrow> get_NF_PORT_RANGE b;
     (remotePortRange, b) \<leftarrow> get_NF_PORT_RANGE b;
     (redirectTo, b) \<leftarrow> getn NF_MAX_ADDRESS_LENGTH b;
     (localProxyProcessId, b) \<leftarrow> get32 b;
     Some (\<lparr>protocol = protocol, processId = processId, direction = direction,
       localPort = localPort, remotePort = remotePort, ip_family = ip_family,
       localIpAddress = localIpAddress, localIpAddressMask = localIpAddressMask,
       remoteIpAddress = remoteIpAddress, remoteIpAddressMask = remoteIpAddressMask,
       filteringFlag = filteringFlag, processName = processName,
       localPortRange = localPortRange, remotePortRange = remotePortRange,
       redirectTo = redirectTo, localProxyProcessId = localProxyProcessId\<rparr>, b)
   }"

lemma get_NF_RULE_EX_iff [field_simps]: "get_NF_RULE_EX b = Some (x, r) \<longleftrightarrow> ok_NF_RULE_EX x \<and> b = enc_NF_RULE_EX x @ r"
  by (cases x) (auto simp: get_NF_RULE_EX_def enc_NF_RULE_EX_def ok_NF_RULE_EX_def bind_eq_Some_conv field_simps)

lemma length_NF_RULE_EX [field_simps]: "ok_NF_RULE_EX x \<Longrightarrow> length (enc_NF_RULE_EX x) = 643"
  by (simp add: enc_NF_RULE_EX_def ok_NF_RULE_EX_def field_simps layout_consts)

lemma get_NF_RULE_EX_total [field_total]:
  "643 \<le> length b \<Longrightarrow> get_NF_RULE_EX b = Some (field_value get_NF_RULE_EX b, drop 643 b)"
  by (rule field_valueI) (simp add: get_NF_RULE_EX_def layout_consts field_total)

definition dec_NF_RULE_EX :: "bytes \<Rightarrow> NF_RULE_EX option" where
  "dec_NF_RULE_EX b = map_option fst (get_NF_RULE_EX b)"

interpretation rule_ex: packed_layout sizeof_NF_RULE_EX enc_NF_RULE_EX dec_NF_RULE_EX ok_NF_RULE_EX
  by (rule packed_layoutI) (auto simp: dec_NF_RULE_EX_def sizeof_NF_RULE_EX_def field_simps field_total)

record NF_BINDING_RULE =
  bi_protocol :: u32
  bi_processId :: u32
  bi_processName :: wstring
  bi_localPort :: u16
  bi_ip_family :: u16
  bi_localIpAddress :: bytes
  bi_localIpAddressMask :: bytes
  bi_newLocalIpAddress :: bytes
  bi_newLocalPort :: u16
  bi_filteringFlag :: u32

definition sizeof_NF_BINDING_RULE :: nat where "sizeof_NF_BINDING_RULE = 586"

definition enc_NF_BINDING_RULE :: "NF_BINDING_RULE \<Rightarrow> bytes" where
  "enc_NF_BINDING_RULE r =
     le32 (bi_protocol r) @ le32 (bi_processId r) @ le16s (bi_processName r) @
     le16 (bi_localPort r) @ le16 (bi_ip_family r) @ bi_localIpAddress r @
     bi_localIpAddressMask r @ bi_newLocalIpAddress r @ le16 (bi_newLocalPort r) @
     le32 (bi_filteringFlag r)"

definition ok_NF_BINDING_RULE :: "NF_BINDING_RULE \<Rightarrow> bool" where
  "ok_NF_BINDING_RULE r \<longleftrightarrow>
     length (bi_processName r) = MAX_PATH \<and>
     length (bi_localIpAddress r) = NF_MAX_IP_ADDRESS_LENGTH \<and>
     length (bi_localIpAddressMask r) = NF_MAX_IP_ADDRESS_LENGTH \<and>
     length (bi_newLocalIpAddress r) = NF_MAX_IP_ADDRESS_LENGTH"

definition get_NF_BINDING_RULE :: "bytes \<Rightarrow> (NF_BINDING_RULE \<times> bytes) option" where
  "get_NF_BINDING_RULE b = do {
     (protocol, b) \<leftarrow> get32 b;
     (processId, b) \<leftarrow> get32 b;
     (processName, b) \<leftarrow> get16s MAX_PATH b;
     (localPort, b) \<leftarrow> get16 b;
     (ip_family, b) \<leftarrow> get16 b;
     (localIpAddress, b) \<leftarrow> getn NF_MAX_IP_ADDRESS_LENGTH b;
     (localIpAddressMask, b) \<leftarrow> getn NF_MAX_IP_ADDRESS_LENGTH b;
     (newLocalIpAddress, b) \<leftarrow> getn NF_MAX_IP_ADDRESS_LENGTH b;
     (newLocalPort, b) \<leftarrow> get16 b;
     (filteringFlag, b) \<leftarrow> get32 b;
     Some (\<lparr>bi_protocol = protocol, bi_processId = processId, bi_processName = processName,
       bi_localPort = localPort, bi_ip_family = ip_family,
       bi_localIpAddress = localIpAddress, bi_localIpAddressMask = localIpAddressMask,
       bi_newLocalIpAddress = newLocalIpAddress, bi_newLocalPort = newLocalPort,
       bi_filteringFlag = filteringFlag\<rparr>, b)
   }"

lemma get_NF_BINDING_RULE_iff [field_simps]: "get_NF_BINDING_RULE b = Some (x, r) \<longleftrightarrow> ok_NF_BINDING_RULE x \<and> b = enc_NF_BINDING_RULE x @ r"
  by (cases x) (auto simp: get_NF_BINDING_RULE_def enc_NF_BINDING_RULE_def ok_NF_BINDING_RULE_def bind_eq_Some_conv field_simps)

lemma length_NF_BINDING_RULE [field_simps]: "ok_NF_BINDING_RULE x \<Longrightarrow> length (enc_NF_BINDING_RULE x) = 586"
  by (simp add: enc_NF_BINDING_RULE_def ok_NF_BINDING_RULE_def field_simps layout_consts)

lemma get_NF_BINDING_RULE_total [field_total]:
  "586 \<le> length b \<Longrightarrow> get_NF_BINDING_RULE b = Some (field_value get_NF_BINDING_RULE b, drop 586 b)"
  by (rule field_valueI) (simp add: get_NF_BINDING_RULE_def layout_consts field_total)

definition dec_NF_BINDING_RULE :: "bytes \<Rightarrow> NF_BINDING_RULE option" where
  "dec_NF_BINDING_RULE b = map_option fst (get_NF_BINDING_RULE b)"

interpretation binding_rule: packed_layout sizeof_NF_BINDING_RULE enc_NF_BINDING_RULE dec_NF_BINDING_RULE ok_NF_BINDING_RULE
  by (rule packed_layoutI) (auto simp: dec_NF_BINDING_RULE_def sizeof_NF_BINDING_RULE_def field_simps field_total)

section \<open>Connections\<close>

definition sizeof_NF_TCP_CONN_INFO :: nat where "sizeof_NF_TCP_CONN_INFO = 67"

definition enc_NF_TCP_CONN_INFO :: "NF_TCP_CONN_INFO \<Rightarrow> bytes" where
  "enc_NF_TCP_CONN_INFO r =
     le32 (ci_filteringFlag r) @ le32 (ci_processId r) @ [ci_direction r] @
     le16 (ci_ip_family r) @ ci_localAddress r @ ci_remoteAddress r"

definition get_NF_TCP_CONN_INFO :: "bytes \<Rightarrow> (NF_TCP_CONN_INFO \<times> bytes) option" where
  "get_NF_TCP_CONN_INFO b = do {
     (filteringFlag, b) \<leftarrow> get32 b;
     (processId, b) \<leftarrow> get32 b;
     (direction, b) \<leftarrow> get8 b;
     (ip_family, b) \<leftarrow> get16 b;
     (localAddress, b) \<leftarrow> getn NF_MAX_ADDRESS_LENGTH b;
     (remoteAddress, b) \<leftarrow> getn NF_MAX_ADDRESS_LENGTH b;
     Some (\<lparr>ci_filteringFlag = filteringFlag, ci_processId = processId, ci_direction = direction,
       ci_ip_family = ip_family, ci_localAddress = localAddress,
       ci_remoteAddress = remoteAddress\<rparr>, b)
   }"

lemma get_NF_TCP_CONN_INFO_iff [field_simps]: "get_NF_TCP_CONN_INFO b = Some (x, r) \<longleftrightarrow> tcp_conn_info_ok x \<and> b = enc_NF_TCP_CONN_INFO x @ r"
  by (cases x) (auto simp: get_NF_TCP_CONN_INFO_def enc_NF_TCP_CONN_INFO_def tcp_conn_info_ok_def bind_eq_Some_conv field_simps)

lemma length_NF_TCP_CONN_INFO [field_simps]: "tcp_conn_info_ok x \<Longrightarrow> length (enc_NF_TCP_CONN_INFO x) = 67"
  by (simp add: enc_NF_TCP_CONN_INFO_def tcp_conn_info_ok_def field_simps layout_consts)

lemma get_NF_TCP_CONN_INFO_total [field_total]:
  "67 \<le> length b \<Longrightarrow> get_NF_TCP_CONN_INFO b = Some (field_value get_NF_TCP_CONN_INFO b, drop 67 b)"
  by (rule field_valueI) (simp add: get_NF_TCP_CONN_INFO_def layout_consts field_total)

definition dec_NF_TCP_CONN_INFO :: "bytes \<Rightarrow> NF_TCP_CONN_INFO option" where
  "dec_NF_TCP_CONN_INFO b = map_option fst (get_NF_TCP_CONN_INFO b)"

interpretation tcp_conn_info: packed_layout sizeof_NF_TCP_CONN_INFO enc_NF_TCP_CONN_INFO dec_NF_TCP_CONN_INFO tcp_conn_info_ok
  by (rule packed_layoutI) (auto simp: dec_NF_TCP_CONN_INFO_def sizeof_NF_TCP_CONN_INFO_def field_simps field_total)

definition sizeof_NF_UDP_CONN_INFO :: nat where "sizeof_NF_UDP_CONN_INFO = 34"

definition enc_NF_UDP_CONN_INFO :: "NF_UDP_CONN_INFO \<Rightarrow> bytes" where
  "enc_NF_UDP_CONN_INFO r =
     le32 (ui_processId r) @ le16 (ui_ip_family r) @ ui_localAddress r"

definition get_NF_UDP_CONN_INFO :: "bytes \<Rightarrow> (NF_UDP_CONN_INFO \<times> bytes) option" where
  "get_NF_UDP_CONN_INFO b = do {
     (processId, b) \<leftarrow> get32 b;
     (ip_family, b) \<leftarrow> get16 b;
     (localAddress, b) \<leftarrow> getn NF_MAX_ADDRESS_LENGTH b;
     Some (\<lparr>ui_processId = processId, ui_ip_family = ip_family, ui_localAddress = localAddress\<rparr>, b)
   }"

lemma get_NF_UDP_CONN_INFO_iff [field_simps]: "get_NF_UDP_CONN_INFO b = Some (x, r) \<longleftrightarrow> udp_conn_info_ok x \<and> b = enc_NF_UDP_CONN_INFO x @ r"
  by (cases x) (auto simp: get_NF_UDP_CONN_INFO_def enc_NF_UDP_CONN_INFO_def udp_conn_info_ok_def bind_eq_Some_conv field_simps)

lemma length_NF_UDP_CONN_INFO [field_simps]: "udp_conn_info_ok x \<Longrightarrow> length (enc_NF_UDP_CONN_INFO x) = 34"
  by (simp add: enc_NF_UDP_CONN_INFO_def udp_conn_info_ok_def field_simps layout_consts)

lemma get_NF_UDP_CONN_INFO_total [field_total]:
  "34 \<le> length b \<Longrightarrow> get_NF_UDP_CONN_INFO b = Some (field_value get_NF_UDP_CONN_INFO b, drop 34 b)"
  by (rule field_valueI) (simp add: get_NF_UDP_CONN_INFO_def layout_consts field_total)

definition dec_NF_UDP_CONN_INFO :: "bytes \<Rightarrow> NF_UDP_CONN_INFO option" where
  "dec_NF_UDP_CONN_INFO b = map_option fst (get_NF_UDP_CONN_INFO b)"

interpretation udp_conn_info: packed_layout sizeof_NF_UDP_CONN_INFO enc_NF_UDP_CONN_INFO dec_NF_UDP_CONN_INFO udp_conn_info_ok
  by (rule packed_layoutI) (auto simp: dec_NF_UDP_CONN_INFO_def sizeof_NF_UDP_CONN_INFO_def field_simps field_total)

record NF_UDP_CONN_REQUEST =
  ur_filteringFlag :: u32
  ur_processId :: u32
  ur_ip_family :: u16
  ur_localAddress :: bytes
  ur_remoteAddress :: bytes

definition sizeof_NF_UDP_CONN_REQUEST :: nat where "sizeof_NF_UDP_CONN_REQUEST = 66"

definition enc_NF_UDP_CONN_REQUEST :: "NF_UDP_CONN_REQUEST \<Rightarrow> bytes" where
  "enc_NF_UDP_CONN_REQUEST r =
     le32 (ur_filteringFlag r) @ le32 (ur_processId r) @ le16 (ur_ip_family r) @
     ur_localAddress r @ ur_remoteAddress r"

definition ok_NF_UDP_CONN_REQUEST :: "NF_UDP_CONN_REQUEST \<Rightarrow> bool" where
  "ok_NF_UDP_CONN_REQUEST r \<longleftrightarrow>
     length (ur_localAddress r) = NF_MAX_ADDRESS_LENGTH \<and>
     length (ur_remoteAddress r) = NF_MAX_ADDRESS_LENGTH"

definition get_NF_UDP_CONN_REQUEST :: "bytes \<Rightarrow> (NF_UDP_CONN_REQUEST \<times> bytes) option" where
  "get_NF_UDP_CONN_REQUEST b = do {
     (filteringFlag, b) \<leftarrow> get32 b;
     (processId, b) \<leftarrow> get32 b;
     (ip_family, b) \<leftarrow> get16 b;
     (localAddress, b) \<leftarrow> getn NF_MAX_ADDRESS_LENGTH b;
     (remoteAddress, b) \<leftarrow> getn NF_MAX_ADDRESS_LENGTH b;
     Some (\<lparr>ur_filteringFlag = filteringFlag, ur_processId = processId, ur_ip_family = ip_family,
       ur_localAddress = localAddress, ur_remoteAddress = remoteAddress\<rparr>, b)
   }"

lemma get_NF_UDP_CONN_REQUEST_iff [field_simps]: "get_NF_UDP_CONN_REQUEST b = Some (x, r) \<longleftrightarrow> ok_NF_UDP_CONN_REQUEST x \<and> b = enc_NF_UDP_CONN_REQUEST x @ r"
  by (cases x) (auto simp: get_NF_UDP_CONN_REQUEST_def enc_NF_UDP_CONN_REQUEST_def ok_NF_UDP_CONN_REQUEST_def bind_eq_Some_conv field_simps)

lemma length_NF_UDP_CONN_REQUEST [field_simps]: "ok_NF_UDP_CONN_REQUEST x \<Longrightarrow> length (enc_NF_UDP_CONN_REQUEST x) = 66"
  by (simp add: enc_NF_UDP_CONN_REQUEST_def ok_NF_UDP_CONN_REQUEST_def field_simps layout_consts)

lemma get_NF_UDP_CONN_REQUEST_total [field_total]:
  "66 \<le> length b \<Longrightarrow> get_NF_UDP_CONN_REQUEST b = Some (field_value get_NF_UDP_CONN_REQUEST b, drop 66 b)"
  by (rule field_valueI) (simp add: get_NF_UDP_CONN_REQUEST_def layout_consts field_total)

definition dec_NF_UDP_CONN_REQUEST :: "bytes \<Rightarrow> NF_UDP_CONN_REQUEST option" where
  "dec_NF_UDP_CONN_REQUEST b = map_option fst (get_NF_UDP_CONN_REQUEST b)"

interpretation udp_conn_request: packed_layout sizeof_NF_UDP_CONN_REQUEST enc_NF_UDP_CONN_REQUEST dec_NF_UDP_CONN_REQUEST ok_NF_UDP_CONN_REQUEST
  by (rule packed_layoutI) (auto simp: dec_NF_UDP_CONN_REQUEST_def sizeof_NF_UDP_CONN_REQUEST_def field_simps field_total)

text \<open>The declared structure, with one byte of options.\<close>

definition ok_NF_UDP_OPTIONS :: "NF_UDP_OPTIONS \<Rightarrow> bool" where
  "ok_NF_UDP_OPTIONS r \<longleftrightarrow>
     length (options r) = 1"

definition get_NF_UDP_OPTIONS :: "bytes \<Rightarrow> (NF_UDP_OPTIONS \<times> bytes) option" where
  "get_NF_UDP_OPTIONS b = do {
     (flags, b) \<leftarrow> get32 b;
     (optionsLength, b) \<leftarrow> get32 b;
     (options, b) \<leftarrow> getn 1 b;
     Some (\<lparr>flags = flags, optionsLength = optionsLength, options = options\<rparr>, b)
   }"

lemma get_NF_UDP_OPTIONS_iff [field_simps]: "get_NF_UDP_OPTIONS b = Some (x, r) \<longleftrightarrow> ok_NF_UDP_OPTIONS x \<and> b = enc_NF_UDP_OPTIONS x @ r"
  by (cases x) (auto simp: get_NF_UDP_OPTIONS_def enc_NF_UDP_OPTIONS_def ok_NF_UDP_OPTIONS_def bind_eq_Some_conv field_simps)

lemma length_NF_UDP_OPTIONS [field_simps]: "ok_NF_UDP_OPTIONS x \<Longrightarrow> length (enc_NF_UDP_OPTIONS x) = 9"
  by (simp add: enc_NF_UDP_OPTIONS_def ok_NF_UDP_OPTIONS_def field_simps layout_consts)

lemma get_NF_UDP_OPTIONS_total [field_total]:
  "9 \<le> length b \<Longrightarrow> get_NF_UDP_OPTIONS b = Some (field_value get_NF_UDP_OPTIONS b, drop 9 b)"
  by (rule field_valueI) (simp add: get_NF_UDP_OPTIONS_def layout_consts field_total)

definition dec_NF_UDP_OPTIONS :: "bytes \<Rightarrow> NF_UDP_OPTIONS option" where
  "dec_NF_UDP_OPTIONS b = map_option fst (get_NF_UDP_OPTIONS b)"

interpretation udp_options: packed_layout sizeof_NF_UDP_OPTIONS enc_NF_UDP_OPTIONS dec_NF_UDP_OPTIONS ok_NF_UDP_OPTIONS
  by (rule packed_layoutI) (auto simp: dec_NF_UDP_OPTIONS_def sizeof_NF_UDP_OPTIONS_def field_simps field_total)

record NF_IP_PACKET_OPTIONS =
  ipo_ip_family :: u16
  ipo_ipHeaderSize :: u32
  ipo_compartmentId :: u32
  ipo_interfaceIndex :: u32
  ipo_subInterfaceIndex :: u32
  ipo_flags :: u32

definition sizeof_NF_IP_PACKET_OPTIONS :: nat where "sizeof_NF_IP_PACKET_OPTIONS = 22"

definition enc_NF_IP_PACKET_OPTIONS :: "NF_IP_PACKET_OPTIONS \<Rightarrow> bytes" where
  "enc_NF_IP_PACKET_OPTIONS r =
     le16 (ipo_ip_family r) @ le32 (ipo_ipHeaderSize r) @ le32 (ipo_compartmentId r) @
     le32 (ipo_interfaceIndex r) @ le32 (ipo_subInterfaceIndex r) @ le32 (ipo_flags r)"

definition get_NF_IP_PACKET_OPTIONS :: "bytes \<Rightarrow> (NF_IP_PACKET_OPTIONS \<times> bytes) option" where
  "get_NF_IP_PACKET_OPTIONS b = do {
     (ip_family, b) \<leftarrow> get16 b;
     (ipHeaderSize, b) \<leftarrow> get32 b;
     (compartmentId, b) \<leftarrow> get32 b;
     (interfaceIndex, b) \<leftarrow> get32 b;
     (subInterfaceIndex, b) \<leftarrow> get32 b;
     (flags, b) \<leftarrow> get32 b;
     Some (\<lparr>ipo_ip_family = ip_family, ipo_ipHeaderSize = ipHeaderSize,
       ipo_compartmentId = compartmentId, ipo_interfaceIndex = interfaceIndex,
       ipo_subInterfaceIndex = subInterfaceIndex, ipo_flags = flags\<rparr>, b)
   }"

lemma get_NF_IP_PACKET_OPTIONS_iff [field_simps]: "get_NF_IP_PACKET_OPTIONS b = Some (x, r) \<longleftrightarrow> b = enc_NF_IP_PACKET_OPTIONS x @ r"
  by (cases x) (auto simp: get_NF_IP_PACKET_OPTIONS_def enc_NF_IP_PACKET_OPTIONS_def bind_eq_Some_conv field_simps)

lemma length_NF_IP_PACKET_OPTIONS [field_simps]: "length (enc_NF_IP_PACKET_OPTIONS x) = 22"
  by (simp add: enc_NF_IP_PACKET_OPTIONS_def field_simps layout_consts)

lemma get_NF_IP_PACKET_OPTIONS_total [field_total]:
  "22 \<le> length b \<Longrightarrow> get_NF_IP_PACKET_OPTIONS b = Some (field_value get_NF_IP_PACKET_OPTIONS b, drop 22 b)"
  by (rule field_valueI) (simp add: get_NF_IP_PACKET_OPTIONS_def layout_consts field_total)

definition dec_NF_IP_PACKET_OPTIONS :: "bytes \<Rightarrow> NF_IP_PACKET_OPTIONS option" where
  "dec_NF_IP_PACKET_OPTIONS b = map_option fst (get_NF_IP_PACKET_OPTIONS b)"

interpretation ip_packet_options: packed_layout sizeof_NF_IP_PACKET_OPTIONS enc_NF_IP_PACKET_OPTIONS dec_NF_IP_PACKET_OPTIONS "\<lambda>_. True"
  by (rule packed_layoutI) (auto simp: dec_NF_IP_PACKET_OPTIONS_def sizeof_NF_IP_PACKET_OPTIONS_def field_simps field_total)

section \<open>Requests to the driver\<close>

record NF_DATA =
  nd_code :: u32
  nd_id :: u64
  nd_bufferSize :: u32
  nd_buffer :: bytes

definition sizeof_NF_DATA :: nat where "sizeof_NF_DATA = 17"

definition enc_NF_DATA :: "NF_DATA \<Rightarrow> bytes" where
  "enc_NF_DATA r =
     le32 (nd_code r) @ le64 (nd_id r) @ le32 (nd_bufferSize r) @ nd_buffer r"

definition ok_NF_DATA :: "NF_DATA \<Rightarrow> bool" where
  "ok_NF_DATA r \<longleftrightarrow>
     length (nd_buffer r) = 1"

definition get_NF_DATA :: "bytes \<Rightarrow> (NF_DATA \<times> bytes) option" where
  "get_NF_DATA b = do {
     (code, b) \<leftarrow> get32 b;
     (id, b) \<leftarrow> get64 b;
     (bufferSize, b) \<leftarrow> get32 b;
     (buffer, b) \<leftarrow> getn 1 b;
     Some (\<lparr>nd_code = code, nd_id = id, nd_bufferSize = bufferSize, nd_buffer = buffer\<rparr>, b)
   }"

lemma get_NF_DATA_iff [field_simps]: "get_NF_DATA b = Some (x, r) \<longleftrightarrow> ok_NF_DATA x \<and> b = enc_NF_DATA x @ r"
  by (cases x) (auto simp: get_NF_DATA_def enc_NF_DATA_def ok_NF_DATA_def bind_eq_Some_conv field_simps)

lemma length_NF_DATA [field_simps]: "ok_NF_DATA x \<Longrightarrow> length (enc_NF_DATA x) = 17"
  by (simp add: enc_NF_DATA_def ok_NF_DATA_def field_simps layout_consts)

lemma get_NF_DATA_total [field_total]:
  "17 \<le> length b \<Longrightarrow> get_NF_DATA b = Some (field_value get_NF_DATA b, drop 17 b)"
  by (rule field_valueI) (simp add: get_NF_DATA_def layout_consts field_total)

definition dec_NF_DATA :: "bytes \<Rightarrow> NF_DATA option" where
  "dec_NF_DATA b = map_option fst (get_NF_DATA b)"

interpretation nf_data: packed_layout sizeof_NF_DATA enc_NF_DATA dec_NF_DATA ok_NF_DATA
  by (rule packed_layoutI) (auto simp: dec_NF_DATA_def sizeof_NF_DATA_def field_simps field_total)

record NF_BUFFERS =
  nb_inBuf :: u64
  nb_inBufLen :: u64
  nb_outBuf :: u64
  nb_outBufLen :: u64

definition sizeof_NF_BUFFERS :: nat where "sizeof_NF_BUFFERS = 32"

definition enc_NF_BUFFERS :: "NF_BUFFERS \<Rightarrow> bytes" where
  "enc_NF_BUFFERS r =
     le64 (nb_inBuf r) @ le64 (nb_inBufLen r) @ le64 (nb_outBuf r) @ le64 (nb_outBufLen r)"

definition get_NF_BUFFERS :: "bytes \<Rightarrow> (NF_BUFFERS \<times> bytes) option" where
  "get_NF_BUFFERS b = do {
     (inBuf, b) \<leftarrow> get64 b;
     (inBufLen, b) \<leftarrow> get64 b;
     (outBuf, b) \<leftarrow> get64 b;
     (outBufLen, b) \<leftarrow> get64 b;
     Some (\<lparr>nb_inBuf = inBuf, nb_inBufLen = inBufLen, nb_outBuf = outBuf, nb_outBufLen = outBufLen\<rparr>, b)
   }"

lemma get_NF_BUFFERS_iff [field_simps]: "get_NF_BUFFERS b = Some (x, r) \<longleftrightarrow> b = enc_NF_BUFFERS x @ r"
  by (cases x) (auto simp: get_NF_BUFFERS_def enc_NF_BUFFERS_def bind_eq_Some_conv field_simps)

lemma length_NF_BUFFERS [field_simps]: "length (enc_NF_BUFFERS x) = 32"
  by (simp add: enc_NF_BUFFERS_def field_simps layout_consts)

lemma get_NF_BUFFERS_total [field_total]:
  "32 \<le> length b \<Longrightarrow> get_NF_BUFFERS b = Some (field_value get_NF_BUFFERS b, drop 32 b)"
  by (rule field_valueI) (simp add: get_NF_BUFFERS_def layout_consts field_total)

definition dec_NF_BUFFERS :: "bytes \<Rightarrow> NF_BUFFERS option" where
  "dec_NF_BUFFERS b = map_option fst (get_NF_BUFFERS b)"

interpretation nf_buffers: packed_layout sizeof_NF_BUFFERS enc_NF_BUFFERS dec_NF_BUFFERS "\<lambda>_. True"
  by (rule packed_layoutI) (auto simp: dec_NF_BUFFERS_def sizeof_NF_BUFFERS_def field_simps field_total)

record NF_READ_RESULT =
  rr_length :: u64

definition sizeof_NF_READ_RESULT :: nat where "sizeof_NF_READ_RESULT = 8"

definition enc_NF_READ_RESULT :: "NF_READ_RESULT \<Rightarrow> bytes" where
  "enc_NF_READ_RESULT r =
     le64 (rr_length r)"

definition get_NF_READ_RESULT :: "bytes \<Rightarrow> (NF_READ_RESULT \<times> bytes) option" where
  "get_NF_READ_RESULT b = do {
     (length, b) \<leftarrow> get64 b;
     Some (\<lparr>rr_length = length\<rparr>, b)
   }"

lemma get_NF_READ_RESULT_iff [field_simps]: "get_NF_READ_RESULT b = Some (x, r) \<longleftrightarrow> b = enc_NF_READ_RESULT x @ r"
  by (cases x) (auto simp: get_NF_READ_RESULT_def enc_NF_READ_RESULT_def bind_eq_Some_conv field_simps)

lemma length_NF_READ_RESULT [field_simps]: "length (enc_NF_READ_RESULT x) = 8"
  by (simp add: enc_NF_READ_RESULT_def field_simps layout_consts)

lemma get_NF_READ_RESULT_total [field_total]:
  "8 \<le> length b \<Longrightarrow> get_NF_READ_RESULT b = Some (field_value get_NF_READ_RESULT b, drop 8 b)"
  by (rule field_valueI) (simp add: get_NF_READ_RESULT_def layout_consts field_total)

definition dec_NF_READ_RESULT :: "bytes \<Rightarrow> NF_READ_RESULT option" where
  "dec_NF_READ_RESULT b = map_option fst (get_NF_READ_RESULT b)"

interpretation read_result: packed_layout sizeof_NF_READ_RESULT enc_NF_READ_RESULT dec_NF_READ_RESULT "\<lambda>_. True"
  by (rule packed_layoutI) (auto simp: dec_NF_READ_RESULT_def sizeof_NF_READ_RESULT_def field_simps field_total)

section \<open>Flow control\<close>

record NF_FLOWCTL_DATA =
  fc_inLimit :: u64
  fc_outLimit :: u64

definition sizeof_NF_FLOWCTL_DATA :: nat where "sizeof_NF_FLOWCTL_DATA = 16"

definition enc_NF_FLOWCTL_DATA :: "NF_FLOWCTL_DATA \<Rightarrow> bytes" where
  "enc_NF_FLOWCTL_DATA r =
     le64 (fc_inLimit r) @ le64 (fc_outLimit r)"

definition get_NF_FLOWCTL_DATA :: "bytes \<Rightarrow> (NF_FLOWCTL_DATA \<times> bytes) option" where
  "get_NF_FLOWCTL_DATA b = do {
     (inLimit, b) \<leftarrow> get64 b;
     (outLimit, b) \<leftarrow> get64 b;
     Some (\<lparr>fc_inLimit = inLimit, fc_outLimit = outLimit\<rparr>, b)
   }"

lemma get_NF_FLOWCTL_DATA_iff [field_simps]: "get_NF_FLOWCTL_DATA b = Some (x, r) \<longleftrightarrow> b = enc_NF_FLOWCTL_DATA x @ r"
  by (cases x) (auto simp: get_NF_FLOWCTL_DATA_def enc_NF_FLOWCTL_DATA_def bind_eq_Some_conv field_simps)

lemma length_NF_FLOWCTL_DATA [field_simps]: "length (enc_NF_FLOWCTL_DATA x) = 16"
  by (simp add: enc_NF_FLOWCTL_DATA_def field_simps layout_consts)

lemma get_NF_FLOWCTL_DATA_total [field_total]:
  "16 \<le> length b \<Longrightarrow> get_NF_FLOWCTL_DATA b = Some (field_value get_NF_FLOWCTL_DATA b, drop 16 b)"
  by (rule field_valueI) (simp add: get_NF_FLOWCTL_DATA_def layout_consts field_total)

definition dec_NF_FLOWCTL_DATA :: "bytes \<Rightarrow> NF_FLOWCTL_DATA option" where
  "dec_NF_FLOWCTL_DATA b = map_option fst (get_NF_FLOWCTL_DATA b)"

interpretation flowctl_data: packed_layout sizeof_NF_FLOWCTL_DATA enc_NF_FLOWCTL_DATA dec_NF_FLOWCTL_DATA "\<lambda>_. True"
  by (rule packed_layoutI) (auto simp: dec_NF_FLOWCTL_DATA_def sizeof_NF_FLOWCTL_DATA_def field_simps field_total)

record NF_FLOWCTL_MODIFY_DATA =
  fm_fcHandle :: u32
  fm_data :: NF_FLOWCTL_DATA

definition sizeof_NF_FLOWCTL_MODIFY_DATA :: nat where "sizeof_NF_FLOWCTL_MODIFY_DATA = 20"

definition enc_NF_FLOWCTL_MODIFY_DATA :: "NF_FLOWCTL_MODIFY_DATA \<Rightarrow> bytes" where
  "enc_NF_FLOWCTL_MODIFY_DATA r =
     le32 (fm_fcHandle r) @ enc_NF_FLOWCTL_DATA (fm_data r)"

definition get_NF_FLOWCTL_MODIFY_DATA :: "bytes \<Rightarrow> (NF_FLOWCTL_MODIFY_DATA \<times> bytes) option" where
  "get_NF_FLOWCTL_MODIFY_DATA b = do {
     (fcHandle, b) \<leftarrow> get32 b;
     (data, b) \<leftarrow> get_NF_FLOWCTL_DATA b;
     Some (\<lparr>fm_fcHandle = fcHandle, fm_data = data\<rparr>, b)
   }"

lemma get_NF_FLOWCTL_MODIFY_DATA_iff [field_simps]: "get_NF_FLOWCTL_MODIFY_DATA b = Some (x, r) \<longleftrightarrow> b = enc_NF_FLOWCTL_MODIFY_DATA x @ r"
  by (cases x) (auto simp: get_NF_FLOWCTL_MODIFY_DATA_def enc_NF_FLOWCTL_MODIFY_DATA_def bind_eq_Some_conv field_simps)

lemma length_NF_FLOWCTL_MODIFY_DATA [field_simps]: "length (enc_NF_FLOWCTL_MODIFY_DATA x) = 20"
  by (simp add: enc_NF_FLOWCTL_MODIFY_DATA_def field_simps layout_consts)

lemma get_NF_FLOWCTL_MODIFY_DATA_total [field_total]:
  "20 \<le> length b \<Longrightarrow> get_NF_FLOWCTL_MODIFY_DATA b = Some (field_value get_NF_FLOWCTL_MODIFY_DATA b, drop 20 b)"
  by (rule field_valueI) (simp add: get_NF_FLOWCTL_MODIFY_DATA_def layout_consts field_total)

definition dec_NF_FLOWCTL_MODIFY_DATA :: "bytes \<Rightarrow> NF_FLOWCTL_MODIFY_DATA option" where
  "dec_NF_FLOWCTL_MODIFY_DATA b = map_option fst (get_NF_FLOWCTL_MODIFY_DATA b)"

interpretation flowctl_modify: packed_layout sizeof_NF_FLOWCTL_MODIFY_DATA enc_NF_FLOWCTL_MODIFY_DATA dec_NF_FLOWCTL_MODIFY_DATA "\<lambda>_. True"
  by (rule packed_layoutI) (auto simp: dec_NF_FLOWCTL_MODIFY_DATA_def sizeof_NF_FLOWCTL_MODIFY_DATA_def field_simps field_total)

record NF_FLOWCTL_STAT =
  fs_inBytes :: u64
  fs_outBytes :: u64

definition sizeof_NF_FLOWCTL_STAT :: nat where "sizeof_NF_FLOWCTL_STAT = 16"

definition enc_NF_FLOWCTL_STAT :: "NF_FLOWCTL_STAT \<Rightarrow> bytes" where
  "enc_NF_FLOWCTL_STAT r =
     le64 (fs_inBytes r) @ le64 (fs_outBytes r)"

definition get_NF_FLOWCTL_STAT :: "bytes \<Rightarrow> (NF_FLOWCTL_STAT \<times> bytes) option" where
  "get_NF_FLOWCTL_STAT b = do {
     (inBytes, b) \<leftarrow> get64 b;
     (outBytes, b) \<leftarrow> get64 b;
     Some (\<lparr>fs_inBytes = inBytes, fs_outBytes = outBytes\<rparr>, b)
   }"

lemma get_NF_FLOWCTL_STAT_iff [field_simps]: "get_NF_FLOWCTL_STAT b = Some (x, r) \<longleftrightarrow> b = enc_NF_FLOWCTL_STAT x @ r"
  by (cases x) (auto simp: get_NF_FLOWCTL_STAT_def enc_NF_FLOWCTL_STAT_def bind_eq_Some_conv field_simps)

lemma length_NF_FLOWCTL_STAT [field_simps]: "length (enc_NF_FLOWCTL_STAT x) = 16"
  by (simp add: enc_NF_FLOWCTL_STAT_def field_simps layout_consts)

lemma get_NF_FLOWCTL_STAT_total [field_total]:
  "16 \<le> length b \<Longrightarrow> get_NF_FLOWCTL_STAT b = Some (field_value get_NF_FLOWCTL_STAT b, drop 16 b)"
  by (rule field_valueI) (simp add: get_NF_FLOWCTL_STAT_def layout_consts field_total)

definition dec_NF_FLOWCTL_STAT :: "bytes \<Rightarrow> NF_FLOWCTL_STAT option" where
  "dec_NF_FLOWCTL_STAT b = map_option fst (get_NF_FLOWCTL_STAT b)"

interpretation flowctl_stat: packed_layout sizeof_NF_FLOWCTL_STAT enc_NF_FLOWCTL_STAT dec_NF_FLOWCTL_STAT "\<lambda>_. True"
  by (rule packed_layoutI) (auto simp: dec_NF_FLOWCTL_STAT_def sizeof_NF_FLOWCTL_STAT_def field_simps field_total)

record NF_FLOWCTL_SET_DATA =
  fd_endpointId :: u64
  fd_fcHandle :: u32

definition sizeof_NF_FLOWCTL_SET_DATA :: nat where "sizeof_NF_FLOWCTL_SET_DATA = 12"

definition enc_NF_FLOWCTL_SET_DATA :: "NF_FLOWCTL_SET_DATA \<Rightarrow> bytes" where
  "enc_NF_FLOWCTL_SET_DATA r =
     le64 (fd_endpointId r) @ le32 (fd_fcHandle r)"

definition get_NF_FLOWCTL_SET_DATA :: "bytes \<Rightarrow> (NF_FLOWCTL_SET_DATA \<times> bytes) option" where
  "get_NF_FLOWCTL_SET_DATA b = do {
     (endpointId, b) \<leftarrow> get64 b;
     (fcHandle, b) \<leftarrow> get32 b;
     Some (\<lparr>fd_endpointId = endpointId, fd_fcHandle = fcHandle\<rparr>, b)
   }"

lemma get_NF_FLOWCTL_SET_DATA_iff [field_simps]: "get_NF_FLOWCTL_SET_DATA b = Some (x, r) \<longleftrightarrow> b = enc_NF_FLOWCTL_SET_DATA x @ r"
  by (cases x) (auto simp: get_NF_FLOWCTL_SET_DATA_def enc_NF_FLOWCTL_SET_DATA_def bind_eq_Some_conv field_simps)

lemma length_NF_FLOWCTL_SET_DATA [field_simps]: "length (enc_NF_FLOWCTL_SET_DATA x) = 12"
  by (simp add: enc_NF_FLOWCTL_SET_DATA_def field_simps layout_consts)

lemma get_NF_FLOWCTL_SET_DATA_total [field_total]:
  "12 \<le> length b \<Longrightarrow> get_NF_FLOWCTL_SET_DATA b = Some (field_value get_NF_FLOWCTL_SET_DATA b, drop 12 b)"
  by (rule field_valueI) (simp add: get_NF_FLOWCTL_SET_DATA_def layout_consts field_total)

definition dec_NF_FLOWCTL_SET_DATA :: "bytes \<Rightarrow> NF_FLOWCTL_SET_DATA option" where
  "dec_NF_FLOWCTL_SET_DATA b = map_option fst (get_NF_FLOWCTL_SET_DATA b)"

interpretation flowctl_set: packed_layout sizeof_NF_FLOWCTL_SET_DATA enc_NF_FLOWCTL_SET_DATA dec_NF_FLOWCTL_SET_DATA "\<lambda>_. True"
  by (rule packed_layoutI) (auto simp: dec_NF_FLOWCTL_SET_DATA_def sizeof_NF_FLOWCTL_SET_DATA_def field_simps field_total)


section \<open>Facts on single structures\<close>

text \<open>\<open>NF_RULE_EX\<close> begins with the fields of \<open>NF_RULE\<close>.\<close>

lemma rule_ex_extends_rule:
  "enc_NF_RULE_EX r = enc_NF_RULE (NF_RULE.truncate r) @ le16s (processName r) @
     enc_NF_PORT_RANGE (localPortRange r) @ enc_NF_PORT_RANGE (remotePortRange r) @
     redirectTo r @ le32 (localProxyProcessId r)"
  by (simp add: enc_NF_RULE_EX_def enc_NF_RULE_def NF_RULE.truncate_def)

text \<open>The options the driver passes begin like the declared structure.\<close>

lemma dec_NF_UDP_OPTIONS_block:
  assumes "options opt \<noteq> []"
  shows "dec_NF_UDP_OPTIONS (enc_NF_UDP_OPTIONS opt) = Some (opt\<lparr>options := [hd (options opt)]\<rparr>)"
proof -
  let ?o = "opt\<lparr>options := [hd (options opt)]\<rparr>"
  have "enc_NF_UDP_OPTIONS opt = enc_NF_UDP_OPTIONS ?o @ tl (options opt)"
    using assms by (cases opt) (simp add: enc_NF_UDP_OPTIONS_def)
  then show ?thesis using udp_options.dec_enc [of ?o] by (simp add: ok_NF_UDP_OPTIONS_def)
qed

end
