(* ===== verification/Handler_Monitor.thy ===== *)
theory Handler_Monitor
  imports Handler_Inv
begin

text \<open>
  Monitors of the whole plugin: a monitor of the proxy's calls that also accepts the handler's other
  calls (locks, sockets, the log and datagrams handed to the driver) holds of what every completion
  and every event adds to the trace, except the two events that hand TCP data to the driver.
\<close>

definition handler_call :: "api \<Rightarrow> bool" where
  "handler_call c \<longleftrightarrow> (case c of
     Nf (UdpPostSend cid ra buf len opts) \<Rightarrow> True
   | Nf (UdpPostReceive cid ra buf len opts) \<Rightarrow> True
   | Nf n \<Rightarrow> False
   | _ \<Rightarrow> True)"

lemma handler_call_simps [simp]:
  "handler_call (Sync x)" "handler_call (Net n)" "handler_call (DoLog cid p b l r pid name)"
  "handler_call (Nf (UdpPostSend cid ra buf len opts))" "handler_call (Nf (UdpPostReceive cid ra buf len opts))"
  "\<not> handler_call (Nf (TcpPostSend cid buf len))" "\<not> handler_call (Nf (TcpPostReceive cid buf len))"
  "\<not> handler_call (Nf (TcpDisableFiltering cid))"
  "\<not> handler_call (Nf (AddRule rl h))" "\<not> handler_call (Nf (AddRuleEx rx h))"
  by (simp_all add: handler_call_def)

text \<open>The events that hand TCP data to the driver.\<close>

fun tcp_data_event :: "nf_event \<Rightarrow> bool" where
  "tcp_data_event (EvTcpReceive cid buf len) = True"
| "tcp_data_event (EvTcpSend cid buf len) = True"
| "tcp_data_event ev = False"

locale handler_monitor = call_monitor +
  assumes good_handler: "handler_call c \<Longrightarrow> good [(c, r)]"
begin

lemma ext_other: "handler_call c \<Longrightarrow> extends good s t \<Longrightarrow> extends good s (emit E c t)"
  by (rule ext_call [OF good_handler]) (simp_all add: emit_eq)

lemma ext_sys: "handler_call c \<Longrightarrow> extends good s t \<Longrightarrow> extends good s (snd (sys E c t))"
  using ext_other [of c s t E] by (simp add: emit_def)

lemma ext_data [simp]:
  "extends good s (t\<lparr>m_connInfoMap := x\<rparr>) = extends good s t"
  "extends good s (t\<lparr>m_udpCtxMap := y\<rparr>) = extends good s t"
  "extends good s (t\<lparr>g_proxyAddress := g\<rparr>) = extends good s t"
  "extends good s (u\<lparr>m_ovDataSet := o1\<rparr>) = extends good s u"
  "extends good s (u\<lparr>m_socketMap := m\<rparr>) = extends good s u"
  "extends good s (v\<lparr>m_hIOCP := h\<rparr>) = extends good s v"
  by (simp_all add: extends_def)

lemma ext_lock: "extends good s (lock_guard E s)"
  by (simp add: ext_other)

lemma ext_deleteProxyConnection: "extends good s (deleteProxyConnection E cid s)"
  by (simp add: deleteProxyConnection_def delete_PROXY_DATA_def Let_def ext_other split: option.split)

lemma ext_createProxyConnection: "extends good s (snd (createProxyConnection E cid s))"
proof -
  have start: "extends good s (snd (connection_start E cid tcp udp t))"
    if "extends good s t" for t :: "'a udp_proxy_scheme" and tcp udp
    using that by (simp add: connection_start_def registerSocket_def split_def Let_def ext_other ext_sys ext_startConnect)
  have "extends good s (deleteProxyConnection E cid t)" if "extends good s t" for t :: "'a udp_proxy_scheme"
    using ext_trans [OF that ext_deleteProxyConnection] .
  then show ?thesis
    unfolding createProxyConnection_cases by (simp add: start ext_other ext_sys)
qed

lemma ext_receiver: "receiver_calls good (EventHandler_onUdpReceiveComplete E)"
  by (auto simp: receiver_calls_def EventHandler_onUdpReceiveComplete_def Let_def
      intro!: ext_other split: option.splits)

lemma ext_Log:
  "LogTCP E b cid c s = Some t \<Longrightarrow> extends good s t"
  "LogUDP E b cid u s = Some t \<Longrightarrow> extends good s t"
  by (auto simp: LogTCP_def LogUDP_def bind_eq_Some_conv intro!: ext_other)

lemma ext_ensure_connection:
  "ensure_connection E cid opts s = Some (ok, t) \<Longrightarrow> extends good s t"
  using ext_trans [OF ext_lock ext_createProxyConnection, of s E cid E]
  by (auto simp: ensure_connection_def split_def Let_def bind_eq_Some_conv intro!: ext_other
      split: option.splits if_splits)

lemma ext_EventHandler_udpSend:
  assumes "EventHandler_udpSend E cid ra buf len opts s = Some t" shows "extends good s t"
proof -
  from assms obtain ok u where u: "ensure_connection E cid opts s = Some (ok, u)"
    by (auto simp: EventHandler_udpSend_def bind_eq_Some_conv)
  note s = ext_ensure_connection [OF u]
  show ?thesis
  proof (cases ok)
    case False
    with assms u s show ?thesis by (simp add: EventHandler_udpSend_def)
  next
    case True
    with assms u obtain n r v where v: "udpSend E cid buf len ra n u = Some (r, v)"
      and t: "t = v \<or> t = emit E (Nf (UdpPostSend cid ra buf len (map_option enc_NF_UDP_OPTIONS opts))) v"
      by (auto simp: EventHandler_udpSend_def bind_eq_Some_conv Let_def split: if_splits)
    from ext_udpSend [OF v s] t show ?thesis by (auto intro: ext_other)
  qed
qed

lemma ext_udpClosed:
  assumes "udpClosed E cid c s = Some t" shows "extends good s t"
proof -
  from assms obtain u where u: "LogUDP E False cid c s = Some u"
    and "t = (let v = lock_guard E (deleteProxyConnection E cid u) in unlock_guard E
      (case map_of (m_udpCtxMap v) cid of None \<Rightarrow> v | Some ctx \<Rightarrow> v\<lparr>m_udpCtxMap := m_erase cid (m_udpCtxMap v)\<rparr>))"
    by (auto simp: udpClosed_def bind_eq_Some_conv Let_def)
  then have t: "extends good (deleteProxyConnection E cid u) t"
    by (simp add: Let_def ext_other split: option.split)
  from ext_trans [OF ext_trans [OF ext_Log(2) [OF u] ext_deleteProxyConnection] t] show ?thesis .
qed

lemma ext_udpCreated: "udpCreated E cid c s = Some t \<Longrightarrow> extends good s t"
  using ext_trans [OF ext_lock ext_Log(2)]
  by (auto simp: udpCreated_def bind_eq_Some_conv intro!: ext_other)

lemma ext_event: "handle_event E ev s = Some t \<Longrightarrow> \<not> tcp_data_event ev \<Longrightarrow> extends good s t"
  by (cases ev) (auto simp: tcpConnectRequest_def tcpConnected_def tcpClosed_def udpReceive_def ignored_event_def
      bind_eq_Some_conv Let_def ext_udpClosed ext_udpCreated ext_Log ext_EventHandler_udpSend
      intro!: ext_other split: if_splits)

lemma ext_completion:
  assumes "handler_inv s" "legal s c"
    and "worker_body (onComplete E (EventHandler_onUdpReceiveComplete E)) c (deliver c s) = Some t"
  shows "extends good s t"
proof (cases "cq_overlapped c")
  case None
  from timeout_noop [OF assms(2) this assms(3)] show ?thesis by simp
next
  case (Some p)
  have "proxy_running s" using assms(1) by (simp add: handler_inv_def proxy_good_def)
  from legal_object [OF this assms(2) Some] obtain d where d: "map_of (m_ovDataSet (deliver c s)) p = Some d"
    and r: "onComplete E (EventHandler_onUdpReceiveComplete E) (cq_socket c) (cq_transferred c) (Some p)
      (if cq_ok c then 0 else cq_error c) (deliver c s) = Some t"
    using assms(3) by metis
  have "extends good (deliver c s) t"
    by (rule ext_onComplete [OF r d, where P = good])
      (use ext_receiver [of E] ext_deleteProxyConnection good_append in \<open>auto simp: receiver_calls_def\<close>)
  then show ?thesis by (simp add: extends_def)
qed

end

end
