(* ===== verification/Driver_Calls.thy ===== *)
theory Driver_Calls
  imports Plugin_Core NF_Layout Handler_Monitor
begin

text \<open>
  What the plugin hands to the driver by pointer has the driver's layout. A rule is filled in field by
  field from zeroed memory, so it must still be one block of the declared size; the properties of a
  connection are changed in place. \<open>well_typed\<close> is a monitor of the trace, and every operation of
  the plugin, from its construction on, is shown to extend the trace by well-typed calls.
\<close>

section \<open>Well-typed calls\<close>

fun well_typed :: "api \<Rightarrow> bool" where
  "well_typed (Nf (AddRule r h)) \<longleftrightarrow>
     length (enc_NF_RULE r) = sizeof_NF_RULE \<and> dec_NF_RULE (enc_NF_RULE r) = Some r"
| "well_typed (Nf (AddRuleEx r h)) \<longleftrightarrow>
     length (enc_NF_RULE_EX r) = sizeof_NF_RULE_EX \<and> dec_NF_RULE_EX (enc_NF_RULE_EX r) = Some r"
| "well_typed _ = True"

definition typed_calls :: "trace \<Rightarrow> bool" where
  "typed_calls tr \<longleftrightarrow> (\<forall>x \<in> set tr. well_typed (fst x))"

lemma typed_calls_append: "typed_calls (xs @ ys) \<longleftrightarrow> typed_calls xs \<and> typed_calls ys"
  by (auto simp: typed_calls_def)

interpretation typed: handler_monitor typed_calls
  by unfold_locales
    (auto simp: typed_calls_def request_call_def handler_call_def split: api.splits nf_call.splits)

lemma typed_emit: "well_typed c \<Longrightarrow> extends typed_calls s t \<Longrightarrow> extends typed_calls s (emit E c t)"
  by (rule typed.ext_call [of c]) (simp_all add: typed_calls_def emit_eq)

lemma typed_event: "handle_event E ev s = Some t \<Longrightarrow> extends typed_calls s t"
  by (cases "tcp_data_event ev")
    (auto simp: tcpReceive_def tcpSend_def bind_eq_Some_conv Let_def elim!: tcp_data_event.elims(2)
      intro!: typed_emit split: option.splits if_splits intro: typed.ext_event)

lemma typed_step:
  assumes "handler_step E s t" "handler_inv s" shows "extends typed_calls s t"
  using assms(1) by cases (auto intro: typed_event typed.ext_completion [OF assms(2)])

section \<open>Start and stop\<close>

lemma typed_UDPProxy_init:
  assumes "UDPProxy_init E a n user pass s = Some (r, t)" shows "extends typed_calls s t"
proof -
  have "extends typed_calls s (snd (initExtensions E s))"
    by (simp add: initExtensions_def split_def Let_def extends_def sys_snd emit_eq typed_calls_def)
  moreover have "extends typed_calls u (snd (IOCPService_init E u))" for u :: "'a udp_proxy_scheme"
    by (simp add: IOCPService_init_def Attach_def split_def Let_def extends_def sys_snd emit_eq typed_calls_def)
  ultimately have "extends typed_calls s (snd (IOCPService_init E (snd (initExtensions E s))))"
    by (rule typed.ext_trans)
  with \<open>extends typed_calls s (snd (initExtensions E s))\<close> assms show ?thesis
    by (auto simp: UDPProxy_init_def split_def Let_def bind_eq_Some_conv extends_def split: if_splits)
qed

lemma typed_free: "extends typed_calls s (EventHandler_free E s)"
proof -
  have conns: "extends typed_calls t (free_connections E m t)" for m and t :: event_handler
  proof (induction E m t rule: free_connections.induct)
    case (2 E k pd m s)
    have "extends typed_calls s ((delete_PROXY_DATA E pd s)\<lparr>m_socketMap := m\<rparr>)"
      by (simp add: delete_PROXY_DATA_def Let_def typed_emit)
    from typed.ext_trans [OF this 2] show ?case by simp
  qed simp
  have "extends typed_calls s (IOCPService_free E s)"
    by (simp add: IOCPService_free_def Close_def Let_def extends_def emit_eq typed_calls_def)
  then have "extends typed_calls s ((IOCPService_free E s)\<lparr>m_ovDataSet := []\<rparr>)" by simp
  from typed.ext_trans [OF this conns] have "extends typed_calls s (UDPProxy_free E s)"
    unfolding UDPProxy_free_def Let_def .
  then show ?thesis by (simp add: EventHandler_free_def Let_def typed_emit)
qed

lemma typed_Stop: "extends typed_calls s (NetFilterCore_Stop E s)"
  by (simp add: NetFilterCore_Stop_def typed_emit typed_free)

lemma put_bytes_length: "put_bytes src dst = Some x \<Longrightarrow> length x = length dst"
  by (auto simp: put_bytes_def wrn_length split: option.splits)

lemma well_typedI:
  "ok_NF_RULE r \<Longrightarrow> well_typed (Nf (AddRule r h))"
  "ok_NF_RULE_EX x \<Longrightarrow> well_typed (Nf (AddRuleEx x h))"
  using rule.enc_length rule.dec_enc_exact rule_ex.enc_length rule_ex.dec_enc_exact by simp_all

lemma zero_rule_ok [simp]: "ok_NF_RULE zero_rule" "ok_NF_RULE_EX zero_rule_ex"
  by (simp_all add: ok_NF_RULE_def ok_NF_RULE_EX_def zero_rule_def zero_rule_ex_def NF_RULE.defs)

lemma rule_fields_ok [simp]:
  "ok_NF_RULE (r\<lparr>filteringFlag := f\<rparr>) = ok_NF_RULE r" "ok_NF_RULE (r\<lparr>ip_family := i\<rparr>) = ok_NF_RULE r"
  "ok_NF_RULE_EX (x\<lparr>filteringFlag := f\<rparr>) = ok_NF_RULE_EX x" "ok_NF_RULE_EX (x\<lparr>protocol := p\<rparr>) = ok_NF_RULE_EX x"
  "ok_NF_RULE_EX (x\<lparr>remotePort := q\<rparr>) = ok_NF_RULE_EX x" "ok_NF_RULE_EX (x\<lparr>remotePortRange := g\<rparr>) = ok_NF_RULE_EX x"
  by (simp_all add: ok_NF_RULE_def ok_NF_RULE_EX_def)

lemma rule_arrays_ok:
  "ok_NF_RULE r \<Longrightarrow> length a = length (remoteIpAddress r) \<Longrightarrow> ok_NF_RULE (r\<lparr>remoteIpAddress := a\<rparr>)"
  "ok_NF_RULE r \<Longrightarrow> length a = length (remoteIpAddressMask r) \<Longrightarrow> ok_NF_RULE (r\<lparr>remoteIpAddressMask := a\<rparr>)"
  "ok_NF_RULE_EX x \<Longrightarrow> length w = MAX_PATH \<Longrightarrow> ok_NF_RULE_EX (x\<lparr>processName := w\<rparr>)"
  by (simp_all add: ok_NF_RULE_def ok_NF_RULE_EX_def)

lemma program_rules_ok:
  "private_ipv4_rule E a m = Some r \<Longrightarrow> ok_NF_RULE r" "ok_NF_RULE ipv6_loopback_rule"
  "ipv6_mapped_rule E = Some r \<Longrightarrow> ok_NF_RULE r" "ok_NF_RULE_EX (user_rule u)"
  "ok_NF_RULE_EX proxy_tcp_rule" "ok_NF_RULE_EX proxy_udp_rule"
proof -
  show "private_ipv4_rule E a m = Some r \<Longrightarrow> ok_NF_RULE r" "ipv6_mapped_rule E = Some r \<Longrightarrow> ok_NF_RULE r"
    by (auto simp: private_ipv4_rule_def ipv6_mapped_rule_def bind_eq_Some_conv Let_def
        dest!: put_bytes_length intro!: rule_arrays_ok)
  show "ok_NF_RULE_EX (user_rule u)" by (simp add: user_rule_def Let_def rule_arrays_ok)
qed (simp_all add: ipv6_loopback_rule_def proxy_tcp_rule_def proxy_udp_rule_def rule_arrays_ok)

lemma typed_add_rules:
  assumes "add_rules E rs s = Some t" shows "extends typed_calls s t"
proof -
  have add: "extends typed_calls u v" if "ADD_PRIVATE_IPV4_ADDRESS E a m u = Some v" for a m and u v :: "'a world_scheme"
    using that by (auto simp: ADD_PRIVATE_IPV4_ADDRESS_def bind_eq_Some_conv intro!: typed_emit well_typedI(1) program_rules_ok(1))
  have user: "extends typed_calls u (add_user_rules E rs u)" for rs and u :: "'a world_scheme"
  proof (induction E rs u rule: add_user_rules.induct)
    case (2 E r rs s)
    from typed.ext_trans [OF typed_emit [OF well_typedI(2) [OF program_rules_ok(4)] typed.ext_refl [OF refl]] 2]
    show ?case by simp
  qed simp
  from assms obtain s1 s2 s3 s4 s5 r where s:
    "ADD_PRIVATE_IPV4_ADDRESS E ''10.0.0.1'' ''255.0.0.0'' s = Some s1"
    "ADD_PRIVATE_IPV4_ADDRESS E ''127.0.0.1'' ''255.0.0.0'' s1 = Some s2"
    "ADD_PRIVATE_IPV4_ADDRESS E ''172.16.0.1'' ''255.240.0.0'' s2 = Some s3"
    "ADD_PRIVATE_IPV4_ADDRESS E ''192.168.0.1'' ''255.255.0.0'' s3 = Some s4"
    "ADD_PRIVATE_IPV4_ADDRESS E ''224.0.0.1'' ''240.0.0.0'' s4 = Some s5"
    "ipv6_mapped_rule E = Some r"
    and t: "t = emit E (Nf (AddRuleEx proxy_udp_rule False)) (emit E (Nf (AddRuleEx proxy_tcp_rule False))
      (add_user_rules E rs (emit E (Nf (AddRule r False)) (emit E (Nf (AddRule ipv6_loopback_rule False)) s5))))"
    by (auto simp: add_rules_def bind_eq_Some_conv Let_def)
  have "extends typed_calls s s5"
    by (rule typed.ext_trans [OF typed.ext_trans [OF typed.ext_trans [OF typed.ext_trans
          [OF add [OF s(1)] add [OF s(2)]] add [OF s(3)]] add [OF s(4)]] add [OF s(5)]])
  then have "extends typed_calls s (emit E (Nf (AddRule r False)) (emit E (Nf (AddRule ipv6_loopback_rule False)) s5))"
    using program_rules_ok(3) [OF s(6)] by (intro typed_emit well_typedI program_rules_ok(2))
  from typed.ext_trans [OF this user] show ?thesis
    unfolding t by (intro typed_emit well_typedI program_rules_ok(5,6))
qed

lemma typed_Start:
  assumes "NetFilterCore_Start E toStd rs address port username password s = Some (r, t)"
  shows "extends typed_calls s t"
proof -
  have init: "extends typed_calls s u"
    if "EventHandler_init E a n p s = Some (ok, u)" for a n p ok u
  proof -
    have "extends typed_calls s v" if "UDPProxy_init E g k n p (s\<lparr>g_proxyAddress := g'\<rparr>) = Some (ok', v)" for g k g' ok' v
      using typed_UDPProxy_init [OF that] by (simp add: extends_def)
    note proxy = this
    from that consider "u = emit E (Net WSAGetLastError) (s\<lparr>g_proxyAddress := replicate NF_MAX_ADDRESS_LENGTH 0\<rparr>)"
      | g k g' ok' v where "UDPProxy_init E g k n p (s\<lparr>g_proxyAddress := g'\<rparr>) = Some (ok', v)" "u = v \<or> u = EventHandler_free E v"
      by (auto simp: EventHandler_init_def Let_def bind_eq_Some_conv split: option.splits if_splits)
    then show ?thesis
    proof cases
      case 2
      with proxy typed.ext_trans [OF proxy typed_free] show ?thesis by blast
    qed (simp add: typed_emit)
  qed
  from assms obtain ok u where u: "EventHandler_init E (address @ wide '':'' @ QString_number port) (toStd username) (toStd password) s = Some (ok, u)"
    and t: "t = u \<or> t = snd (sys E (Nf Init) u) \<or> add_rules E rs (snd (sys E (Nf Init) u)) = Some t"
    by (auto simp: NetFilterCore_Start_def bind_eq_Some_conv split_def Let_def split: if_splits)
  have "extends typed_calls s (snd (sys E (Nf Init) u))" using typed_emit [OF _ init [OF u], of "Nf Init" E] by (simp add: emit_def)
  with t init [OF u] typed_add_rules typed.ext_trans show ?thesis by blast
qed

lemma session_typed:
  assumes "session E toStd opts b s" "conversions_fit E" shows "typed_calls (trace s)"
proof -
  have keep: "typed_calls (trace t)" if "extends typed_calls s t" "typed_calls (trace s)" for s t :: event_handler
    using that by (auto simp: extends_def typed_calls_append)
  from assms(1) show ?thesis
  proof induction
    case (session_created s)
    then show ?case
      by (simp add: blank_def NetFilterCore_ctor_def EventHandler_ctor_def IOCPService_ctor_def AutoEventHandle_ctor_def
          AutoHandle_ctor_def typed_calls_def sys_def emit_eq Let_def)
  next
    case (session_connected s ev t)
    then obtain r where "NetFilterCore_Start E toStd (rules opts) (wide ''127.0.0.1'') (socks_port (InboundData ev)) [] [] s = Some (r, t)"
      by (auto simp: ProcessEvent_def Let_def bind_eq_Some_conv)
    from keep [OF typed_Start [OF this]] session_connected show ?case by simp
  next
    case (session_disconnecting b s ev t)
    then show ?case using keep [OF typed_Stop] by (auto simp: ProcessEvent_def port_closed_def)
  next
    case (session_other b s ev k t)
    then show ?case by (simp add: ProcessEvent_def)
  next
    case (session_running s t)
    have "handler_reach E s" using session_state [OF session_running(1) assms(2)] by simp
    then have "handler_inv s" by (rule handler_reach_inv)
    from keep [OF typed_step [OF session_running(2) this]] session_running show ?case by simp
  qed
qed

section \<open>Properties\<close>

text \<open>
  C7: in every session each rule that the driver has been given, whatever the settings, is one object of
  the driver's structure: it fills exactly the declared memory and the driver reads back the rule
  that was meant. And the connection properties that a connect request is answered with still have
  the layout of the structure the driver passed.
\<close>

theorem driver_data_typed:
  assumes "session E toStd opts b s" "conversions_fit E"
  shows "(\<forall>x \<in> set (trace s). well_typed (fst x)) \<and>
    (b \<and> dec_NF_TCP_CONN_INFO block = Some c \<longrightarrow>
     (\<exists>c' t. tcpConnectRequest cid c s = Some (c', t) \<and> dec_NF_TCP_CONN_INFO (enc_NF_TCP_CONN_INFO c') = Some c' \<and>
        length (enc_NF_TCP_CONN_INFO c') = sizeof_NF_TCP_CONN_INFO))"
proof -
  have "\<exists>c' t. tcpConnectRequest cid c s = Some (c', t) \<and> tcp_conn_info_ok c'"
    if "b" and dec: "dec_NF_TCP_CONN_INFO block = Some c"
  proof -
    have ok: "tcp_conn_info_ok c" using tcp_conn_info.dec_Some [OF dec] by blast
    have own: "handler_own s"
      using session_state [OF assms] \<open>b\<close> handler_reach_inv by (simp add: handler_inv_def)
    from ok have "length (ci_remoteAddress c) = NF_MAX_ADDRESS_LENGTH" by (simp add: tcp_conn_info_ok_def)
    then obtain sz where "sockaddr_size (ci_remoteAddress c) = Some sz" by (rule sockaddr_size_total)
    from tcpConnectRequest_eq [OF own ok this] own ok show ?thesis
      by (simp add: tcp_conn_info_ok_def handler_own_def)
  qed
  with session_typed [OF assms] tcp_conn_info.dec_enc_exact tcp_conn_info.enc_length show ?thesis
    unfolding typed_calls_def by blast
qed

theorem driver_data_typed_witness:
  "\<exists>s. session rules_env ascii default_options True s \<and> (\<forall>x \<in> set (trace s). well_typed (fst x)) \<and>
     (\<exists>c t. tcpConnectRequest 3 example_request s = Some (c, t) \<and> length (enc_NF_TCP_CONN_INFO c) = 67)"
proof -
  from example_session_started obtain s where s: "session rules_env ascii default_options True s" by blast
  from tcp_conn_info.dec_enc_exact [OF example_request_ok]
  have "dec_NF_TCP_CONN_INFO (enc_NF_TCP_CONN_INFO example_request) = Some example_request" .
  with driver_data_typed [OF s rules_env_ok(1), of "enc_NF_TCP_CONN_INFO example_request" example_request 3] s
  show ?thesis by (auto simp: sizeof_NF_TCP_CONN_INFO_def)
qed

end
