(* ===== verification/Tcp_Links.thy ===== *)
theory Tcp_Links
  imports Handler_Monitor Handler_Events
begin

text \<open>
  What the plugin does to TCP connections, as an abstract machine with one link per endpoint: a
  \<open>Direct\<close> link passes data on, a \<open>Tracked\<close> one is in the SOCKS4 handshake and holds the
  application's data back. Every step of the plugin is a step of this machine, whatever other
  endpoints, datagrams and completions do in between; from this follows the order of all that is
  sent to the proxy for one connection.
\<close>

section \<open>Links\<close>

datatype tcp_link = Direct | Tracked "(u32 \<times> u16) option" bytes

text \<open>Where a tracked connection goes: \<open>None\<close> for IPv6, which has no SOCKS4 request.\<close>

definition destination :: "bytes \<Rightarrow> (u32 \<times> u16) option" where
  "destination a = (if sa_family a = Some AF_INET6 then None
     else Option.bind (sin_addr a) (\<lambda>ip. map_option (Pair ip) (sin_port a)))"

definition link_of :: "event_handler \<Rightarrow> ENDPOINT_ID \<Rightarrow> tcp_link" where
  "link_of s cid = (case map_of (m_connInfoMap s) cid of
     None \<Rightarrow> Direct
   | Some oci \<Rightarrow> Tracked (destination (oci_remoteAddress oci)) (pendedSends oci))"

definition connect_request :: "ENDPOINT_ID \<Rightarrow> u32 \<times> u16 \<Rightarrow> nf_call" where
  "connect_request cid = (\<lambda>(ip, port). TcpPostSend cid (enc_SOCKS4_REQUEST (socks4_connect ip port)) 9)"

definition released :: "ENDPOINT_ID \<Rightarrow> bytes \<Rightarrow> nf_call list" where
  "released cid held = (if held = [] then [] else [TcpPostSend cid held (int_of_size (length held))])"

text \<open>One event of the driver: the link after it, and the calls for the endpoint \<open>cid\<close>.\<close>

fun link_step :: "ENDPOINT_ID \<Rightarrow> nf_event \<Rightarrow> tcp_link \<Rightarrow> tcp_link \<times> nf_call list" where
  "link_step cid (EvTcpConnectRequest i c) l =
     (if i = cid then Tracked (destination (ci_remoteAddress c)) [] else l, [])"
| "link_step cid (EvTcpClosed i c) l = (if i = cid then Direct else l, [])"
| "link_step cid (EvTcpReceive i buf len) l =
     (if i = cid then (Direct, case l of
        Direct \<Rightarrow> [TcpPostReceive cid buf len, TcpDisableFiltering cid]
      | Tracked d held \<Rightarrow> released cid held)
      else (l, []))"
| "link_step cid (EvTcpSend i buf len) l =
     (if i = cid then (case l of
        Direct \<Rightarrow> (Direct, [TcpPostSend cid buf len])
      | Tracked None held \<Rightarrow> (l, [])
      | Tracked (Some d) held \<Rightarrow> (Tracked (Some d) (held @ take (nat len) buf), [connect_request cid d]))
      else (l, []))"
| "link_step cid ev l = (l, [])"

section \<open>The calls for one endpoint\<close>

fun tcp_call :: "ENDPOINT_ID \<Rightarrow> api \<Rightarrow> nf_call list" where
  "tcp_call cid (Nf (TcpPostSend i b n)) = (if i = cid then [TcpPostSend i b n] else [])"
| "tcp_call cid (Nf (TcpPostReceive i b n)) = (if i = cid then [TcpPostReceive i b n] else [])"
| "tcp_call cid (Nf (TcpDisableFiltering i)) = (if i = cid then [TcpDisableFiltering i] else [])"
| "tcp_call cid c = []"

definition tcp_calls :: "ENDPOINT_ID \<Rightarrow> trace \<Rightarrow> nf_call list" where
  "tcp_calls cid tr = concat (map (tcp_call cid \<circ> fst) tr)"

lemma tcp_calls_simps [simp]:
  "tcp_calls cid [] = []" "tcp_calls cid (xs @ ys) = tcp_calls cid xs @ tcp_calls cid ys"
  "tcp_calls cid ((c, r) # xs) = tcp_call cid c @ tcp_calls cid xs"
  by (simp_all add: tcp_calls_def)

lemma tcp_calls_emit [simp]: "tcp_calls cid (trace (emit E c s)) = tcp_calls cid (trace s) @ tcp_call cid c"
  by (simp add: emit_eq)

definition no_tcp :: "ENDPOINT_ID \<Rightarrow> trace \<Rightarrow> bool" where
  "no_tcp cid tr \<longleftrightarrow> tcp_calls cid tr = []"

lemma tcp_call_handler: "request_call c \<or> handler_call c \<Longrightarrow> tcp_call cid c = []"
  by (cases "(cid, c)" rule: tcp_call.cases) (auto simp: request_call_def)

interpretation links: handler_monitor "no_tcp cid" for cid
  by unfold_locales (auto simp: no_tcp_def tcp_call_handler)

lemma ext_no_tcp: "extends (no_tcp cid) s t \<Longrightarrow> tcp_calls cid (trace t) = tcp_calls cid (trace s)"
  by (auto simp: extends_def no_tcp_def)

section \<open>What leaves the links alone\<close>

lemma links_data: "handler_data t = handler_data s \<Longrightarrow> link_of t = link_of s"
  by (simp add: handler_data_def link_of_def fun_eq_iff)

lemma links_more:
  fixes s t :: event_handler
  assumes "udp_proxy.more t = udp_proxy.more s" shows "m_connInfoMap t = m_connInfoMap s"
  using handler_data_more [OF assms] by (simp add: handler_data_def)

lemma links_udp:
  "ensure_connection E cid opts s = Some (ok, u) \<Longrightarrow> m_connInfoMap u = m_connInfoMap s"
  "EventHandler_udpSend E cid ra buf len opts s = Some t \<Longrightarrow> m_connInfoMap t = m_connInfoMap s"
  "udpClosed E cid c s = Some t \<Longrightarrow> m_connInfoMap t = m_connInfoMap s"
proof -
  have create: "m_connInfoMap (snd (createProxyConnection E cid v)) = m_connInfoMap v" for v :: event_handler
    by (rule links_more) simp
  show ensure: "m_connInfoMap u = m_connInfoMap s" if "ensure_connection E cid opts s = Some (ok, u)" for ok u
    using that create [of "lock_guard E s"]
    by (auto simp: ensure_connection_def split_def Let_def bind_eq_Some_conv split: option.splits if_splits)
  have send: "m_connInfoMap w = m_connInfoMap v" if "udpSend E cid buf len ra n v = Some (r, w)" for n r and v w :: event_handler
    by (rule links_more [OF more_udpSend [OF that]])
  show "EventHandler_udpSend E cid ra buf len opts s = Some t \<Longrightarrow> m_connInfoMap t = m_connInfoMap s"
    by (auto simp: EventHandler_udpSend_def bind_eq_Some_conv Let_def dest!: ensure send split: if_splits)
  have "m_connInfoMap (deleteProxyConnection E cid v) = m_connInfoMap v" for v :: event_handler
    by (rule links_more) simp
  then show "udpClosed E cid c s = Some t \<Longrightarrow> m_connInfoMap t = m_connInfoMap s"
    by (auto simp: udpClosed_def LogUDP_def bind_eq_Some_conv Let_def split: option.splits)
qed

text \<open>Events of the driver that the links do not see.\<close>

fun tcp_event :: "nf_event \<Rightarrow> bool" where
  "tcp_event (EvTcpConnectRequest i c) = True"
| "tcp_event (EvTcpClosed i c) = True"
| "tcp_event (EvTcpReceive i buf len) = True"
| "tcp_event (EvTcpSend i buf len) = True"
| "tcp_event ev = False"

lemma other_event_map:
  "handle_event E ev s = Some t \<Longrightarrow> \<not> tcp_event ev \<Longrightarrow> m_connInfoMap t = m_connInfoMap s"
  by (cases ev) (auto simp: tcpConnected_def LogTCP_def udpCreated_def LogUDP_def udpReceive_def ignored_event_def
      bind_eq_Some_conv dest: links_udp(2,3))

lemma other_event:
  assumes "handle_event E ev s = Some t" "\<not> tcp_event ev"
  shows "tcp_calls cid (trace t) = tcp_calls cid (trace s) @ snd (link_step cid ev (link_of s cid))"
    "link_of t cid = fst (link_step cid ev (link_of s cid))"
proof -
  have "\<not> tcp_data_event ev" using assms(2) by (cases ev) simp_all
  then have "tcp_calls cid (trace t) = tcp_calls cid (trace s)" "link_of t = link_of s"
    using ext_no_tcp [OF links.ext_event [OF assms(1)]] other_event_map [OF assms]
    by (simp_all add: link_of_def fun_eq_iff)
  moreover have "link_step cid ev l = (l, [])" for l using assms(2) by (cases ev) simp_all
  ultimately show "tcp_calls cid (trace t) = tcp_calls cid (trace s) @ snd (link_step cid ev (link_of s cid))"
    "link_of t cid = fst (link_step cid ev (link_of s cid))" by simp_all
qed

section \<open>What the driver's TCP events do to them\<close>

text \<open>\<open>follows cid ev s t\<close>: the plugin's step is the machine's.\<close>

definition follows :: "ENDPOINT_ID \<Rightarrow> nf_event \<Rightarrow> event_handler \<Rightarrow> event_handler \<Rightarrow> bool" where
  "follows cid ev s t \<longleftrightarrow>
     tcp_calls cid (trace t) = tcp_calls cid (trace s) @ snd (link_step cid ev (link_of s cid)) \<and>
     link_of t cid = fst (link_step cid ev (link_of s cid))"

lemma connect_follows:
  assumes "handler_own s" "tcp_conn_info_ok c" "tcpConnectRequest i c s = Some (c', t)"
  shows "follows cid (EvTcpConnectRequest i c) s t"
proof -
  have "length (ci_remoteAddress c) = NF_MAX_ADDRESS_LENGTH" using assms(2) by (simp add: tcp_conn_info_ok_def)
  then obtain sz where "sockaddr_size (ci_remoteAddress c) = Some sz" by (rule sockaddr_size_total)
  from tcpConnectRequest_eq [OF assms(1,2) this, of i] assms(3) have
    "t = s\<lparr>m_connInfoMap := m_insert i \<lparr>oci_remoteAddress = ci_remoteAddress c, pendedSends = []\<rparr> (m_connInfoMap s)\<rparr>"
    by simp
  then show ?thesis by (simp add: follows_def link_of_def)
qed

lemma closed_follows: "tcpClosed E i c s = Some t \<Longrightarrow> follows cid (EvTcpClosed i c) s t"
  by (auto simp: tcpClosed_def LogTCP_def bind_eq_Some_conv follows_def link_of_def)

lemma receive_follows: "follows cid (EvTcpReceive i buf len) s (tcpReceive E i buf len s)"
  by (cases "map_of (m_connInfoMap s) i")
    (auto simp: tcpReceive_def Let_def follows_def link_of_def released_def)

lemma send_follows:
  assumes "0 \<le> len" "tcpSend E i buf len s = Some t"
  shows "follows cid (EvTcpSend i buf len) s t"
proof (cases "map_of (m_connInfoMap s) i")
  case None
  with assms(2) show ?thesis by (auto simp: tcpSend_def follows_def link_of_def)
next
  case (Some oci)
  let ?a = "oci_remoteAddress oci"
  show ?thesis
  proof (cases "sa_family ?a = Some AF_INET6")
    case True
    with Some assms(2) show ?thesis by (auto simp: tcpSend_def follows_def link_of_def destination_def)
  next
    case False
    with Some assms(2) obtain ip port b where d: "sin_addr ?a = Some ip" "sin_port ?a = Some port"
      and b: "memcpy_from buf len = Some b"
      and t: "t = (emit E (Nf (TcpPostSend i (enc_SOCKS4_REQUEST (socks4_connect ip port)) (int sizeof_SOCKS4_REQUEST))) s)
        \<lparr>m_connInfoMap := m_insert i (oci\<lparr>pendedSends := pendedSends oci @ b\<rparr>) (m_connInfoMap s)\<rparr>"
      by (auto simp: tcpSend_def bind_eq_Some_conv Let_def split: if_splits)
    have "b = take (nat len) buf" using b assms(1) by (auto simp: memcpy_from_def rdn_def split: if_splits)
    with t Some d False show ?thesis
      by (auto simp: follows_def link_of_def destination_def connect_request_def sizeof_SOCKS4_REQUEST_def emit_eq)
  qed
qed

lemma event_follows:
  assumes "handler_inv s" "event_ok ev s" "handle_event E ev s = Some t"
  shows "follows cid ev s t"
proof (cases "tcp_event ev")
  case False
  with other_event [OF assms(3)] show ?thesis by (simp add: follows_def)
next
  case True
  have "handler_own s" using assms(1) by (simp add: handler_inv_def)
  with True assms(2,3) show ?thesis
    by (cases ev) (auto intro: connect_follows closed_follows receive_follows send_follows)
qed

lemma completion_links:
  assumes "handler_inv s" "legal s c"
    and "worker_body (onComplete E (EventHandler_onUdpReceiveComplete E)) c (deliver c s) = Some t"
  shows "tcp_calls cid (trace t) = tcp_calls cid (trace s)" "link_of t = link_of s"
  using ext_no_tcp [OF links.ext_completion [OF assms]]
    links_data [OF handler_data_more [OF more_worker_body [OF handler_receiver_more assms(3)]]] by simp_all

section \<open>Runs\<close>

text \<open>A run of the plugin with the driver's events in their order; completions come at any time.\<close>

inductive plugin_run :: "env \<Rightarrow> event_handler \<Rightarrow> nf_event list \<Rightarrow> event_handler \<Rightarrow> bool" for E where
  run_nothing: "plugin_run E s [] s"
| run_event: "plugin_run E s evs t \<Longrightarrow> event_ok ev t \<Longrightarrow> handle_event E ev t = Some u \<Longrightarrow> plugin_run E s (evs @ [ev]) u"
| run_completion: "plugin_run E s evs t \<Longrightarrow> legal t c \<Longrightarrow>
    worker_body (onComplete E (EventHandler_onUdpReceiveComplete E)) c (deliver c t) = Some u \<Longrightarrow> plugin_run E s evs u"

fun link_run :: "ENDPOINT_ID \<Rightarrow> nf_event list \<Rightarrow> tcp_link \<Rightarrow> tcp_link \<times> nf_call list" where
  "link_run cid [] l = (l, [])"
| "link_run cid (ev # evs) l =
     (let (l, out) = link_step cid ev l; (l, outs) = link_run cid evs l in (l, out @ outs))"

lemma link_run_append: "link_run cid (xs @ ys) l =
    (let (l, out) = link_run cid xs l; (l, outs) = link_run cid ys l in (l, out @ outs))"
  by (induction xs arbitrary: l) (simp_all add: split_def Let_def)

lemma run_reach: "plugin_run E s evs t \<Longrightarrow> handler_reach E s \<Longrightarrow> handler_reach E t"
  by (induction rule: plugin_run.induct) (auto intro: handler_run step_event step_completion)

lemma run_follows:
  assumes "plugin_run E s evs t" "handler_reach E s"
  shows "tcp_calls cid (trace t) = tcp_calls cid (trace s) @ snd (link_run cid evs (link_of s cid)) \<and>
    link_of t cid = fst (link_run cid evs (link_of s cid))"
  using assms
proof (induction rule: plugin_run.induct)
  case (run_event s evs t ev u)
  from event_follows [OF handler_reach_inv [OF run_reach [OF run_event(1,5)]] run_event(2,3), of cid] run_event
  show ?case by (simp add: follows_def link_run_append split_def Let_def)
next
  case (run_completion s evs t c u)
  from completion_links [OF handler_reach_inv [OF run_reach [OF run_completion(1,5)]] run_completion(2,3)] run_completion
  show ?case by simp
qed simp

section \<open>One connection's stream\<close>

fun app_sent :: "ENDPOINT_ID \<Rightarrow> nf_event list \<Rightarrow> bytes list" where
  "app_sent cid [] = []"
| "app_sent cid (EvTcpSend i buf len # evs) = (if i = cid then [take (nat len) buf] else []) @ app_sent cid evs"
| "app_sent cid (ev # evs) = app_sent cid evs"

fun passed_on :: "ENDPOINT_ID \<Rightarrow> nf_event list \<Rightarrow> nf_call list" where
  "passed_on cid [] = []"
| "passed_on cid (EvTcpSend i buf len # evs) = (if i = cid then [TcpPostSend cid buf len] else []) @ passed_on cid evs"
| "passed_on cid (EvTcpReceive i buf len # evs) =
     (if i = cid then [TcpPostReceive cid buf len, TcpDisableFiltering cid] else []) @ passed_on cid evs"
| "passed_on cid (ev # evs) = passed_on cid evs"

fun answer_event :: "ENDPOINT_ID \<Rightarrow> nf_event \<Rightarrow> bool" where
  "answer_event cid (EvTcpReceive i buf len) = (i = cid)"
| "answer_event cid ev = False"

fun reset_event :: "ENDPOINT_ID \<Rightarrow> nf_event \<Rightarrow> bool" where
  "reset_event cid (EvTcpConnectRequest i c) = (i = cid)"
| "reset_event cid (EvTcpClosed i c) = (i = cid)"
| "reset_event cid ev = False"

lemma link_run_tracked:
  "\<forall>ev \<in> set evs. \<not> reset_event cid ev \<and> \<not> answer_event cid ev \<Longrightarrow>
   link_run cid evs (Tracked (Some d) held) =
     (Tracked (Some d) (held @ concat (app_sent cid evs)), replicate (length (app_sent cid evs)) (connect_request cid d))"
proof (induction evs arbitrary: held)
  case (Cons ev evs)
  then show ?case by (cases ev) (simp_all add: Let_def)
qed simp

lemma link_run_direct:
  "\<forall>ev \<in> set evs. \<not> reset_event cid ev \<Longrightarrow> link_run cid evs Direct = (Direct, passed_on cid evs)"
proof (induction evs)
  case (Cons ev evs)
  then show ?case by (cases ev) (simp_all add: Let_def)
qed simp

lemma link_run_answer:
  assumes "answer_event cid ev" "\<forall>ev \<in> set evs. \<not> reset_event cid ev"
  shows "link_run cid (ev # evs) (Tracked d held) = (Direct, released cid held @ passed_on cid evs)"
  using assms by (cases ev) (simp_all add: link_run_direct)

lemma run_goes_on:
  assumes "handler_reach E s" "plugin_run E s evs t" "event_ok ev t" "event_sendable ev t"
  shows "\<exists>u. plugin_run E s (evs @ [ev]) u"
  using handle_event_handled [OF handler_reach_inv [OF run_reach [OF assms(2,1)]] assms(3,4), of E]
    run_event [OF assms(2,3)] by (auto simp: event_handled_def)

section \<open>Properties\<close>

text \<open>
  C17: the plugin treats every TCP endpoint as a link of its own: each event of the driver takes the
  endpoint's link, and the calls made for it, exactly as the abstract machine says, whatever
  endpoint the event is for; no completion changes a link or makes a call for it.
\<close>

theorem plugin_refines_links:
  assumes "handler_reach E s"
  shows "(event_ok ev s \<and> handle_event E ev s = Some t \<longrightarrow>
      tcp_calls cid (trace t) = tcp_calls cid (trace s) @ snd (link_step cid ev (link_of s cid)) \<and>
      link_of t cid = fst (link_step cid ev (link_of s cid))) \<and>
    (legal s c \<and> worker_body (onComplete E (EventHandler_onUdpReceiveComplete E)) c (deliver c s) = Some u \<longrightarrow>
      tcp_calls cid (trace u) = tcp_calls cid (trace s) \<and> link_of u cid = link_of s cid)"
  using event_follows [OF handler_reach_inv [OF assms], of ev E t cid]
    completion_links [OF handler_reach_inv [OF assms], of c E u]
  by (auto simp: follows_def)

theorem plugin_refines_links_witness:
  "link_of example_tracked 5 = Tracked (Some (0x8080808, 0x5000)) [] \<and>
    tcp_calls 5 (trace example_tracked) = tcp_calls 5 (trace example_handler)"
proof -
  let ?ev = "EvTcpConnectRequest 5 example_request"
  have "handle_event handler_env ?ev example_handler = Some example_tracked"
    using handle_event_handled [OF handler_reach_inv [OF example_handler_reach], of ?ev handler_env] example_request_ok
    by (auto simp: event_handled_def example_tracked_def)
  moreover have "destination (ci_remoteAddress example_request) = Some (0x8080808, 0x5000)"
    unfolding destination_def example_request_def by code_simp
  ultimately show ?thesis
    using plugin_refines_links [OF example_handler_reach, where ev = ?ev and t = example_tracked and cid = 5] example_request_ok
    by simp
qed

text \<open>
  C18: the stream of a redirected IPv4 connection, in any run of the plugin in which the connection is
  neither opened again nor closed: until the proxy's first answer all that the application sends is
  held back, and one CONNECT request for the original address is sent for each piece; the first
  answer is consumed and releases the held data in one piece, in its order; after it every piece is
  passed on in both directions. Other endpoints, datagrams and completions change nothing of this.
\<close>

theorem tcp_stream:
  assumes "handler_reach E s" "link_of s cid = Tracked (Some d) []" "plugin_run E s evs t"
    and "\<forall>ev \<in> set evs. \<not> reset_event cid ev"
  shows "let held = app_sent cid (takeWhile (\<lambda>ev. \<not> answer_event cid ev) evs);
      answered = dropWhile (\<lambda>ev. \<not> answer_event cid ev) evs
    in tcp_calls cid (trace t) = tcp_calls cid (trace s) @ replicate (length held) (connect_request cid d) @
        (if answered = [] then [] else released cid (concat held) @ passed_on cid (tl answered)) \<and>
      link_of t cid = (if answered = [] then Tracked (Some d) (concat held) else Direct)"
proof -
  define xs ys where "xs = takeWhile (\<lambda>ev. \<not> answer_event cid ev) evs" "ys = dropWhile (\<lambda>ev. \<not> answer_event cid ev) evs"
  have quiet: "\<forall>ev \<in> set xs. \<not> reset_event cid ev \<and> \<not> answer_event cid ev"
    using assms(4) set_takeWhileD unfolding xs_ys_def by fastforce
  have evs: "evs = xs @ ys" by (simp add: xs_ys_def)
  have "link_run cid evs (Tracked (Some d) []) =
     (if ys = [] then Tracked (Some d) (concat (app_sent cid xs)) else Direct,
      replicate (length (app_sent cid xs)) (connect_request cid d) @
        (if ys = [] then [] else released cid (concat (app_sent cid xs)) @ passed_on cid (tl ys)))"
  proof (cases ys)
    case Nil
    then show ?thesis using link_run_tracked [OF quiet] by (simp add: evs)
  next
    case (Cons ev later)
    then have "answer_event cid ev" using hd_dropWhile [of "\<lambda>ev. \<not> answer_event cid ev" evs] by (simp add: xs_ys_def)
    moreover have "\<forall>ev \<in> set later. \<not> reset_event cid ev" using assms(4) Cons by (simp add: evs)
    ultimately show ?thesis
      using Cons by (simp add: evs link_run_append link_run_tracked [OF quiet] link_run_answer Let_def del: link_run.simps)
  qed
  with run_follows [OF assms(3,1), of cid] assms(2) show ?thesis by (simp add: xs_ys_def Let_def)
qed

text \<open>Two pieces before the answer, one after it; a datagram of another endpoint in between.\<close>

theorem tcp_stream_witness:
  "\<exists>t. plugin_run handler_env example_tracked [EvTcpSend 5 [1, 2] 2, EvTcpSend 5 [3] 1,
      EvUdpReceive 7 example_address [9] 1 None, EvTcpReceive 5 [0, 90] 2, EvTcpSend 5 [4] 1] t \<and>
    tcp_calls 5 (trace t) = tcp_calls 5 (trace example_tracked) @
      [TcpPostSend 5 [4, 1, 0, 0x50, 8, 8, 8, 8, 0] 9, TcpPostSend 5 [4, 1, 0, 0x50, 8, 8, 8, 8, 0] 9,
       TcpPostSend 5 [1, 2, 3] 3, TcpPostSend 5 [4] 1]"
proof -
  have link: "link_of example_tracked 5 = Tracked (Some (0x8080808, 0x5000)) []"
    unfolding link_of_def example_tracked_reach(2) destination_def example_request_def by code_simp
  note step = run_goes_on [OF example_tracked_reach(1)]
  obtain t1 where 1: "plugin_run handler_env example_tracked ([] @ [EvTcpSend 5 [1, 2] 2]) t1"
    using step [OF run_nothing] by fastforce
  obtain t2 where 2: "plugin_run handler_env example_tracked (([] @ [EvTcpSend 5 [1, 2] 2]) @ [EvTcpSend 5 [3] 1]) t2"
    using step [OF 1] by fastforce
  obtain t3 where 3: "plugin_run handler_env example_tracked ((([] @ [EvTcpSend 5 [1, 2] 2]) @ [EvTcpSend 5 [3] 1])
      @ [EvUdpReceive 7 example_address [9] 1 None]) t3" using step [OF 2] by fastforce
  obtain t4 where 4: "plugin_run handler_env example_tracked (((([] @ [EvTcpSend 5 [1, 2] 2]) @ [EvTcpSend 5 [3] 1])
      @ [EvUdpReceive 7 example_address [9] 1 None]) @ [EvTcpReceive 5 [0, 90] 2]) t4" using step [OF 3] by fastforce
  obtain t where t: "plugin_run handler_env example_tracked ((((([] @ [EvTcpSend 5 [1, 2] 2]) @ [EvTcpSend 5 [3] 1])
      @ [EvUdpReceive 7 example_address [9] 1 None]) @ [EvTcpReceive 5 [0, 90] 2]) @ [EvTcpSend 5 [4] 1]) t"
    using step [OF 4] by fastforce
  have "connect_request 5 (0x8080808, 0x5000) = TcpPostSend 5 [4, 1, 0, 0x50, 8, 8, 8, 8, 0] 9"
    "int_of_size 3 = 3" by code_simp+
  with tcp_stream [OF example_tracked_reach(1) link t] t show ?thesis
    by (auto simp: released_def Let_def eval_nat_numeral)
qed

end
