(* ===== verification/Handler_Threads.thy ===== *)
theory Handler_Threads
  imports Handler_Inv
begin

text \<open>
  The two threads that run the plugin's code at the same time: the driver's thread, which calls the
  event handler (one thread, the default of \<open>nf_setOptions\<close>), and the worker thread of the
  completion port. Each operation is cut where a thread can be preempted with an effect the other
  one sees: at the borders of the critical section \<open>m_cs\<close> and of the mutex \<open>lock\<close>, and around the
  calls that hand a request to the platform. What lies between two cuts either runs inside one
  critical section or touches the thread's own data. A program counter is a constructor that
  carries the thread's local variables; the shared state is the handler's.

  Only the driver's thread holds the mutex over several steps (it creates a connection under it);
  the worker's use of it, the indication of a datagram, is one step, which waits while the driver's
  thread holds it.
\<close>

section \<open>The driver's thread\<close>

record udp_send =
  us_id :: ENDPOINT_ID
  us_remoteAddress :: bytes
  us_buf :: bytes
  us_len :: int
  us_options :: "NF_UDP_OPTIONS option"

datatype driver_pc =
    DReady
  | DSockets udp_send
  | DInsert udp_send sock sock
  | DRegister udp_send sock sock
  | DRequest udp_send sock
  | DConnect udp_send sock ovp
  | DFreeRequest udp_send ovp
  | DUndo udp_send
  | DUnlock
  | DContext udp_send
  | DSend udp_send
  | DDirect udp_send
  | DClose ENDPOINT_ID
  | DErase ENDPOINT_ID

text \<open>The driver calls the handler: the part of the method up to its first cut.\<close>

fun driver_call :: "env \<Rightarrow> nf_event \<Rightarrow> event_handler \<Rightarrow> (driver_pc \<times> event_handler) option" where
  "driver_call E (EvUdpSend cid ra buf len opts) s =
     (let u = \<lparr>us_id = cid, us_remoteAddress = ra, us_buf = buf, us_len = len, us_options = opts\<rparr>;
          s = lock_guard E s
      in case map_of (m_udpCtxMap s) cid of
           Some ctx \<Rightarrow> Some (DSend u, unlock_guard E s)
         | None \<Rightarrow> Some (DSockets u, s))"
| "driver_call E (EvUdpClosed cid c) s = do { s \<leftarrow> LogUDP E False cid c s; Some (DClose cid, s) }"
| "driver_call E ev s = map_option (Pair DReady) (handle_event E ev s)"

text \<open>
  \<open>DSockets\<close> to \<open>DUndo\<close> are \<open>UDPProxy::createProxyConnection\<close> (with \<open>startConnect\<close> in \<open>DRequest\<close>,
  \<open>DConnect\<close> and \<open>DFreeRequest\<close>), called with the mutex held; \<open>DSend\<close> is \<open>UDPProxy::udpSend\<close>, one
  critical section; \<open>DClose\<close> and \<open>DErase\<close> are the two halves of \<open>udpClosed\<close>.
\<close>

fun driver_step :: "env \<Rightarrow> driver_pc \<Rightarrow> event_handler \<Rightarrow> (driver_pc \<times> event_handler) option" where
  "driver_step E DReady s = Some (DReady, s)"
| "driver_step E (DSockets u) s =
     (let (tcp, s) = sys E (Net (WSASocket SOCK_STREAM)) s
      in if tcp = INVALID_SOCKET then Some (DUnlock, s)
         else let (udp, s) = sys E (Net (WSASocket SOCK_DGRAM)) s
              in if udp = INVALID_SOCKET then Some (DUnlock, emit E (Net (Closesocket tcp)) s)
                 else Some (DInsert u tcp udp, s))"
| "driver_step E (DInsert u tcp udp) s =
     (let s = enter_cs E s;
          pd = new_PROXY_DATA\<lparr>tcpSocket := tcp, udpSocket := udp,
                 userName := m_userName s, userPassword := m_userPassword s\<rparr>;
          s = s\<lparr>m_socketMap := m_insert (us_id u) pd (m_socketMap s)\<rparr>
      in Some (DRegister u tcp udp, leave_cs E s))"
| "driver_step E (DRegister u tcp udp) s =
     (let (r1, s) = registerSocket E tcp s
      in if \<not> r1 then Some (DUndo u, s)
         else let (r2, s) = registerSocket E udp s
              in Some (if r2 then DRequest u tcp else DUndo u, s))"
| "driver_step E (DRequest u tcp) s =
     (let (pov, s) = newOV_DATA E s;
          s = ov_upd pov (\<lambda>d. d\<lparr>ov_type := OVT_CONNECT, ov_id := us_id u\<rparr>) s
      in Some (DConnect u tcp pov, s))"
| "driver_step E (DConnect u tcp pov) s =
     (let addr = take (nat (m_proxyAddressLen s)) (m_proxyAddress s);
          s = emit E (Net (Bind tcp)) s;
          (ok, s) = submit E (\<lambda>r. r \<noteq> 0) (Net (ConnectEx tcp addr pov)) pov s
      in Some (if ok then DContext u else DFreeRequest u pov, s))"
| "driver_step E (DFreeRequest u pov) s = Some (DUndo u, deleteOV_DATA E pov s)"
| "driver_step E (DUndo u) s = Some (DUnlock, deleteProxyConnection E (us_id u) s)"
| "driver_step E DUnlock s = Some (DReady, unlock_guard E s)"
| "driver_step E (DContext u) s = do {
     ctx \<leftarrow> UDPContext_ctor (us_options u);
     let s = s\<lparr>m_udpCtxMap := m_insert (us_id u) ctx (m_udpCtxMap s)\<rparr>;
     Some (DSend u, unlock_guard E s)
   }"
| "driver_step E (DSend u) s = do {
     family \<leftarrow> sa_family (us_remoteAddress u);
     let addrLen = (if family = AF_INET then sizeof_sockaddr_in else sizeof_sockaddr_in6);
     (sent, s) \<leftarrow> udpSend E (us_id u) (us_buf u) (us_len u) (us_remoteAddress u) (int addrLen) s;
     Some (if sent then DReady else DDirect u, s)
   }"
| "driver_step E (DDirect u) s =
     Some (DReady, emit E (Nf (UdpPostSend (us_id u) (us_remoteAddress u) (us_buf u) (us_len u)
                                (map_option enc_NF_UDP_OPTIONS (us_options u)))) s)"
| "driver_step E (DClose cid) s = Some (DErase cid, deleteProxyConnection E cid s)"
| "driver_step E (DErase cid) s =
     (let s = lock_guard E s;
          s = (case map_of (m_udpCtxMap s) cid of
                 None \<Rightarrow> s
               | Some ctx \<Rightarrow> s\<lparr>m_udpCtxMap := m_erase cid (m_udpCtxMap s)\<rparr>)
      in Some (DReady, unlock_guard E s))"

fun holds_mutex :: "driver_pc \<Rightarrow> bool" where
  "holds_mutex (DSockets u) = True"
| "holds_mutex (DInsert u tcp udp) = True"
| "holds_mutex (DRegister u tcp udp) = True"
| "holds_mutex (DRequest u tcp) = True"
| "holds_mutex (DConnect u tcp pov) = True"
| "holds_mutex (DFreeRequest u pov) = True"
| "holds_mutex (DUndo u) = True"
| "holds_mutex DUnlock = True"
| "holds_mutex (DContext u) = True"
| "holds_mutex d = False"

section \<open>The worker thread\<close>

datatype worker_pc =
    WReady
  | WComplete sock u32 ovp u32
  | WForward sock ovp u64 bytes int bytes int
  | WTcpReceive sock ovp
  | WUdpReceive sock ovp
  | WPost sock ovp
  | WDelete ovp

text \<open>
  The thread takes a packet from the port and calls \<open>onComplete\<close>, which follows the overlapped pointer
  of the packet, a null pointer too; a time-out is dropped.
\<close>

definition worker_take :: "completion \<Rightarrow> event_handler \<Rightarrow> (worker_pc \<times> event_handler) option" where
  "worker_take c s =
     (if is_timeout c then Some (WReady, deliver c s)
      else do {
        pov \<leftarrow> cq_overlapped c;
        Some (WComplete (cq_socket c) (cq_transferred c) pov (if cq_ok c then 0 else cq_error c), deliver c s)
      })"

text \<open>The datagram that \<open>onUdpReceiveComplete\<close> passes to the handler, as far as it passes one.\<close>

definition forwarded :: "OV_DATA \<Rightarrow> u32 \<Rightarrow> ((bytes \<times> int \<times> bytes \<times> int) option) option" where
  "forwarded d dwTransferred =
     (if unat dwTransferred > sizeof_SOCKS5_UDP_REQUEST then do {
        pReq \<leftarrow> dec_SOCKS5_UDP_REQUEST (ov_buffer d);
        if s5u_address_type pReq = SOCKS5_ADDR_IPV4 then do {
          r4 \<leftarrow> dec_SOCKS5_UDP_REQUEST_IPv4 (ov_buffer d);
          let sz = sizeof_SOCKS5_UDP_REQUEST_IPv4;
          Some (Some (drop sz (ov_buffer d), payload_len dwTransferred sz,
                      mk_sockaddr_in (s5u4_port r4) (s5u4_address r4), int sizeof_sockaddr_in))
        }
        else if s5u_address_type pReq = SOCKS5_ADDR_IPV6 then do {
          r6 \<leftarrow> dec_SOCKS5_UDP_REQUEST_IPv6 (ov_buffer d);
          let sz = sizeof_SOCKS5_UDP_REQUEST_IPv6;
          Some (Some (drop sz (ov_buffer d), payload_len dwTransferred sz,
                      mk_sockaddr_in6 (s5u6_port r6) (s5u6_address r6), int sizeof_sockaddr_in6))
        }
        else Some None
      }
      else Some None)"

text \<open>
  \<open>WComplete\<close> is the part of the five completion handlers up to their first cut; \<open>WForward\<close> the call
  of the handler's \<open>onUdpReceiveComplete\<close>; \<open>WTcpReceive\<close>, \<open>WUdpReceive\<close>, \<open>WPost\<close> and \<open>WDelete\<close>
  are \<open>startTcpReceive\<close> and \<open>startUdpReceive\<close> with the object of the completion.
\<close>

fun worker_step :: "env \<Rightarrow> worker_pc \<Rightarrow> event_handler \<Rightarrow> (worker_pc \<times> event_handler) option" where
  "worker_step E WReady s = Some (WReady, s)"
| "worker_step E (WComplete sk n pov err) s = do {
     d \<leftarrow> map_of (m_ovDataSet s) pov;
     (case ov_type d of
        OVT_UDP_SEND \<Rightarrow> Some (WDelete pov, s)
      | OVT_TCP_SEND \<Rightarrow> Some (WDelete pov, s)
      | OVT_CONNECT \<Rightarrow>
          if err \<noteq> 0 then Some (WDelete pov, deleteProxyConnection E (ov_id d) s)
          else map_option (Pair WReady) (onConnectComplete E sk n pov err s)
      | OVT_TCP_RECEIVE \<Rightarrow>
          if n = 0 then Some (WDelete pov, s)
          else do {
            let s = enter_cs E s;
            s \<leftarrow> (case map_of (m_socketMap s) (ov_id d) of
                    None \<Rightarrow> Some s
                  | Some pd \<Rightarrow> tcp_reply E (ov_id d) pd n (ov_buffer d) s);
            Some (WTcpReceive sk pov, leave_cs E s)
          }
      | OVT_UDP_RECEIVE \<Rightarrow>
          if n = 0 then Some (WDelete pov, s)
          else do {
            f \<leftarrow> forwarded d n;
            (case f of
               None \<Rightarrow> Some (WUdpReceive sk pov, s)
             | Some (buf, len, addr, alen) \<Rightarrow> Some (WForward sk pov (ov_id d) buf len addr alen, s))
          })
   }"
| "worker_step E (WForward sk pov cid buf len addr alen) s =
     (if m_pProxyHandler s
      then map_option (Pair (WUdpReceive sk pov)) (EventHandler_onUdpReceiveComplete E cid buf len addr alen s)
      else None)"
| "worker_step E (WTcpReceive sk pov) s = do {
     d \<leftarrow> map_of (m_ovDataSet s) pov;
     let (ok, s) = submit E (\<lambda>r. r = 0) (Net (WSARecv sk pov)) pov s;
     Some (if ok then WReady else WPost sk pov, s)
   }"
| "worker_step E (WUdpReceive sk pov) s = do {
     d \<leftarrow> map_of (m_ovDataSet s) pov;
     let s = ov_upd pov (\<lambda>d. d\<lparr>ov_remoteAddressLen := int NF_MAX_ADDRESS_LENGTH\<rparr>) s;
     let (ok, s) = submit E (\<lambda>r. r = 0) (Net (WSARecvFrom sk pov)) pov s;
     Some (if ok then WReady else WPost sk pov, s)
   }"
| "worker_step E (WPost sk pov) s =
     (let (posted, s) = postCompletion E sk 0 pov s
      in Some (if posted then WReady else WDelete pov, s))"
| "worker_step E (WDelete pov) s = Some (WReady, deleteOV_DATA E pov s)"

fun wants_mutex :: "worker_pc \<Rightarrow> bool" where
  "wants_mutex (WForward sk pov cid buf len addr alen) = True"
| "wants_mutex w = False"

section \<open>Interleaving\<close>

type_synonym threads = "driver_pc \<times> worker_pc \<times> event_handler"

text \<open>\<open>busy_step\<close>: a thread that is in an operation goes on.\<close>

inductive busy_step :: "env \<Rightarrow> threads \<Rightarrow> threads \<Rightarrow> bool" for E where
  driver_goes_on: "d \<noteq> DReady \<Longrightarrow> driver_step E d s = Some (d', s') \<Longrightarrow> busy_step E (d, w, s) (d', w, s')"
| worker_goes_on: "w \<noteq> WReady \<Longrightarrow> \<not> (wants_mutex w \<and> holds_mutex d) \<Longrightarrow>
    worker_step E w s = Some (w', s') \<Longrightarrow> busy_step E (d, w, s) (d, w', s')"

inductive thread_step :: "env \<Rightarrow> threads \<Rightarrow> threads \<Rightarrow> bool" for E where
  driver_enters: "event_ok ev s \<Longrightarrow> driver_call E ev s = Some (d, s') \<Longrightarrow>
    thread_step E (DReady, w, s) (d, w, s')"
| worker_takes: "legal s c \<Longrightarrow> worker_take c s = Some (w, s') \<Longrightarrow>
    thread_step E (d, WReady, s) (d, w, s')"
| thread_goes_on: "busy_step E x y \<Longrightarrow> thread_step E x y"

inductive_cases busy_stepE: "busy_step E (d, w, s) y"
inductive_cases thread_stepE: "thread_step E (d, w, s) y"

section \<open>A thread on its own\<close>

text \<open>A thread that is not interrupted, until it is ready again; \<open>n\<close> bounds its steps.\<close>

fun run_driver :: "env \<Rightarrow> nat \<Rightarrow> driver_pc \<times> event_handler \<Rightarrow> event_handler option" where
  "run_driver E n (DReady, s) = Some s"
| "run_driver E 0 (d, s) = None"
| "run_driver E (Suc n) (d, s) = Option.bind (driver_step E d s) (run_driver E n)"

fun run_worker :: "env \<Rightarrow> nat \<Rightarrow> worker_pc \<times> event_handler \<Rightarrow> event_handler option" where
  "run_worker E n (WReady, s) = Some s"
| "run_worker E 0 (w, s) = None"
| "run_worker E (Suc n) (w, s) = Option.bind (worker_step E w s) (run_worker E n)"

lemma run_driver_Suc: "d \<noteq> DReady \<Longrightarrow> run_driver E (Suc n) (d, s) = Option.bind (driver_step E d s) (run_driver E n)"
  by (cases d) simp_all

lemma run_worker_Suc: "w \<noteq> WReady \<Longrightarrow> run_worker E (Suc n) (w, s) = Option.bind (worker_step E w s) (run_worker E n)"
  by (cases w) simp_all

definition send_rest :: "env \<Rightarrow> udp_send \<Rightarrow> event_handler \<Rightarrow> event_handler option" where
  "send_rest E u s = do {
     family \<leftarrow> sa_family (us_remoteAddress u);
     let addrLen = (if family = AF_INET then sizeof_sockaddr_in else sizeof_sockaddr_in6);
     (sent, s) \<leftarrow> udpSend E (us_id u) (us_buf u) (us_len u) (us_remoteAddress u) (int addrLen) s;
     if \<not> sent
     then Some (emit E (Nf (UdpPostSend (us_id u) (us_remoteAddress u) (us_buf u) (us_len u)
                              (map_option enc_NF_UDP_OPTIONS (us_options u)))) s)
     else Some s
   }"

lemma run_ready: "run_driver E n (if b then DReady else d, s) = (if b then Some s else run_driver E n (d, s))"
  by simp

lemma run_send: "run_driver E (Suc (Suc n)) (DSend u, s) = send_rest E u s"
proof -
  have direct: "run_driver E (Suc n) (DDirect u, t) = Some (emit E (Nf (UdpPostSend (us_id u) (us_remoteAddress u)
      (us_buf u) (us_len u) (map_option enc_NF_UDP_OPTIONS (us_options u)))) t)" for t by simp
  show ?thesis
    unfolding run_driver.simps(13) send_rest_def
    by (simp add: Let_def split_def run_ready direct del: run_driver.simps(3) cong: if_cong)
      (auto intro!: Option.bind_cong)
qed

lemma proxyAddressLen_frame [simp]:
  "m_proxyAddressLen (ov_upd p f s) = m_proxyAddressLen s"
  "m_proxyAddressLen (snd (newOV_DATA E s)) = m_proxyAddressLen s"
  by (simp_all add: ov_upd_def newOV_DATA_def Let_def split: option.split)

definition context_rest :: "env \<Rightarrow> udp_send \<Rightarrow> event_handler \<Rightarrow> event_handler option" where
  "context_rest E u s = do {
     ctx \<leftarrow> UDPContext_ctor (us_options u);
     send_rest E u (unlock_guard E (s\<lparr>m_udpCtxMap := m_insert (us_id u) ctx (m_udpCtxMap s)\<rparr>))
   }"

lemma run_context: "run_driver E (Suc (Suc (Suc n))) (DContext u, s) = context_rest E u s"
  by (subst run_driver_Suc) (simp_all add: context_rest_def run_send del: run_driver.simps)

lemma run_undo: "run_driver E (Suc (Suc n)) (DUndo u, s) = Some (unlock_guard E (deleteProxyConnection E (us_id u) s))"
  by simp

lemma run_request:
  "run_driver E 5 (DRequest u tcp, s) =
     (let (ok, t) = startConnect E tcp (take (nat (m_proxyAddressLen s)) (m_proxyAddress s)) (us_id u) s
      in if ok then context_rest E u t else Some (unlock_guard E (deleteProxyConnection E (us_id u) t)))"
proof -
  have "run_driver E 5 (DRequest u tcp, s) = Option.bind (driver_step E (DRequest u tcp) s) (run_driver E 4)"
    by (simp add: eval_nat_numeral)
  moreover have "run_driver E 4 (DConnect u tcp p, t) = Option.bind (driver_step E (DConnect u tcp p) t) (run_driver E 3)" for p t
    by (simp add: eval_nat_numeral)
  moreover have "run_driver E 3 (DContext u, t) = context_rest E u t"
    "run_driver E 3 (DFreeRequest u p, t) = Some (unlock_guard E (deleteProxyConnection E (us_id u) (deleteOV_DATA E p t)))" for p t
    using run_context [of E 0] by (simp_all add: eval_nat_numeral)
  ultimately show ?thesis by (simp add: startConnect_def split_def Let_def del: run_driver.simps(2-))
qed

lemma run_create:
  "run_driver E 8 (DSockets u, s) =
     (let (ok, t) = createProxyConnection E (us_id u) s
      in if ok then context_rest E u t else Some (unlock_guard E t))"
proof -
  have "run_driver E 8 (DSockets u, t) = Option.bind (driver_step E (DSockets u) t) (run_driver E 7)"
    "run_driver E 7 (DInsert u tcp udp, t) = Option.bind (driver_step E (DInsert u tcp udp) t) (run_driver E 6)"
    "run_driver E 6 (DRegister u tcp udp, t) = Option.bind (driver_step E (DRegister u tcp udp) t) (run_driver E 5)" for t tcp udp
    by (simp_all add: eval_nat_numeral)
  moreover have "run_driver E 7 (DUnlock, t) = Some (unlock_guard E t)"
    "run_driver E 5 (DUndo u, t) = Some (unlock_guard E (deleteProxyConnection E (us_id u) t))" for t
    by (simp_all add: eval_nat_numeral)
  ultimately show ?thesis
    by (simp add: createProxyConnection_def split_def Let_def run_request del: run_driver.simps(2-))
qed

lemma driver_alone_eq: "Option.bind (driver_call E ev s) (run_driver E 8) = handle_event E ev s"
proof (cases ev)
  case (EvUdpSend cid ra buf len opts)
  have send: "run_driver E 8 (DSend u, t) = send_rest E u t" for u t
    using run_send [of E 6] by (simp add: eval_nat_numeral)
  show ?thesis
    by (cases "map_of (m_udpCtxMap s) cid"; cases "fst (createProxyConnection E cid (lock_guard E s))")
      (simp_all add: EvUdpSend send run_create EventHandler_udpSend_def ensure_connection_def context_rest_def
        send_rest_def Let_def split_def cong: if_cong)
next
  case (EvUdpClosed cid c)
  have "run_driver E 8 (DClose cid, t) = Option.bind (driver_step E (DClose cid) t) (run_driver E 7)"
    "run_driver E 7 (DErase cid, t) = Option.bind (driver_step E (DErase cid) t) (run_driver E 6)" for t
    by (simp_all add: eval_nat_numeral)
  then show ?thesis by (simp add: EvUdpClosed udpClosed_def Let_def cong: option.case_cong)
qed (simp_all add: option.map_comp comp_def bind_map_option map_conv_bind_option)

lemma run_post: "run_worker E (Suc (Suc n)) (WPost sk p, s) = Some (post_or_delete E sk p s)"
  by (simp add: post_or_delete_def split_def Let_def)

lemma run_tcp_receive:
  "run_worker E (Suc (Suc (Suc n))) (WTcpReceive sk p, s) = do {
     d \<leftarrow> map_of (m_ovDataSet s) p;
     (r, s) \<leftarrow> startTcpReceive E sk (ov_id d) (Some p) s;
     Some s }"
  by (subst run_worker_Suc, simp)
    (auto simp: startTcpReceive_def split_def Let_def run_post simp del: run_worker.simps(3-) intro!: Option.bind_cong)

lemma run_udp_receive:
  "run_worker E (Suc (Suc (Suc n))) (WUdpReceive sk p, s) = do {
     d \<leftarrow> map_of (m_ovDataSet s) p;
     (r, s) \<leftarrow> startUdpReceive E sk (ov_id d) (Some p) s;
     Some s }"
  by (subst run_worker_Suc, simp)
    (auto simp: startUdpReceive_def split_def Let_def run_post simp del: run_worker.simps(3-) intro!: Option.bind_cong)

lemma run_complete:
  "run_worker E 5 (WComplete sk n p err, s) = onComplete E (EventHandler_onUdpReceiveComplete E) sk n (Some p) err s"
proof (cases "map_of (m_ovDataSet s) p")
  case (Some d)
  have run: "run_worker E 5 (WComplete sk n p err, s) = Option.bind (worker_step E (WComplete sk n p err) s) (run_worker E 4)"
    "run_worker E 4 (WForward sk p i b l a al, t) = Option.bind (worker_step E (WForward sk p i b l a al) t) (run_worker E 3)"
    "run_worker E 4 (WDelete p, t) = Some (deleteOV_DATA E p t)" for t i b l a al
    by (simp_all add: eval_nat_numeral)
  have rearm: "run_worker E m (WTcpReceive sk p, t) = do {
      d \<leftarrow> map_of (m_ovDataSet t) p; (r, s) \<leftarrow> startTcpReceive E sk (ov_id d) (Some p) t; Some s }"
    "run_worker E m (WUdpReceive sk p, t) = do {
      d \<leftarrow> map_of (m_ovDataSet t) p; (r, s) \<leftarrow> startUdpReceive E sk (ov_id d) (Some p) t; Some s }"
    if "m \<in> {3, 4}" for m t
    using that run_tcp_receive [of E 0] run_tcp_receive [of E 1] run_udp_receive [of E 0] run_udp_receive [of E 1]
    by (auto simp: eval_nat_numeral simp del: run_worker.simps)
  show ?thesis
  proof (cases "ov_type d")
    case OVT_UDP_RECEIVE
    then show ?thesis
      by (cases "dec_SOCKS5_UDP_REQUEST (ov_buffer d)"; cases "dec_SOCKS5_UDP_REQUEST_IPv4 (ov_buffer d)";
          cases "dec_SOCKS5_UDP_REQUEST_IPv6 (ov_buffer d)")
        (simp_all add: run Some onComplete_def onUdpReceiveComplete_def forwarded_def rearm Let_def
          map_conv_bind_option comp_def del: run_worker.simps(2-))
  next
    case OVT_TCP_RECEIVE
    then show ?thesis
      by (simp add: run Some onComplete_def onTcpReceiveComplete_def rearm Let_def del: run_worker.simps(2-))
  qed (simp_all add: run Some onComplete_def onTcpSendComplete_def onUdpSendComplete_def onConnectComplete_def
      map_conv_bind_option comp_def del: run_worker.simps(2-))
qed (simp add: onComplete_def eval_nat_numeral)

lemma worker_alone_eq:
  assumes "legal s c"
  shows "Option.bind (worker_take c s) (run_worker E 5) =
    worker_body (onComplete E (EventHandler_onUdpReceiveComplete E)) c (deliver c s)"
proof (cases "cq_overlapped c")
  case None
  with assms show ?thesis
    by (cases "cq_ok c") (auto simp: worker_take_def deliver_def worker_body_def onComplete_def is_timeout_def legal_def
        port_error_def)
next
  case (Some p)
  with assms have "\<not> is_timeout c" by (simp add: legal_def)
  with Some show ?thesis
    by (cases "cq_ok c") (simp_all add: worker_take_def worker_body_def is_timeout_def run_complete)
qed

end
