(* ===== verification/Handler_Threads_Inv.thy ===== *)
theory Handler_Threads_Inv
  imports Handler_Threads
begin

text \<open>
  The invariant of the two threads, for every interleaving: at each program point an assertion about
  the thread's local variables (which the other thread's steps keep), the requests and sockets the
  thread holds, and the connection it is creating. The shared state satisfies the invariant of
  \<open>Handler_Inv\<close> up to these.
\<close>

section \<open>What a thread holds\<close>

fun driver_requests :: "driver_pc \<Rightarrow> ovp set" where
  "driver_requests (DConnect u tcp pov) = {pov}"
| "driver_requests (DFreeRequest u pov) = {pov}"
| "driver_requests d = {}"

fun driver_sockets :: "driver_pc \<Rightarrow> sock multiset" where
  "driver_sockets (DInsert u tcp udp) = {# tcp, udp #}"
| "driver_sockets d = {#}"

text \<open>The connection that is in the proxy's map and has no context yet.\<close>

fun creating :: "driver_pc \<Rightarrow> u64 set" where
  "creating (DRegister u tcp udp) = {us_id u}"
| "creating (DRequest u tcp) = {us_id u}"
| "creating (DConnect u tcp pov) = {us_id u}"
| "creating (DFreeRequest u pov) = {us_id u}"
| "creating (DUndo u) = {us_id u}"
| "creating (DContext u) = {us_id u}"
| "creating d = {}"

fun worker_requests :: "worker_pc \<Rightarrow> ovp set" where
  "worker_requests WReady = {}"
| "worker_requests (WComplete sk n pov err) = {pov}"
| "worker_requests (WForward sk pov cid buf len addr alen) = {pov}"
| "worker_requests (WTcpReceive sk pov) = {pov}"
| "worker_requests (WUdpReceive sk pov) = {pov}"
| "worker_requests (WPost sk pov) = {pov}"
| "worker_requests (WDelete pov) = {pov}"

section \<open>Assertions\<close>

definition call_ok :: "udp_send \<Rightarrow> bool" where
  "call_ok u \<longleftrightarrow> us_len u \<le> int (length (us_buf u)) \<and> address_ok (us_remoteAddress u) \<and> options_ok (us_options u)"

text \<open>No connect request of the endpoint is pending, and its connection, if any, has not said anything.\<close>

definition unconnected :: "u64 \<Rightarrow> event_handler \<Rightarrow> bool" where
  "unconnected cid s \<longleftrightarrow> cid \<notin> snd ` connects s \<and>
     (\<forall>pd. map_of (m_socketMap s) cid = Some pd \<longrightarrow> proxyState pd = PS_NONE)"

fun driver_assert :: "driver_pc \<Rightarrow> event_handler \<Rightarrow> bool" where
  "driver_assert (DSockets u) s \<longleftrightarrow> call_ok u \<and> unused_id (us_id u) s"
| "driver_assert (DInsert u tcp udp) s \<longleftrightarrow> call_ok u \<and> unused_id (us_id u) s \<and>
     tcp \<noteq> INVALID_SOCKET \<and> udp \<noteq> INVALID_SOCKET"
| "driver_assert (DRegister u tcp udp) s \<longleftrightarrow> call_ok u \<and> unconnected (us_id u) s"
| "driver_assert (DRequest u tcp) s \<longleftrightarrow> call_ok u \<and> unconnected (us_id u) s"
| "driver_assert (DConnect u tcp pov) s \<longleftrightarrow> call_ok u"
| "driver_assert (DContext u) s \<longleftrightarrow> call_ok u"
| "driver_assert (DSend u) s \<longleftrightarrow> call_ok u"
| "driver_assert (DErase cid) s \<longleftrightarrow> map_of (m_socketMap s) cid = None"
| "driver_assert d s \<longleftrightarrow> True"

fun worker_assert :: "worker_pc \<Rightarrow> event_handler \<Rightarrow> bool" where
  "worker_assert (WComplete sk n pov err) s \<longleftrightarrow> (\<exists>d. map_of (m_ovDataSet s) pov = Some d \<and>
     (is_receive d \<longrightarrow> unat n \<le> length (ov_buffer d)))"
| "worker_assert w s \<longleftrightarrow> True"

definition sockets_owed :: "sock multiset \<Rightarrow> event_handler \<Rightarrow> bool" where
  "sockets_owed M s \<longleftrightarrow> mset (opened_sockets (trace s)) = mset (closed_sockets (trace s)) + held_sockets s + M"

definition shared_ok :: "ovp set \<Rightarrow> u64 set \<Rightarrow> sock multiset \<Rightarrow> event_handler \<Rightarrow> bool" where
  "shared_ok H C M s \<longleftrightarrow> proxy_inv H s \<and> m_pProxyHandler s \<and> connects_once s \<and> handler_own s \<and>
     dom (map_of (m_socketMap s)) \<subseteq> dom (map_of (m_udpCtxMap s)) \<union> C \<and> sockets_owed M s"

fun threads_inv :: "threads \<Rightarrow> bool" where
  "threads_inv (d, w, s) \<longleftrightarrow>
     shared_ok (driver_requests d \<union> worker_requests w) (creating d) (driver_sockets d) s \<and>
     driver_requests d \<inter> worker_requests w = {} \<and> driver_assert d s \<and> worker_assert w s"

lemma threads_inv_ready: "threads_inv (DReady, WReady, s) \<longleftrightarrow> handler_inv s"
  by (auto simp: shared_ok_def handler_inv_def proxy_good_def proxy_running_def contexts_cover_def
      sockets_balanced_def sockets_owed_def)

section \<open>Stability\<close>

lemma owed_ext:
  "extends no_sockets s t \<Longrightarrow> held_sockets t = held_sockets s \<Longrightarrow> sockets_owed M s \<Longrightarrow> sockets_owed M t"
  by (auto simp: extends_def no_sockets_def sockets_owed_def)

lemma owed_delete: "sockets_owed M s \<Longrightarrow> sockets_owed M (deleteProxyConnection E cid s)"
  by (simp add: sockets_owed_def deleteProxyConnection_sockets)

text \<open>What the worker's steps guarantee the driver's thread.\<close>

definition worker_keeps :: "event_handler \<Rightarrow> event_handler \<Rightarrow> bool" where
  "worker_keeps s t \<longleftrightarrow> connects t \<subseteq> connects s \<and>
     (\<forall>i pd'. map_of (m_socketMap t) i = Some pd' \<longrightarrow> (\<exists>pd. map_of (m_socketMap s) i = Some pd \<and>
       (proxyState pd = PS_NONE \<longrightarrow> i \<notin> snd ` connects s \<longrightarrow> proxyState pd' = PS_NONE)))"

lemma worker_keeps_unused: "worker_keeps s t \<Longrightarrow> unused_id cid s \<Longrightarrow> unused_id cid t"
  unfolding worker_keeps_def unused_id_def by (metis image_mono not_None_eq subsetD option.distinct(1))

lemma worker_keeps_unconnected: "worker_keeps s t \<Longrightarrow> unconnected cid s \<Longrightarrow> unconnected cid t"
  unfolding worker_keeps_def unconnected_def by (metis image_mono subsetD)

lemma worker_keeps_assert: "worker_keeps s t \<Longrightarrow> driver_assert d s \<Longrightarrow> driver_assert d t"
proof (cases d)
  case (DErase cid)
  assume "worker_keeps s t" "driver_assert d s"
  with DErase show ?thesis
    unfolding worker_keeps_def by (cases "map_of (m_socketMap t) cid") fastforce+
qed (auto intro: worker_keeps_unused worker_keeps_unconnected)

lemma worker_keeps_dom: "worker_keeps s t \<Longrightarrow> dom (map_of (m_socketMap t)) \<subseteq> dom (map_of (m_socketMap s))"
  unfolding worker_keeps_def by blast

lemma worker_keeps_same:
  "m_socketMap t = m_socketMap s \<Longrightarrow> connects t \<subseteq> connects s \<Longrightarrow> worker_keeps s t"
  by (simp add: worker_keeps_def)

lemma worker_keeps_evolves:
  "conn_evolves B s t \<Longrightarrow> B \<subseteq> snd ` connects s \<Longrightarrow> connects t \<subseteq> connects s \<Longrightarrow> worker_keeps s t"
  unfolding conn_evolves_def worker_keeps_def by (meson subsetD)

text \<open>What the driver's steps guarantee the worker: they leave its request object alone.\<close>

lemma worker_assert_same:
  "worker_assert w s \<Longrightarrow> (\<And>p. p \<in> worker_requests w \<Longrightarrow> map_of (m_ovDataSet t) p = map_of (m_ovDataSet s) p) \<Longrightarrow>
   worker_assert w t"
  by (cases w) auto

section \<open>Rules for one step\<close>

lemma worker_result:
  assumes "threads_inv (d, w, s)" "worker_requests w' \<subseteq> worker_requests w"
    and "proxy_inv (driver_requests d \<union> worker_requests w') t" "m_pProxyHandler t = m_pProxyHandler s"
    and "connects_once t" and "handler_data t = handler_data s" "sockets_owed (driver_sockets d) t" "worker_keeps s t" "worker_assert w' t"
  shows "threads_inv (d, w', t)"
proof -
  have "m_udpCtxMap t = m_udpCtxMap s" using assms(6) by (simp add: handler_data_def)
  moreover have "handler_own t" using assms(1) handler_own_same [OF _ assms(6)] by (simp add: shared_ok_def)
  moreover have "dom (map_of (m_socketMap t)) \<subseteq> dom (map_of (m_udpCtxMap s)) \<union> creating d"
    using assms(1) worker_keeps_dom [OF assms(8)] by (auto simp: shared_ok_def simp del: domIff)
  moreover have "driver_requests d \<inter> worker_requests w' = {}" using assms(1,2) by auto
  ultimately show ?thesis
    using assms worker_keeps_assert [OF assms(8), of d] by (simp add: shared_ok_def)
qed

lemma connects_once_shrink:
  assumes "connects_once s" "connects t \<subseteq> connects s" "m_socketMap t = m_socketMap s"
  shows "connects_once t"
  by (rule connects_once_mono [OF assms(1), of "connects s" t "{}"]) (use assms in \<open>auto simp: within_def\<close>)

lemma worker_quiet:
  assumes "threads_inv (d, w, s)" "worker_requests w' \<subseteq> worker_requests w"
    and "proxy_inv (driver_requests d \<union> worker_requests w') t" "m_pProxyHandler t = m_pProxyHandler s"
    and "m_socketMap t = m_socketMap s" "connects t \<subseteq> connects s" "handler_data t = handler_data s"
    and "extends no_sockets s t" "worker_assert w' t"
  shows "threads_inv (d, w', t)"
  using assms(1)
  by (intro worker_result [OF assms(1-4) _ assms(7) _ _ assms(9)] owed_ext [OF assms(8)] held_same)
    (auto simp: assms(5) shared_ok_def intro: worker_keeps_same [OF assms(5,6)] connects_once_shrink [OF _ assms(6,5)])

lemma driver_result:
  assumes "threads_inv (d, w, s)"
    and "shared_ok (driver_requests d' \<union> worker_requests w) (creating d') (driver_sockets d') t"
    and "driver_requests d' \<inter> worker_requests w = {}" "driver_assert d' t"
    and "\<And>p. p \<in> worker_requests w \<Longrightarrow> map_of (m_ovDataSet t) p = map_of (m_ovDataSet s) p"
  shows "threads_inv (d', w, t)"
  using assms worker_assert_same [of w s t] by simp

text \<open>A step that changes neither the proxy's data nor the handler's.\<close>

lemma shared_ok_data:
  assumes "shared_ok H C M s" "proxy_data t = proxy_data s" "handler_data t = handler_data s" "sockets_owed M' t"
  shows "shared_ok H C M' t"
proof -
  have "connects_once t = connects_once s" "m_udpCtxMap t = m_udpCtxMap s" "m_socketMap t = m_socketMap s"
    "m_pProxyHandler t = m_pProxyHandler s"
    using assms(2,3) by (simp_all add: connects_once_def connects_def proxy_data_def handler_data_def)
  then show ?thesis
    using assms proxy_inv_data [OF assms(2), of H] handler_own_same [OF _ assms(3)] by (auto simp: shared_ok_def)
qed

section \<open>The worker's steps\<close>

definition worker_moves :: "driver_pc \<Rightarrow> (worker_pc \<times> event_handler) option \<Rightarrow> bool" where
  "worker_moves d r \<longleftrightarrow> (\<exists>w t. r = Some (w, t) \<and> threads_inv (d, w, t))"

lemma worker_moves_Some [simp]: "worker_moves d (Some (w, t)) = threads_inv (d, w, t)"
  by (simp add: worker_moves_def)

declare threads_inv.simps [simp del]

lemma worker_pre:
  assumes "threads_inv (d, w, s)" "p \<in> worker_requests w" "worker_requests w \<subseteq> {p}"
  shows "proxy_inv (insert p (driver_requests d)) s" "p \<notin> driver_requests d" "m_pProxyHandler s"
    "connects_once s" "sockets_owed (driver_sockets d) s"
proof -
  have "worker_requests w = {p}" using assms(2,3) by blast
  with assms(1) show "proxy_inv (insert p (driver_requests d)) s" "p \<notin> driver_requests d" "m_pProxyHandler s"
    "connects_once s" "sockets_owed (driver_sockets d) s" by (simp_all add: shared_ok_def threads_inv.simps)
qed

lemma connects_same: "m_ovDataSet t = m_ovDataSet s \<Longrightarrow> connects t = connects s"
  by (simp add: connects_def)

lemma connects_delete: "connects (deleteOV_DATA E p s) \<subseteq> connects s"
  by (auto simp: connects_def split: if_splits)

lemma handler_data_ops [simp]:
  "handler_data (ov_upd p f s) = handler_data s"
  "handler_data (snd (newOV_DATA E s)) = handler_data s"
  "handler_data (deleteOV_DATA E p s) = handler_data s"
  "handler_data (snd (submit E ok c p s)) = handler_data s"
  "handler_data (snd (postCompletion E sk n p s)) = handler_data s"
  "handler_data (snd (registerSocket E sk s)) = handler_data s"
  "handler_data (deleteProxyConnection E cid s) = handler_data s"
  "handler_data (snd (sys E c s)) = handler_data s"
  by (rule handler_data_more, simp)+

lemma request_sockets:
  "request_call c \<Longrightarrow> extends no_sockets s t \<Longrightarrow> extends no_sockets s (snd (submit E ok c p t))"
  "extends no_sockets s t \<Longrightarrow> extends no_sockets s (snd (postCompletion E sk n p t))"
proof -
  show "request_call c \<Longrightarrow> extends no_sockets s t \<Longrightarrow> extends no_sockets s (snd (submit E ok c p t))"
    by (rule sockets.ext_submit [OF sockets.good_request])
  show "extends no_sockets s t \<Longrightarrow> extends no_sockets s (snd (postCompletion E sk n p t))"
    using sockets.ext_emit [of _ s t E] by (simp add: postCompletion_def split_def Let_def emit_def extends_def)
qed

lemma worker_tcp_receive:
  assumes "threads_inv (d, WTcpReceive sk p, s)"
  shows "worker_moves d (worker_step E (WTcpReceive sk p) s)"
proof -
  note pre = worker_pre [OF assms, of p, simplified]
  obtain x where x: "map_of (m_ovDataSet s) p = Some x" using proxy_inv_live [OF pre(1), of p] by auto
  let ?t = "submit E (\<lambda>r. r = 0) (Net (WSARecv sk p)) p s"
  let ?w = "if fst ?t then WReady else WPost sk p"
  have "threads_inv (d, ?w, snd ?t)"
    by (rule worker_quiet [OF assms])
      (use submit_inv [OF pre(1,2), of E "\<lambda>r. r = 0" "Net (WSARecv sk p)"] in
        \<open>simp_all add: connects_same [OF submit_frame(2)] connects_same [OF postCompletion_frame(2)] request_sockets sockets.ext_refl split: if_splits\<close>)
  with x show ?thesis by (simp add: split_def Let_def)
qed

lemma worker_udp_receive:
  assumes "threads_inv (d, WUdpReceive sk p, s)"
  shows "worker_moves d (worker_step E (WUdpReceive sk p) s)"
proof -
  note pre = worker_pre [OF assms, of p, simplified]
  obtain x where x: "map_of (m_ovDataSet s) p = Some x" "ov_ok x" using proxy_inv_live [OF pre(1), of p] by auto
  let ?u = "ov_upd p (\<lambda>d. d\<lparr>ov_remoteAddressLen := int NF_MAX_ADDRESS_LENGTH\<rparr>) s"
  have inv: "proxy_inv (insert p (driver_requests d)) ?u"
    using x by (intro ov_upd_inv [OF pre(1)]) (simp add: ov_ok_def)
  have conn: "connects ?u = connects s" by (rule connects_upd_same) simp
  let ?t = "submit E (\<lambda>r. r = 0) (Net (WSARecvFrom sk p)) p ?u"
  let ?w = "if fst ?t then WReady else WPost sk p"
  have "extends no_sockets s (snd ?t)"
    by (rule request_sockets) (simp_all add: sockets.ext_fields)
  moreover have "connects (snd ?t) = connects s"
    using conn connects_same [of "snd ?t" ?u] by simp
  ultimately have "threads_inv (d, ?w, snd ?t)"
    by (intro worker_quiet [OF assms])
      (use submit_inv [OF inv pre(2), of E "\<lambda>r. r = 0" "Net (WSARecvFrom sk p)"] in
        \<open>simp_all split: if_splits\<close>)
  with x show ?thesis by (simp add: split_def Let_def)
qed

lemma worker_post:
  assumes "threads_inv (d, WPost sk p, s)"
  shows "worker_moves d (worker_step E (WPost sk p) s)"
proof -
  note pre = worker_pre [OF assms, of p, simplified]
  let ?t = "postCompletion E sk 0 p s"
  let ?w = "if fst ?t then WReady else WDelete p"
  have "threads_inv (d, ?w, snd ?t)"
    by (rule worker_quiet [OF assms])
      (use postCompletion_inv [OF pre(1,2), of E sk 0] in
        \<open>simp_all add: connects_same [OF submit_frame(2)] connects_same [OF postCompletion_frame(2)] request_sockets sockets.ext_refl split: if_splits\<close>)
  then show ?thesis by (simp add: split_def Let_def)
qed

lemma worker_delete:
  assumes "threads_inv (d, WDelete p, s)"
  shows "worker_moves d (worker_step E (WDelete p) s)"
proof -
  note pre = worker_pre [OF assms, of p, simplified]
  have "threads_inv (d, WReady, deleteOV_DATA E p s)"
    by (rule worker_quiet [OF assms])
      (simp_all add: deleteOV_DATA_inv [OF pre(1,2)] connects_delete sockets.ext_deleteOV)
  then show ?thesis by simp
qed

lemma worker_forward:
  assumes "threads_inv (d, WForward sk p i b l a al, s)"
  shows "worker_moves d (worker_step E (WForward sk p i b l a al) s)"
proof -
  note pre = worker_pre [OF assms, of p, simplified]
  from handler_receiver [of E] obtain t where
    t: "EventHandler_onUdpReceiveComplete E i b l a al s = Some t" unfolding receiver_ok_def by blast
  from handler_receiver_aside [OF t] have aside: "aside s t" "handler_data t = handler_data s" by simp_all
  have data: "proxy_data t = proxy_data s" using aside(1) by (simp add: aside_def)
  have "extends no_sockets s t" using aside(1) no_net_monitors(1) by (auto simp: aside_def extends_def)
  then have "threads_inv (d, WUdpReceive sk p, t)"
    using pre(1) proxy_inv_data [OF data, of "insert p (driver_requests d)"]
    by (intro worker_quiet [OF assms]) (use aside data in \<open>simp_all add: proxy_data_def connects_def\<close>)
  with t pre(3) show ?thesis by simp
qed

lemma forwarded_total:
  assumes "ov_ok d" "ov_type d = OVT_UDP_RECEIVE" "unat n \<le> length (ov_buffer d)"
  shows "\<exists>f. forwarded d n = Some f"
proof (cases "n = 0")
  case True
  then show ?thesis by (simp add: forwarded_def sizeof_SOCKS5_UDP_REQUEST_def)
next
  case False
  then have len: "length (ov_buffer d) = PACKET_SIZE"
    using assms by (auto simp: ov_ok_def unat_eq_0 [symmetric] simp del: unat_eq_0)
  have "dec_SOCKS5_UDP_REQUEST (ov_buffer d) \<noteq> None" "dec_SOCKS5_UDP_REQUEST_IPv4 (ov_buffer d) \<noteq> None"
    "dec_SOCKS5_UDP_REQUEST_IPv6 (ov_buffer d) \<noteq> None"
    using s5u.dec_total [of "ov_buffer d"] s5u4.dec_total [of "ov_buffer d"] s5u6.dec_total [of "ov_buffer d"] len
    by (auto simp: sizeof_SOCKS5_UDP_REQUEST_def sizeof_SOCKS5_UDP_REQUEST_IPv4_def
        sizeof_SOCKS5_UDP_REQUEST_IPv6_def PACKET_SIZE_def)
  then show ?thesis by (auto simp: forwarded_def)
qed

lemma worker_connect_failed:
  assumes inv: "threads_inv (d, WComplete sk n p err, s)"
  shows "threads_inv (d, WDelete p, deleteProxyConnection E cid s)"
proof -
  note pre = worker_pre [OF inv, of p, simplified]
  let ?t = "deleteProxyConnection E cid s"
  have "connects ?t = connects s" by (rule connects_same) simp
  then have "worker_keeps s ?t" by (auto simp: worker_keeps_def split: if_splits)
  then show ?thesis
    by (intro worker_result [OF inv] connects_once_delete owed_delete pre(4,5))
      (use deleteProxyConnection_inv [OF pre(1), of E cid] in auto)
qed

lemma worker_connected:
  assumes inv: "threads_inv (d, WComplete sk n p err, s)"
    and x: "map_of (m_ovDataSet s) p = Some x" "ov_type x = OVT_CONNECT"
  shows "\<exists>t. onConnectComplete E sk n p 0 s = Some t \<and> threads_inv (d, WReady, t)"
proof -
  note pre = worker_pre [OF inv, of p, simplified]
  have own: "(p, ov_id x) \<in> connects s" using x by (simp add: connects_def)
  from onConnectComplete_ok [OF pre(1,2) x(1), of E sk n 0] own pre(4) obtain t where
    t: "onConnectComplete E sk n p 0 s = Some t" "proxy_inv (driver_requests d) t"
    "m_pProxyHandler t = m_pProxyHandler s" "conn_evolves {ov_id x} s t"
    unfolding connects_once_def by blast
  have within: "within {y \<in> connects s. fst y \<noteq> p} t"
    by (rule within_onConnectComplete [OF t(1)]) (simp add: within_def)
  then have sub: "connects t \<subseteq> connects s" by (auto simp: within_def)
  have once: "connects_once t"
  proof (rule connects_once_mono [OF pre(4) within _ t(4)])
    show "i \<notin> {ov_id x}" if "(q, i) \<in> {y \<in> connects s. fst y \<noteq> p}" for q i
      using that own pre(4) unfolding connects_once_def inj_on_def by fastforce
  qed auto
  have keeps: "worker_keeps s t"
    by (rule worker_keeps_evolves [OF t(4) _ sub]) (use own in force)
  have "sockets_owed (driver_sockets d) t"
    by (rule owed_ext [OF sockets.ext_onConnectComplete [OF t(1)] onConnectComplete_held [OF t(1)] pre(5)]) simp
  then have "threads_inv (d, WReady, t)"
    by (intro worker_result [OF inv] once keeps)
      (use t(2,3) handler_data_more [OF more_handlers(2) [OF t(1)]] in simp_all)
  with t(1) show ?thesis by blast
qed

lemma worker_tcp_reply:
  assumes inv: "threads_inv (d, WComplete sk n p err, s)" and buf: "22 \<le> length buf"
  shows "\<exists>t. (case map_of (m_socketMap s) cid of
      None \<Rightarrow> Some (enter_cs E s)
    | Some pd \<Rightarrow> tcp_reply E cid pd n buf (enter_cs E s)) = Some t \<and> threads_inv (d, WTcpReceive sk p, leave_cs E t)"
proof -
  note pre = worker_pre [OF inv, of p, simplified]
  let ?r = "case map_of (m_socketMap s) cid of None \<Rightarrow> Some (enter_cs E s)
    | Some pd \<Rightarrow> tcp_reply E cid pd n buf (enter_cs E s)"
  have "handled {} (insert p (driver_requests d)) (enter_cs E s) ?r"
    using pre(1) buf by (auto simp: handled_same intro!: tcp_reply_ok split: option.split)
  then obtain t where t: "?r = Some t" "proxy_inv (insert p (driver_requests d)) t"
    "conn_evolves {} (enter_cs E s) t" "m_pProxyHandler t = m_pProxyHandler s"
    by (auto simp: handled_def)
  have evolves: "conn_evolves {} s (leave_cs E t)" using t(3) by (simp add: conn_evolves_def)
  have "within (connects s) (enter_cs E s)" by (simp add: within_def connects_def)
  then have "within (connects s) t" using t(1) by (auto split: option.splits intro: within_tcp_reply)
  then have within: "within (connects s) (leave_cs E t)" by simp
  have "udp_proxy.more (leave_cs E t) = udp_proxy.more s"
    using t(1) by (auto split: option.splits dest: more_tcp_reply)
  then have data: "handler_data (leave_cs E t) = handler_data s" by (rule handler_data_more)
  have "extends no_sockets (enter_cs E s) t"
    using t(1) by (auto split: option.splits intro: sockets.ext_tcp_reply)
  then have ext: "extends no_sockets s (leave_cs E t)" by (rule sockets.ext_section) simp
  have keeps: "worker_keeps s (leave_cs E t)"
    by (rule worker_keeps_evolves [OF evolves]) (use within in \<open>auto simp: within_def\<close>)
  have once: "connects_once (leave_cs E t)"
    by (rule connects_once_mono [OF pre(4) within _ evolves]) auto
  have "threads_inv (d, WTcpReceive sk p, leave_cs E t)"
    by (intro worker_result [OF inv] once keeps data owed_ext [OF ext held_evolves [OF evolves] pre(5)])
      (use t(2,4) in simp_all)
  with t(1) show ?thesis by blast
qed

lemma worker_complete:
  assumes inv: "threads_inv (d, WComplete sk n p err, s)"
  shows "worker_moves d (worker_step E (WComplete sk n p err) s)"
proof -
  note pre = worker_pre [OF inv, of p, simplified]
  from inv [unfolded threads_inv.simps] obtain x where x: "map_of (m_ovDataSet s) p = Some x" "is_receive x \<longrightarrow> unat n \<le> length (ov_buffer x)"
    by auto
  have ok: "ov_ok x" using proxy_inv_live [OF pre(1), of p] x(1) by auto
  have stay: "threads_inv (d, w', s)" if "worker_requests w' = {p}" "worker_assert w' s" for w'
    using inv that by (simp add: threads_inv.simps)
  show ?thesis
  proof (cases "ov_type x")
    case OVT_CONNECT
    show ?thesis
    proof (cases "err = 0")
      case True
      with worker_connected [OF inv x(1) OVT_CONNECT, where E = E] x(1) OVT_CONNECT show ?thesis by auto
    next
      case False
      with worker_connect_failed [OF inv, where E = E and cid = "ov_id x"] x(1) OVT_CONNECT show ?thesis by simp
    qed
  next
    case OVT_TCP_RECEIVE
    show ?thesis
    proof (cases "n = 0")
      case False
      then have "22 \<le> length (ov_buffer x)"
        using x(2) ok OVT_TCP_RECEIVE
        by (auto simp: ov_ok_def is_receive_def PACKET_SIZE_def unat_eq_0 [symmetric] simp del: unat_eq_0)
      from worker_tcp_reply [OF inv this, where E = E and cid = "ov_id x"] False x(1) OVT_TCP_RECEIVE show ?thesis by auto
    qed (use stay x OVT_TCP_RECEIVE in simp)
  next
    case OVT_UDP_RECEIVE
    show ?thesis
    proof (cases "n = 0")
      case False
      obtain f where "forwarded x n = Some f"
        using forwarded_total [OF ok OVT_UDP_RECEIVE, of n] x(2) OVT_UDP_RECEIVE by (auto simp: is_receive_def)
      with False stay x(1) OVT_UDP_RECEIVE show ?thesis by (cases f) auto
    qed (use stay x OVT_UDP_RECEIVE in simp)
  qed (use stay x in simp_all)
qed

lemma worker_step_ok:
  assumes "threads_inv (d, w, s)" "w \<noteq> WReady"
  shows "worker_moves d (worker_step E w s)"
  using assms worker_complete worker_forward worker_tcp_receive worker_udp_receive worker_post worker_delete
  by (cases w) (simp_all del: worker_step.simps)

lemma worker_take_ok:
  assumes inv: "threads_inv (d, WReady, s)" and "legal s c" "\<not> port_error c"
  shows "worker_moves d (worker_take c s)"
proof (cases "cq_overlapped c")
  case None
  with assms have "is_timeout c" by (simp add: legal_def)
  with None inv show ?thesis by (simp add: worker_take_def deliver_def)
next
  case (Some p)
  have "proxy_inv (driver_requests d) s" using inv by (simp add: shared_ok_def threads_inv.simps)
  note ok = deliver_inv [OF this assms(2) Some]
  have p: "p \<in> set (inflight s)" "\<not> is_timeout c" using assms(2) Some by (simp_all add: legal_def)
  from this(1) have "p \<notin> driver_requests d" using inv by (auto simp: shared_ok_def proxy_inv_def threads_inv.simps)
  moreover have "udp_proxy.more (deliver c s) = udp_proxy.more s" by (simp add: deliver_def split: option.split)
  then have "handler_data (deliver c s) = handler_data s" by (rule handler_data_more)
  moreover have "connects (deliver c s) = connects s" by (rule connects_deliver)
  ultimately show ?thesis
    using inv ok worker_keeps_assert [OF worker_keeps_same, of "deliver c s" s d]
      connects_once_shrink [of s "deliver c s"] handler_own_same [of s "deliver c s"]
    by (auto simp: worker_take_def Some p(2) threads_inv.simps shared_ok_def sockets_owed_def held_sockets_def handler_data_def)
qed

section \<open>The driver's steps\<close>

definition driver_moves :: "worker_pc \<Rightarrow> (driver_pc \<times> event_handler) option \<Rightarrow> bool" where
  "driver_moves w r \<longleftrightarrow> (\<exists>d t. r = Some (d, t) \<and> threads_inv (d, w, t))"

lemma driver_moves_Some [simp]: "driver_moves w (Some (d, t)) = threads_inv (d, w, t)"
  by (simp add: driver_moves_def)

lemma driver_pre:
  assumes "threads_inv (d, w, s)"
  shows "shared_ok (driver_requests d \<union> worker_requests w) (creating d) (driver_sockets d) s"
    "driver_requests d \<inter> worker_requests w = {}" "driver_assert d s"
  using assms by (simp_all add: threads_inv.simps)

lemma proxy_data_sys [simp]: "proxy_data (snd (sys E c s)) = proxy_data s"
  by (simp add: proxy_data_def sys_snd)

lemma unused_id_data: "proxy_data t = proxy_data s \<Longrightarrow> unused_id cid t = unused_id cid s"
  by (simp add: unused_id_def connects_def proxy_data_def)

lemma unconnected_data: "proxy_data t = proxy_data s \<Longrightarrow> unconnected cid t = unconnected cid s"
  by (simp add: unconnected_def connects_def proxy_data_def)

text \<open>A step that changes no data of the handler and no data of the proxy.\<close>

lemma driver_quiet:
  assumes inv: "threads_inv (d, w, s)"
    and "driver_requests d' = driver_requests d" "creating d' = creating d"
    and data: "proxy_data t = proxy_data s" and "handler_data t = handler_data s"
    and "sockets_owed (driver_sockets d') t" "driver_assert d' t"
  shows "threads_inv (d', w, t)"
proof -
  have "m_ovDataSet t = m_ovDataSet s" using data by (simp add: proxy_data_def)
  then show ?thesis
    using driver_pre [OF inv] assms
    by (intro driver_result [OF inv]) (auto intro: shared_ok_data)
qed

lemma owed_open:
  assumes "sockets_owed M s"
  shows "sockets_owed (if fst (sys E (Net (WSASocket k)) s) = INVALID_SOCKET then M
      else add_mset (fst (sys E (Net (WSASocket k)) s)) M) (snd (sys E (Net (WSASocket k)) s))"
proof -
  have "held_sockets (snd (sys E (Net (WSASocket k)) s)) = held_sockets s"
    by (rule held_same) (simp add: sys_snd)
  with assms show ?thesis by (simp add: sockets_owed_def sys_snd)
qed

lemma owed_close: "sockets_owed (add_mset sk M) s \<Longrightarrow> sockets_owed M (emit E (Net (Closesocket sk)) s)"
  using held_same [of "emit E (Net (Closesocket sk)) s" s] by (simp add: sockets_owed_def emit_eq)

lemma owed_other:
  assumes "opened_sockets [(c, r)] = []" "closed_sockets [(c, r)] = []" "r = os E (trace s) c" "sockets_owed M s"
  shows "sockets_owed M (snd (sys E c s))"
  using assms held_same [of "snd (sys E c s)" s] by (simp add: sockets_owed_def sys_snd del: sockets_Cons)

lemma owed_emit:
  assumes "\<forall>n. c \<noteq> Net n" "sockets_owed M s" shows "sockets_owed M (emit E c s)"
  using owed_other [OF _ _ refl assms(2), of c E] assms(1) by (cases c) (simp_all add: emit_def)

lemma driver_sockets_step:
  assumes inv: "threads_inv (DSockets u, w, s)"
  shows "driver_moves w (driver_step E (DSockets u) s)"
proof -
  have pre: "sockets_owed {#} s" "call_ok u" "unused_id (us_id u) s"
    using driver_pre [OF inv] by (simp_all add: shared_ok_def)
  let ?a = "sys E (Net (WSASocket SOCK_STREAM)) s"
  let ?b = "sys E (Net (WSASocket SOCK_DGRAM)) (snd ?a)"
  note a = owed_open [OF pre(1), of E SOCK_STREAM]
  note b = owed_open [OF a, of E SOCK_DGRAM]
  consider (1) "fst ?a = INVALID_SOCKET" | (2) "fst ?a \<noteq> INVALID_SOCKET" "fst ?b = INVALID_SOCKET"
    | (3) "fst ?a \<noteq> INVALID_SOCKET" "fst ?b \<noteq> INVALID_SOCKET" by blast
  then show ?thesis
  proof cases
    case 1
    then have "threads_inv (DUnlock, w, snd ?a)"
      using a by (intro driver_quiet [OF inv]) simp_all
    with 1 show ?thesis by (simp add: split_def Let_def)
  next
    case 2
    then have "sockets_owed {#} (emit E (Net (Closesocket (fst ?a))) (snd ?b))"
      using b by (intro owed_close) (simp del: sys_fst)
    with 2 have "threads_inv (DUnlock, w, emit E (Net (Closesocket (fst ?a))) (snd ?b))"
      by (intro driver_quiet [OF inv]) simp_all
    with 2 show ?thesis by (simp add: split_def Let_def)
  next
    case 3
    then have "sockets_owed {# fst ?a, fst ?b #} (snd ?b)" using b by (simp add: add_mset_commute del: sys_fst)
    with 3 have "threads_inv (DInsert u (fst ?a) (fst ?b), w, snd ?b)"
      using pre(2,3) unused_id_data [of "snd ?b" s "us_id u"]
      by (intro driver_quiet [OF inv]) simp_all
    with 3 show ?thesis by (simp add: split_def Let_def)
  qed
qed

lemma driver_insert_step:
  assumes inv: "threads_inv (DInsert u tcp udp, w, s)"
  shows "driver_moves w (driver_step E (DInsert u tcp udp) s)"
proof -
  have pre: "shared_ok (worker_requests w) {} {# tcp, udp #} s" "call_ok u" "unused_id (us_id u) s"
    "tcp \<noteq> INVALID_SOCKET" "udp \<noteq> INVALID_SOCKET"
    using driver_pre [OF inv] by simp_all
  let ?pd = "new_PROXY_DATA\<lparr>tcpSocket := tcp, udpSocket := udp, userName := m_userName s, userPassword := m_userPassword s\<rparr>"
  let ?t = "leave_cs E ((enter_cs E s)\<lparr>m_socketMap := m_insert (us_id u) ?pd (m_socketMap s)\<rparr>)"
  have map: "map_of (m_socketMap ?t) = (map_of (m_socketMap s))(us_id u \<mapsto> ?pd)" by simp
  have conn: "connects ?t = connects s" by (simp add: connects_def)
  have pd: "pd_ok ?pd" "pd_settled ?pd" "proxyState ?pd = PS_NONE"
    by (simp_all add: pd_ok_def pd_settled_def new_PROXY_DATA_def)
  have "\<forall>x \<in> ran ((map_of (m_socketMap s))(us_id u \<mapsto> ?pd)). pd_ok x"
    using pre(1) pd(1) by (intro ran_upd_ok) (auto simp: shared_ok_def proxy_inv_def)
  then have 1: "proxy_inv (worker_requests w) ?t"
    using pre(1) by (simp add: shared_ok_def proxy_inv_def m_sorted_insert)
  have 2: "connects_once ?t"
    using pre(1,3) pd(2,3) unfolding connects_once_def conn map
    by (auto simp: shared_ok_def connects_once_def split: if_splits)
  have "held_sockets ?t = held_sockets s + {# tcp, udp #}"
    using held_insert [OF map] pre(3-5) by (simp add: unused_id_def conn_sockets_def new_PROXY_DATA_def)
  then have 3: "sockets_owed {#} ?t"
    using pre(1) by (simp add: shared_ok_def sockets_owed_def emit_eq)
  have "handler_data ?t = handler_data s" by (simp add: handler_data_def)
  then have 4: "handler_own ?t" using pre(1) handler_own_same by (auto simp: shared_ok_def)
  have "shared_ok (worker_requests w) {us_id u} {#} ?t"
    using 1 2 3 4 pre(1) unfolding shared_ok_def map by (auto simp: emit_eq)
  moreover have "unconnected (us_id u) ?t"
    using pre(3) pd(3) by (simp add: unconnected_def unused_id_def conn map)
  ultimately have "threads_inv (DRegister u tcp udp, w, ?t)"
    using pre(2) by (intro driver_result [OF inv]) simp_all
  then show ?thesis by (simp add: Let_def)
qed

lemma driver_register_step:
  assumes inv: "threads_inv (DRegister u tcp udp, w, s)"
  shows "driver_moves w (driver_step E (DRegister u tcp udp) s)"
proof -
  have pre: "sockets_owed {#} s" "call_ok u" "unconnected (us_id u) s"
    using driver_pre [OF inv] by (simp_all add: shared_ok_def)
  have reg: "sockets_owed {#} (snd (registerSocket E sk t))" if "sockets_owed {#} t" for sk t
    using owed_other [OF _ _ refl that, where c = "Net (CreateIoCompletionPort sk (m_hIOCP t) sk)" and E = E]
    by (simp add: registerSocket_def split_def Let_def)
  let ?a = "registerSocket E tcp s" let ?b = "registerSocket E udp (snd ?a)"
  have data: "proxy_data (snd ?a) = proxy_data s" "proxy_data (snd ?b) = proxy_data s"
    by (simp_all add: registerSocket_data)
  have "threads_inv (DUndo u, w, snd ?a)" "threads_inv (DUndo u, w, snd ?b)" "threads_inv (DRequest u tcp, w, snd ?b)"
    using pre(2,3) unconnected_data [OF data(2), of "us_id u"]
    by (intro driver_quiet [OF inv _ _ data(1)] driver_quiet [OF inv _ _ data(2)]; simp add: reg pre(1))+
  then show ?thesis by (simp add: split_def Let_def)
qed

lemma worker_requests_old:
  "proxy_inv H s \<Longrightarrow> p \<in> H \<Longrightarrow> p < next_ov s"
  by (simp add: proxy_inv_def)

lemma connects_once_request:
  assumes "connects_once s" "unconnected cid s" "connects t = insert (p, cid) (connects s)" "m_socketMap t = m_socketMap s"
  shows "connects_once t"
proof -
  have "inj_on snd (insert (p, cid) (connects s))"
    using assms(1,2) by (simp add: connects_once_def unconnected_def image_iff)
  then show ?thesis
    using assms(1,2) unfolding connects_once_def unconnected_def assms(3,4) by auto
qed

lemma driver_request_step:
  assumes inv: "threads_inv (DRequest u tcp, w, s)"
  shows "driver_moves w (driver_step E (DRequest u tcp) s)"
proof -
  have pre: "shared_ok (worker_requests w) {us_id u} {#} s" "call_ok u" "unconnected (us_id u) s"
    using driver_pre [OF inv] by simp_all
  have pinv: "proxy_inv (worker_requests w) s" using pre(1) by (simp add: shared_ok_def)
  let ?p = "next_ov s"
  let ?t = "ov_upd ?p (\<lambda>d. d\<lparr>ov_type := OVT_CONNECT, ov_id := us_id u\<rparr>) (snd (newOV_DATA E s))"
  have new: "?p \<notin> worker_requests w" using fresh_held(1) [OF pinv] .
  have none: "map_of (m_ovDataSet s) ?p = None"
    using pinv by (auto simp: proxy_inv_def dom_def)
  have 1: "proxy_inv (insert ?p (worker_requests w)) ?t"
    using fresh_held(2) [OF pinv] by (auto intro!: ov_upd_inv simp: ov_ok_def)
  have conn: "connects ?t = insert (?p, us_id u) (connects s)"
    using none by (auto simp: connects_def split: if_splits)
  have 2: "connects_once ?t"
    by (rule connects_once_request [OF _ pre(3) conn]) (use pre(1) in \<open>simp_all add: shared_ok_def\<close>)
  have "extends no_sockets s ?t" by (intro sockets.ext_fields sockets.ext_newOV) simp
  then have 3: "sockets_owed {#} ?t"
    by (rule owed_ext [OF _ held_same]) (use pre(1) in \<open>simp_all add: shared_ok_def\<close>)
  have data: "handler_data ?t = handler_data s" by simp
  then have 4: "handler_own ?t" "m_udpCtxMap ?t = m_udpCtxMap s"
    using pre(1) handler_own_same [OF _ data] by (simp_all add: shared_ok_def handler_data_def)
  have "shared_ok (insert ?p (worker_requests w)) {us_id u} {#} ?t"
    using 1 2 3 4 pre(1) by (simp add: shared_ok_def)
  then have "threads_inv (DConnect u tcp ?p, w, ?t)"
    using pre(2) new by (intro driver_result [OF inv]) auto
  then show ?thesis by (simp add: split_def Let_def)
qed

lemma driver_connect_step:
  assumes inv: "threads_inv (DConnect u tcp p, w, s)"
  shows "driver_moves w (driver_step E (DConnect u tcp p) s)"
proof -
  have pre: "shared_ok (insert p (worker_requests w)) {us_id u} {#} s" "call_ok u" "p \<notin> worker_requests w"
    using driver_pre [OF inv] by simp_all
  let ?a = "take (nat (m_proxyAddressLen s)) (m_proxyAddress s)"
  let ?r = "submit E (\<lambda>r. r \<noteq> 0) (Net (ConnectEx tcp ?a p)) p (emit E (Net (Bind tcp)) s)"
  let ?t = "snd ?r"
  have "proxy_inv (insert p (worker_requests w)) (emit E (Net (Bind tcp)) s)"
    using pre(1) by (simp add: shared_ok_def)
  note 1 = submit_inv [OF this pre(3), of E "\<lambda>r. r \<noteq> 0" "Net (ConnectEx tcp ?a p)"]
  have conn: "connects ?t = connects s" by (rule connects_same) simp
  have 2: "connects_once ?t"
    by (rule connects_once_shrink [of s]) (use pre(1) conn in \<open>simp_all add: shared_ok_def\<close>)
  have "extends no_sockets s ?t"
    by (rule request_sockets) (simp_all add: sockets.ext_emit)
  then have 3: "sockets_owed {#} ?t"
    by (rule owed_ext [OF _ held_same]) (use pre(1) in \<open>simp_all add: shared_ok_def\<close>)
  have data: "handler_data ?t = handler_data s" by simp
  then have 4: "handler_own ?t" "m_udpCtxMap ?t = m_udpCtxMap s"
    using pre(1) handler_own_same [OF _ data] by (simp_all add: shared_ok_def handler_data_def)
  have shared: "shared_ok (if fst ?r then worker_requests w else insert p (worker_requests w)) {us_id u} {#} ?t"
    unfolding shared_ok_def submit_frame emit_frame 4(2) using 1 2 3 4(1) pre(1) by (simp add: shared_ok_def)
  have "threads_inv (if fst ?r then DContext u else DFreeRequest u p, w, ?t)"
  proof (cases "fst ?r")
    case True
    with shared pre(2) have "threads_inv (DContext u, w, ?t)" by (intro driver_result [OF inv]) simp_all
    with True show ?thesis by (simp only: if_True)
  next
    case False
    with shared pre(3) have "threads_inv (DFreeRequest u p, w, ?t)" by (intro driver_result [OF inv]) simp_all
    with False show ?thesis by (simp only: if_False)
  qed
  then show ?thesis by (simp add: split_def Let_def)
qed

lemma driver_free_step:
  assumes inv: "threads_inv (DFreeRequest u p, w, s)"
  shows "driver_moves w (driver_step E (DFreeRequest u p) s)"
proof -
  have pre: "shared_ok (insert p (worker_requests w)) {us_id u} {#} s" "p \<notin> worker_requests w"
    using driver_pre [OF inv] by simp_all
  let ?t = "deleteOV_DATA E p s"
  have "proxy_inv (insert p (worker_requests w)) s" using pre(1) by (simp add: shared_ok_def)
  note 1 = deleteOV_DATA_inv [OF this pre(2), of E]
  have 2: "connects_once ?t"
    by (rule connects_once_shrink [OF _ connects_delete]) (use pre(1) in \<open>simp_all add: shared_ok_def\<close>)
  have "extends no_sockets s ?t" by (rule sockets.ext_deleteOV) simp
  then have 3: "sockets_owed {#} ?t"
    by (rule owed_ext [OF _ held_same]) (use pre(1) in \<open>simp_all add: shared_ok_def\<close>)
  have data: "handler_data ?t = handler_data s" by simp
  then have 4: "handler_own ?t" "m_udpCtxMap ?t = m_udpCtxMap s"
    using pre(1) handler_own_same [OF _ data] by (simp_all add: shared_ok_def handler_data_def)
  have "threads_inv (DUndo u, w, ?t)"
    using 1 2 3 4 pre by (intro driver_result [OF inv]) (auto simp: shared_ok_def)
  then show ?thesis by simp
qed

text \<open>Removing a connection, for a failed connect and for a closed endpoint.\<close>

lemma driver_remove:
  assumes inv: "threads_inv (d, w, s)" and "driver_requests d = {}" "driver_sockets d = {#}" "creating d \<subseteq> {cid}"
    and d': "driver_requests d' = {}" "driver_sockets d' = {#}" "creating d' = {}"
    and "driver_assert d' (deleteProxyConnection E cid s)"
  shows "threads_inv (d', w, deleteProxyConnection E cid s)"
proof -
  let ?t = "deleteProxyConnection E cid s"
  have pre: "shared_ok (worker_requests w) (creating d) {#} s"
    using driver_pre [OF inv] assms(2,3) by simp
  have data: "handler_data ?t = handler_data s" by simp
  then have 4: "handler_own ?t" "m_udpCtxMap ?t = m_udpCtxMap s"
    using pre handler_own_same [OF _ data] by (simp_all add: shared_ok_def handler_data_def)
  have "dom (map_of (m_socketMap ?t)) \<subseteq> dom (map_of (m_udpCtxMap s))"
    using pre assms(4) by (auto simp: shared_ok_def split: if_splits)
  then have "shared_ok (worker_requests w) {} {#} ?t"
    using pre 4 by (simp add: shared_ok_def deleteProxyConnection_inv connects_once_delete owed_delete)
  then show ?thesis
    using assms(8) d' by (intro driver_result [OF inv]) simp_all
qed

lemma driver_context_step:
  assumes inv: "threads_inv (DContext u, w, s)"
  shows "driver_moves w (driver_step E (DContext u) s)"
proof -
  have pre: "shared_ok (worker_requests w) {us_id u} {#} s" "call_ok u"
    using driver_pre [OF inv] by simp_all
  from UDPContext_ctor_total pre(2) obtain x where x: "UDPContext_ctor (us_options u) = Some x"
    unfolding call_ok_def by blast
  let ?u = "s\<lparr>m_udpCtxMap := m_insert (us_id u) x (m_udpCtxMap s)\<rparr>"
  let ?t = "unlock_guard E ?u"
  have "handler_own ?u" using pre(1) handler_own_ctx(1) [of s s "us_id u" x] by (simp add: shared_ok_def)
  then have 4: "handler_own ?t" using handler_own_data [OF handler_data_emit] by blast
  have data: "proxy_data ?t = proxy_data s" by (simp add: proxy_data_def)
  have "extends no_sockets s ?t" by (simp add: extends_def emit_eq no_sockets_def)
  then have 3: "sockets_owed {#} ?t"
    by (rule owed_ext [OF _ held_same]) (use pre(1) in \<open>simp_all add: shared_ok_def\<close>)
  have "connects_once ?t"
    by (rule connects_once_shrink [of s]) (use pre(1) in \<open>simp_all add: shared_ok_def connects_def\<close>)
  moreover have "proxy_inv (worker_requests w) ?t"
    using proxy_inv_data [OF data, of "worker_requests w"] pre(1) by (simp add: shared_ok_def)
  ultimately have "shared_ok (worker_requests w) {} {#} ?t"
    using 3 4 pre(1) by (auto simp: shared_ok_def)
  then have "threads_inv (DSend u, w, ?t)"
    using pre(2) by (intro driver_result [OF inv]) simp_all
  with x show ?thesis by simp
qed

lemma driver_erase_step:
  assumes inv: "threads_inv (DErase cid, w, s)"
  shows "driver_moves w (driver_step E (DErase cid) s)"
proof -
  have pre: "shared_ok (worker_requests w) {} {#} s" "map_of (m_socketMap s) cid = None"
    using driver_pre [OF inv] by simp_all
  let ?t = "unlock_guard E (case map_of (m_udpCtxMap (lock_guard E s)) cid of
      None \<Rightarrow> lock_guard E s
    | Some ctx \<Rightarrow> (lock_guard E s)\<lparr>m_udpCtxMap := m_erase cid (m_udpCtxMap (lock_guard E s))\<rparr>)"
  have 4: "handler_own ?t"
    using pre(1) handler_own_ctx(2) [OF _ handler_data_emit] handler_own_data [OF handler_data_emit]
    by (simp add: shared_ok_def split: option.split)
  have data: "proxy_data ?t = proxy_data s" by (simp add: proxy_data_def split: option.split)
  have ctx: "map_of (m_udpCtxMap ?t) = (map_of (m_udpCtxMap s))(cid := None)"
    by (simp add: fun_upd_idem split: option.split)
  have "extends no_sockets s ?t" by (simp add: extends_def emit_eq no_sockets_def split: option.split)
  then have 3: "sockets_owed {#} ?t"
    by (rule owed_ext [OF _ held_same]) (use pre(1) data in \<open>simp_all add: shared_ok_def proxy_data_def\<close>)
  have "dom (map_of (m_socketMap s)) \<subseteq> dom (map_of (m_udpCtxMap ?t))"
    using pre unfolding ctx by (auto simp: shared_ok_def)
  then have "shared_ok (worker_requests w) {} {#} ?t"
    using pre(1) 3 4 data proxy_inv_data [OF data, of "worker_requests w"]
    by (simp add: shared_ok_def connects_once_def connects_def proxy_data_def)
  moreover have "m_ovDataSet ?t = m_ovDataSet s" using data by (simp add: proxy_data_def)
  ultimately have "threads_inv (DReady, w, ?t)"
    by (intro driver_result [OF inv]) simp_all
  then show ?thesis by (simp add: Let_def)
qed

text \<open>A datagram: \<open>udpSend\<close> makes objects of its own and leaves the worker's alone.\<close>

lemma older_upd:
  "p \<noteq> q \<Longrightarrow> map_of (m_ovDataSet (ov_upd q f s)) p = map_of (m_ovDataSet s) p"
  by simp

lemma older_post_or_delete:
  "p \<noteq> q \<Longrightarrow> map_of (m_ovDataSet (post_or_delete E sk q s)) p = map_of (m_ovDataSet s) p"
  by (simp add: post_or_delete_def split_def Let_def)

lemma next_ov_submit [simp]: "next_ov (snd (submit E ok c p s)) = next_ov s"
  by (simp add: submit_def sys_def Let_def)

lemma older_startUdpReceive:
  "startUdpReceive E sk cid None s = Some (r, t) \<Longrightarrow> p < next_ov s \<Longrightarrow>
   map_of (m_ovDataSet t) p = map_of (m_ovDataSet s) p"
  by (auto simp: startUdpReceive_def split_def Let_def bind_eq_Some_conv older_post_or_delete)

lemma older_udpSend_connected:
  "udpSend_connected E cid pd buf len ra s = Some (r, t) \<Longrightarrow> p < next_ov s \<Longrightarrow>
   map_of (m_ovDataSet t) p = map_of (m_ovDataSet s) p"
  by (auto simp: udpSend_connected_def split_def Let_def bind_eq_Some_conv older_post_or_delete
      split: if_splits dest!: older_startUdpReceive [where p = p])

lemma older_udpSend:
  "udpSend E cid buf len ra ralen s = Some (r, t) \<Longrightarrow> p < next_ov s \<Longrightarrow>
   map_of (m_ovDataSet t) p = map_of (m_ovDataSet s) p"
  by (auto simp: udpSend_def Let_def bind_eq_Some_conv split: option.splits if_splits
      dest!: older_udpSend_connected [where p = p])

lemma driver_send_step:
  assumes inv: "threads_inv (DSend u, w, s)" and len: "sendable (us_id u) (us_len u) s"
  shows "driver_moves w (driver_step E (DSend u) s)"
proof -
  have pre: "shared_ok (worker_requests w) {} {#} s" "call_ok u"
    using driver_pre [OF inv] by simp_all
  have pinv: "proxy_inv (worker_requests w) s" using pre(1) by (simp add: shared_ok_def)
  obtain f where f: "sa_family (us_remoteAddress u) = Some f"
    using pre(2) by (cases "sa_family (us_remoteAddress u)") (auto simp: call_ok_def address_ok_def)
  let ?n = "if f = AF_INET then sizeof_sockaddr_in else sizeof_sockaddr_in6"
  have "send_args_ok (us_buf u) (us_len u) (us_remoteAddress u) (if f = AF_INET then 16 else 28)"
    using address_send_args(1) pre(2) f by (auto simp: call_ok_def)
  then have args: "send_args_ok (us_buf u) (us_len u) (us_remoteAddress u) (int ?n)"
    by (simp add: sizeof_sockaddr_in_def sizeof_sockaddr_in6_def split: if_splits)
  from udpSend_ok [OF pinv args len, of E] obtain r t where
    t: "udpSend E (us_id u) (us_buf u) (us_len u) (us_remoteAddress u) (int ?n) s = Some (r, t)"
    "proxy_inv (worker_requests w) t" "m_pProxyHandler t = m_pProxyHandler s" "send_effect (us_id u) s t" by blast
  have evolves: "conn_evolves {} s t" using t(4) by (rule send_effect_evolves)
  have within: "within (connects s) t" by (rule within_udpSend [OF t(1)]) (simp add: within_def)
  have "connects_once s" using pre(1) by (simp add: shared_ok_def)
  then have 2: "connects_once t"
    by (rule connects_once_mono [OF _ within _ evolves]) simp_all
  have 3: "sockets_owed {#} t"
    by (rule owed_ext [OF sockets.ext_udpSend [OF t(1)] held_evolves [OF evolves]])
      (use pre(1) in \<open>simp_all add: shared_ok_def\<close>)
  have data: "handler_data t = handler_data s" by (rule handler_data_more [OF more_udpSend [OF t(1)]])
  then have 4: "handler_own t" "m_udpCtxMap t = m_udpCtxMap s"
    using pre(1) handler_own_same [OF _ data] by (simp_all add: shared_ok_def handler_data_def)
  have shared: "shared_ok (worker_requests w) {} {#} t"
    using t 2 3 4 pre(1) send_effect_dom [OF t(4)] by (simp add: shared_ok_def)
  have older: "map_of (m_ovDataSet t) p = map_of (m_ovDataSet s) p" if "p \<in> worker_requests w" for p
    using older_udpSend [OF t(1) worker_requests_old [OF pinv that]] .
  have "threads_inv (DReady, w, t)" "threads_inv (DDirect u, w, t)"
    using shared older by (intro driver_result [OF inv]; simp)+
  with t(1) f show ?thesis by simp
qed

text \<open>The driver's thread is about to send an empty datagram on an established association.\<close>

fun empty_send :: "driver_pc \<Rightarrow> event_handler \<Rightarrow> bool" where
  "empty_send (DSend u) s = (\<not> sendable (us_id u) (us_len u) s)"
| "empty_send d s = False"

lemma empty_send_faults: "empty_send d s \<Longrightarrow> driver_step E d s = None"
  by (cases d) (auto simp: udpSend_faults_iff bind_eq_None_conv Let_def split: Option.bind_split)

lemma driver_step_ok:
  assumes inv: "threads_inv (d, w, s)" and "d \<noteq> DReady" "\<not> empty_send d s"
  shows "driver_moves w (driver_step E d s)"
proof (cases d)
  case (DUndo u)
  with driver_remove [OF inv, where cid = "us_id u" and E = E and d' = DUnlock] show ?thesis by simp
next
  case DUnlock
  have "sockets_owed {#} s" using driver_pre(1) [OF inv] by (simp add: DUnlock shared_ok_def)
  then have "threads_inv (DReady, w, unlock_guard E s)"
    by (intro driver_quiet [OF inv]) (simp_all add: owed_emit DUnlock)
  with DUnlock show ?thesis by simp
next
  case (DDirect u)
  have "sockets_owed {#} s" using driver_pre(1) [OF inv] by (simp add: DDirect shared_ok_def)
  then have "threads_inv (DReady, w, emit E (Nf c) s)" for c
    by (intro driver_quiet [OF inv]) (simp_all add: owed_emit DDirect)
  with DDirect show ?thesis by simp
next
  case (DClose cid)
  with driver_remove [OF inv, where cid = cid and E = E and d' = "DErase cid"] show ?thesis by simp
qed (use assms in \<open>auto simp del: driver_step.simps intro: driver_sockets_step driver_insert_step
    driver_register_step driver_request_step driver_connect_step driver_free_step driver_context_step
    driver_send_step driver_erase_step\<close>)

lemma driver_call_ok:
  assumes inv: "threads_inv (DReady, w, s)" and ok: "event_ok ev s"
  shows "driver_moves w (driver_call E ev s)"
proof -
  have pre: "shared_ok (worker_requests w) {} {#} s" using driver_pre [OF inv] by simp
  have owed_s: "sockets_owed {#} s" using pre by (simp add: shared_ok_def)
  consider (send) cid ra buf len opts where "ev = EvUdpSend cid ra buf len opts"
    | (closed) cid c where "ev = EvUdpClosed cid c"
    | (alone) "\<nexists>cid ra buf len opts. ev = EvUdpSend cid ra buf len opts" "\<nexists>cid c. ev = EvUdpClosed cid c"
    by blast
  then show ?thesis
  proof cases
    case send
    let ?u = "\<lparr>us_id = cid, us_remoteAddress = ra, us_buf = buf, us_len = len, us_options = opts\<rparr>"
    have u: "call_ok ?u" using ok send by (simp add: call_ok_def)
    show ?thesis
    proof (cases "map_of (m_udpCtxMap s) cid")
      case None
      have "cid \<notin> dom (map_of (m_socketMap s))" using pre None by (auto simp: shared_ok_def)
      then have "unused_id cid s" using ok send None by (auto simp: unused_id_def)
      then have "threads_inv (DSockets ?u, w, lock_guard E s)"
        using u unused_id_data [of "lock_guard E s" s cid]
        by (intro driver_quiet [OF inv]) (simp_all add: owed_emit owed_s)
      with send None show ?thesis by (simp add: Let_def)
    next
      case (Some x)
      have "threads_inv (DSend ?u, w, unlock_guard E (lock_guard E s))"
        using u by (intro driver_quiet [OF inv]) (simp_all add: owed_emit owed_s)
      with send Some show ?thesis by (simp add: Let_def)
    qed
  next
    case closed
    with ok LogUDP_ok [of c E False cid s] obtain l where
      log: "LogUDP E False cid c s = Some (emit E (DoLog cid P_UDP False l [] (ui_processId c) []) s)" by auto
    have "threads_inv (DClose cid, w, emit E (DoLog cid P_UDP False l [] (ui_processId c) []) s)"
      by (intro driver_quiet [OF inv]) (simp_all add: owed_emit owed_s)
    with closed log show ?thesis by simp
  next
    case alone
    have "handler_own s" using pre by (simp add: shared_ok_def)
    from handle_event_alone [OF this ok alone, of E] obtain t where
      t: "handle_event E ev s = Some t" "aside s t" "handler_own t" "m_udpCtxMap t = m_udpCtxMap s"
      by (auto simp: event_alone_def)
    have data: "proxy_data t = proxy_data s" using t(2) by (simp add: aside_def)
    have "extends no_sockets s t" using t(2) no_net_monitors(1) by (auto simp: aside_def extends_def)
    then have "sockets_owed {#} t"
      by (rule owed_ext [OF _ held_same]) (use owed_s data in \<open>simp_all add: proxy_data_def\<close>)
    then have "shared_ok (worker_requests w) {} {#} t"
      using pre t data proxy_inv_data [OF data, of "worker_requests w"] aside_connects_once [OF t(2)]
      by (simp add: shared_ok_def proxy_data_def)
    moreover have "m_ovDataSet t = m_ovDataSet s" using data by (simp add: proxy_data_def)
    ultimately have "threads_inv (DReady, w, t)" by (intro driver_result [OF inv]) simp_all
    moreover have "driver_call E ev s = map_option (Pair DReady) (handle_event E ev s)"
      using alone by (cases ev) auto
    ultimately show ?thesis using t(1) by simp
  qed
qed

end
