(* ===== verification/Handler_Threads_Safety.thy ===== *)
theory Handler_Threads_Safety
  imports Handler_Threads_Inv Handler_Events
begin

text \<open>
  What holds for every interleaving of the two threads: where they fault, ownership of requests and sockets,
  mutual exclusion, and that every operation comes to its end; and that a thread which is not
  interrupted does what the operations of \<open>Event_Handler\<close> and \<open>Udp_Proxy\<close> do.
\<close>

inductive thread_reach :: "env \<Rightarrow> threads \<Rightarrow> bool" for E where
  threads_start: "handler_reach E s \<Longrightarrow> thread_reach E (DReady, WReady, s)"
| threads_run: "thread_reach E x \<Longrightarrow> thread_step E x y \<Longrightarrow> thread_reach E y"

lemma port_error_taken: "port_error c \<Longrightarrow> worker_take c s = None"
  by (simp add: port_error_def worker_take_def is_timeout_def)

lemma busy_step_inv:
  assumes "threads_inv (d, w, s)" "busy_step E (d, w, s) y" shows "threads_inv y"
  using assms(2)
proof cases
  case (driver_goes_on d' s')
  then have "\<not> empty_send d s" using empty_send_faults by force
  with driver_goes_on driver_step_ok [OF assms(1), of E] show ?thesis by (simp add: driver_moves_def)
next
  case (worker_goes_on w' s')
  with worker_step_ok [OF assms(1), of E] show ?thesis by (simp add: worker_moves_def)
qed

lemma thread_step_inv:
  assumes "threads_inv (d, w, s)" "thread_step E (d, w, s) y" shows "threads_inv y"
  using assms(2)
proof cases
  case (driver_enters ev d' s')
  with driver_call_ok [of w s ev E] assms(1) show ?thesis by (simp add: driver_moves_def)
next
  case (worker_takes c w' s')
  then have "\<not> port_error c" using port_error_taken by force
  with worker_takes worker_take_ok [of d s c] assms(1) show ?thesis by (simp add: worker_moves_def)
next
  case thread_goes_on
  from busy_step_inv [OF assms(1) this] show ?thesis .
qed

lemma thread_reach_inv: "thread_reach E x \<Longrightarrow> threads_inv x"
proof (induction rule: thread_reach.induct)
  case (threads_start s)
  then show ?case by (simp add: threads_inv_ready handler_reach_inv)
next
  case (threads_run x y)
  obtain d w s where "x = (d, w, s)" by (cases x)
  with threads_run thread_step_inv show ?case by blast
qed

section \<open>The end of an operation\<close>

fun driver_rank :: "driver_pc \<Rightarrow> nat" where
  "driver_rank DReady = 0"
| "driver_rank (DSockets u) = 8"
| "driver_rank (DInsert u tcp udp) = 7"
| "driver_rank (DRegister u tcp udp) = 6"
| "driver_rank (DRequest u tcp) = 5"
| "driver_rank (DConnect u tcp pov) = 4"
| "driver_rank (DFreeRequest u pov) = 3"
| "driver_rank (DUndo u) = 2"
| "driver_rank DUnlock = 1"
| "driver_rank (DContext u) = 3"
| "driver_rank (DSend u) = 2"
| "driver_rank (DDirect u) = 1"
| "driver_rank (DClose cid) = 2"
| "driver_rank (DErase cid) = 1"

fun worker_rank :: "worker_pc \<Rightarrow> nat" where
  "worker_rank WReady = 0"
| "worker_rank (WComplete sk n pov err) = 5"
| "worker_rank (WForward sk pov cid buf len addr alen) = 4"
| "worker_rank (WTcpReceive sk pov) = 3"
| "worker_rank (WUdpReceive sk pov) = 3"
| "worker_rank (WPost sk pov) = 2"
| "worker_rank (WDelete pov) = 1"

lemma driver_step_rank: "driver_step E d s = Some (d', t) \<Longrightarrow> d \<noteq> DReady \<Longrightarrow> driver_rank d' < driver_rank d"
  by (cases d) (auto simp: split_def Let_def bind_eq_Some_conv split: if_splits)

lemma worker_step_rank:
  assumes "worker_step E w s = Some (w', t)" "w \<noteq> WReady" shows "worker_rank w' < worker_rank w"
proof (cases w)
  case (WComplete sk n p err)
  with assms obtain d where "map_of (m_ovDataSet s) p = Some d" by (auto simp: bind_eq_Some_conv)
  with assms WComplete show ?thesis
    by (cases "ov_type d") (auto simp: Let_def bind_eq_Some_conv split: if_splits option.splits)
qed (use assms in \<open>auto simp: split_def Let_def bind_eq_Some_conv split: if_splits\<close>)

lemma busy_step_rank:
  "busy_step E (d, w, s) (d', w', s') \<Longrightarrow> driver_rank d' + worker_rank w' < driver_rank d + worker_rank w"
  by (auto elim!: busy_stepE dest: driver_step_rank worker_step_rank)

lemma busy_steps_rank:
  "(busy_step E ^^ n) (d, w, s) (d', w', s') \<Longrightarrow> n + driver_rank d' + worker_rank w' \<le> driver_rank d + worker_rank w"
proof (induction n arbitrary: d' w' s')
  case (Suc n)
  then obtain y where "(busy_step E ^^ n) (d, w, s) y" "busy_step E y (d', w', s')" by auto
  moreover obtain d1 w1 s1 where "y = (d1, w1, s1)" by (cases y)
  ultimately show ?case using Suc.IH [of d1 w1 s1] busy_step_rank [of E d1 w1 s1 d' w' s'] by auto
qed auto

lemma busy_progress:
  assumes inv: "threads_inv (d, w, s)" and "d \<noteq> DReady \<and> \<not> empty_send d s \<or> d = DReady \<and> w \<noteq> WReady"
  shows "\<exists>y. busy_step E (d, w, s) y"
proof (cases "d = DReady")
  case True
  with assms worker_step_ok [OF inv, of E] obtain w' t where "worker_step E w s = Some (w', t)"
    by (auto simp: worker_moves_def)
  with True assms(2) have "busy_step E (d, w, s) (d, w', t)" by (intro busy_step.worker_goes_on) simp_all
  then show ?thesis ..
next
  case False
  with assms driver_step_ok [OF inv, of E] obtain d' t where "driver_step E d s = Some (d', t)"
    by (auto simp: driver_moves_def)
  with False have "busy_step E (d, w, s) (d', w, t)" by (intro busy_step.driver_goes_on)
  then show ?thesis ..
qed

lemma busy_progress_worker:
  assumes inv: "threads_inv (d, w, s)" and "empty_send d s" "w \<noteq> WReady"
  shows "\<exists>y. busy_step E (d, w, s) y"
proof -
  from worker_step_ok [OF inv, of E] assms(3) obtain w' t where "worker_step E w s = Some (w', t)"
    by (auto simp: worker_moves_def)
  moreover have "\<not> holds_mutex d" using assms(2) by (cases d) simp_all
  ultimately show ?thesis using assms(3) by (blast intro: busy_step.worker_goes_on)
qed

lemma busy_reach: "thread_reach E x \<Longrightarrow> (busy_step E)\<^sup>*\<^sup>* x y \<Longrightarrow> thread_reach E y"
  by (rotate_tac, induction rule: rtranclp_induct) (auto intro: threads_run thread_goes_on)

section \<open>Mutual exclusion\<close>

text \<open>\<open>passes b b'\<close>: a legal sequence of lock calls from the mutex in state \<open>b\<close> to \<open>b'\<close>, that ends outside the critical section.\<close>

definition passes :: "bool \<Rightarrow> bool \<Rightarrow> trace \<Rightarrow> bool" where
  "passes b b' tr \<longleftrightarrow> lock_run tr (0, b) = Some (0, b')"

lemma passes_neutral: "extends lock_neutral s t \<Longrightarrow> extends (passes b b) s t"
  by (auto simp: extends_def passes_def lock_neutral_def)

lemma passes_unlocked: "extends unlocked_neutral s t = extends (passes False False) s t"
  by (simp add: extends_def passes_def unlocked_neutral_def)

lemma passes_take: "extends (passes False True) s (lock_guard E s)"
  by (simp add: extends_def passes_def emit_eq lock_act_def)

lemma passes_leave: "extends lock_neutral s t \<Longrightarrow> extends (passes True False) s (unlock_guard E t)"
  by (auto simp: extends_def passes_def lock_neutral_def emit_eq lock_run_append lock_act_def)

lemma driver_call_locks:
  assumes "driver_call E ev s = Some (d, t)" shows "extends (passes False (holds_mutex d)) s t"
proof -
  consider (send) cid ra buf len opts where "ev = EvUdpSend cid ra buf len opts"
    | (closed) cid c where "ev = EvUdpClosed cid c"
    | (alone) "d = DReady" "handle_event E ev s = Some t"
    using assms by (cases ev) auto
  then show ?thesis
  proof cases
    case send
    have "extends unlocked_neutral s (unlock_guard E (lock_guard E s))"
      by (rule mutex_section) simp
    with assms send show ?thesis
      by (auto simp: Let_def passes_take passes_unlocked split: option.splits)
  next
    case closed
    with assms LogUDP_locks(1) show ?thesis by (auto simp: bind_eq_Some_conv passes_unlocked)
  next
    case alone
    with handle_event_locks show ?thesis by (simp add: passes_unlocked)
  qed
qed

lemma locks_sys: "extends lock_neutral s t \<Longrightarrow> extends lock_neutral s (snd (sys E (Net n) t))"
  using locks_net [of s t E n] by (simp add: emit_def)

lemma locks_requests:
  "request_call c \<Longrightarrow> extends lock_neutral s t \<Longrightarrow> extends lock_neutral s (snd (submit E ok c p t))"
  "extends lock_neutral s t \<Longrightarrow> extends lock_neutral s (snd (postCompletion E sk n p t))"
  "extends lock_neutral s t \<Longrightarrow> extends lock_neutral s (snd (registerSocket E sk t))"
  using locks.ext_submit [OF locks.good_request] locks_sys [of s t E]
  by (simp_all add: postCompletion_def registerSocket_def split_def Let_def extends_def)

lemma locks_section:
  fixes s t :: event_handler
  shows "extends lock_neutral (enter_cs E s) t \<Longrightarrow> extends lock_neutral s (leave_cs E t)"
  by (rule locks.ext_section [OF _ locks.ext_refl [OF refl]])

lemma udpSend_passes:
  fixes s t :: event_handler
  shows "udpSend E cid buf len ra n s = Some (r, t) \<Longrightarrow> extends (passes b b) s t"
  by (rule passes_neutral, erule locks.ext_udpSend) (rule locks.ext_refl [OF refl])

lemma driver_step_locks:
  assumes "driver_step E d s = Some (d', t)" "d \<noteq> DReady"
  shows "extends (passes (holds_mutex d) (holds_mutex d')) s t"
proof (cases d)
  case (DSockets u)
  with assms show ?thesis
    by (auto simp: split_def Let_def intro!: passes_neutral locks_sys locks_net split: if_splits)
next
  case (DInsert u tcp udp)
  with assms show ?thesis
    by (auto simp: Let_def intro!: passes_neutral locks_section locks.ext_fields)
next
  case (DRegister u tcp udp)
  with assms show ?thesis
    by (auto simp: split_def Let_def intro!: passes_neutral locks_requests split: if_splits)
next
  case (DRequest u tcp)
  with assms show ?thesis
    by (auto simp: split_def Let_def intro!: passes_neutral locks.ext_fields locks.ext_newOV)
next
  case (DConnect u tcp p)
  with assms show ?thesis
    by (auto simp: split_def Let_def intro!: passes_neutral locks_requests locks_net split: if_splits)
next
  case (DFreeRequest u p)
  with assms show ?thesis by (auto intro!: passes_neutral locks.ext_deleteOV)
next
  case (DUndo u)
  with assms show ?thesis by (auto intro!: passes_neutral locks_deleteProxyConnection)
next
  case DUnlock
  with assms show ?thesis by (auto intro!: passes_leave)
next
  case (DContext u)
  with assms show ?thesis by (auto simp: bind_eq_Some_conv intro!: passes_leave)
next
  case (DSend u)
  with assms show ?thesis
    by (auto simp: split_def Let_def bind_eq_Some_conv split: if_splits dest: udpSend_passes)
next
  case (DDirect u)
  with assms show ?thesis by (auto intro!: passes_neutral locks_call)
next
  case (DClose cid)
  with assms show ?thesis by (auto intro!: passes_neutral locks_deleteProxyConnection)
next
  case (DErase cid)
  with assms have "extends unlocked_neutral s t"
    by (auto simp: Let_def intro!: mutex_section split: option.split)
  with assms DErase show ?thesis by (auto simp: passes_unlocked Let_def)
qed (use assms in simp)

lemma worker_step_locks:
  assumes "worker_step E w s = Some (w', t)" "w \<noteq> WReady" "\<not> (wants_mutex w \<and> b)"
  shows "extends (passes b b) s t"
proof (cases w)
  case (WComplete sk n p err)
  with assms(1) obtain d where d: "map_of (m_ovDataSet s) p = Some d" by (auto simp: bind_eq_Some_conv)
  have "extends lock_neutral s t"
  proof (cases "ov_type d")
    case OVT_TCP_RECEIVE
    with assms(1) d WComplete show ?thesis
      by (auto simp: Let_def bind_eq_Some_conv split: if_splits option.splits
          intro!: locks_section dest: locks.ext_tcp_reply [where s = "enter_cs E s"])
  next
    case OVT_UDP_RECEIVE
    with assms(1) d WComplete show ?thesis
      by (auto simp: bind_eq_Some_conv split: if_splits option.splits)
  next
    case OVT_CONNECT
    with assms(1) d WComplete show ?thesis
      by (auto simp: locks_deleteProxyConnection split: if_splits intro: locks.ext_onConnectComplete)
  qed (use assms(1) d WComplete in auto)
  then show ?thesis by (rule passes_neutral)
next
  case (WForward sk p i buf len addr al)
  with assms have "\<not> b" "EventHandler_onUdpReceiveComplete E i buf len addr al s = Some t" by (auto split: if_splits)
  with handler_receiver_locks [of E] show ?thesis by (auto simp: receiver_calls_def passes_unlocked)
qed (use assms in \<open>auto simp: split_def Let_def bind_eq_Some_conv intro!: passes_neutral locks_requests
    locks.ext_fields locks.ext_deleteOV\<close>)

lemma worker_take_trace: "worker_take c s = Some (w, t) \<Longrightarrow> trace t = trace s"
  by (auto simp: worker_take_def bind_eq_Some_conv split: if_splits)

lemma thread_step_locks:
  assumes "thread_step E (d, w, s) (d', w', t)"
  shows "extends (passes (holds_mutex d) (holds_mutex d')) s t"
  using assms
proof cases
  case (driver_enters ev)
  with driver_call_locks show ?thesis by auto
next
  case (worker_takes c)
  then have "trace t = trace s" using worker_take_trace by blast
  then have "extends (passes (holds_mutex d) (holds_mutex d)) s t" by (intro passes_neutral) simp
  with worker_takes show ?thesis by simp
next
  case thread_goes_on
  then show ?thesis
    by cases (auto intro: driver_step_locks worker_step_locks)
qed

section \<open>Whole operations as schedules\<close>

lemma run_driver_busy:
  "run_driver E n (d, s) = Some t \<Longrightarrow> (busy_step E)\<^sup>*\<^sup>* (d, w, s) (DReady, w, t)"
proof (induction n arbitrary: d s)
  case 0
  then show ?case by (cases d) auto
next
  case (Suc n)
  show ?case
  proof (cases "d = DReady")
    case False
    with Suc.prems obtain d' u where u: "driver_step E d s = Some (d', u)" "run_driver E n (d', u) = Some t"
      by (auto simp: run_driver_Suc bind_eq_Some_conv)
    from converse_rtranclp_into_rtranclp [OF busy_step.driver_goes_on [OF False u(1)] Suc.IH [OF u(2)]] show ?thesis .
  qed (use Suc.prems in simp)
qed

lemma run_worker_busy:
  "run_worker E n (w, s) = Some t \<Longrightarrow> (busy_step E)\<^sup>*\<^sup>* (DReady, w, s) (DReady, WReady, t)"
proof (induction n arbitrary: w s)
  case 0
  then show ?case by (cases w) auto
next
  case (Suc n)
  show ?case
  proof (cases "w = WReady")
    case False
    with Suc.prems obtain w' u where u: "worker_step E w s = Some (w', u)" "run_worker E n (w', u) = Some t"
      by (auto simp: run_worker_Suc bind_eq_Some_conv)
    have "busy_step E (DReady, w, s) (DReady, w', u)" by (rule busy_step.worker_goes_on [OF False _ u(1)]) simp
    from converse_rtranclp_into_rtranclp [OF this Suc.IH [OF u(2)]] show ?thesis .
  qed (use Suc.prems in simp)
qed

lemma busy_threads: "(busy_step E)\<^sup>*\<^sup>* x y \<Longrightarrow> (thread_step E)\<^sup>*\<^sup>* x y"
  by (induction rule: rtranclp_induct) (auto intro: thread_goes_on rtranclp.rtrancl_into_rtrancl)

lemma handler_step_threads:
  assumes "handler_step E s t" shows "(thread_step E)\<^sup>*\<^sup>* (DReady, WReady, s) (DReady, WReady, t)"
  using assms
proof cases
  case (step_event ev)
  with driver_alone_eq [of E ev s] obtain d u where
    u: "driver_call E ev s = Some (d, u)" "run_driver E 8 (d, u) = Some t" by (auto simp: bind_eq_Some_conv)
  from converse_rtranclp_into_rtranclp [OF driver_enters [OF step_event(1) u(1)] busy_threads [OF run_driver_busy [OF u(2)]]]
  show ?thesis .
next
  case (step_completion c)
  with worker_alone_eq [OF step_completion(1), of E] obtain w u where
    w: "worker_take c s = Some (w, u)" and run: "run_worker E 5 (w, u) = Some t" by (auto simp: bind_eq_Some_conv)
  have "thread_step E (DReady, WReady, s) (DReady, w, u)"
    by (rule worker_takes [OF step_completion(1) w])
  with busy_threads [OF run_worker_busy] run show ?thesis
    by (metis converse_rtranclp_into_rtranclp)
qed

text \<open>
  The steps of a thread that is not interrupted are the operations of the sequential model: a
  driver call followed by at most 8 steps is the event's handler, a packet followed by at most 5 steps is the
  loop body of the worker thread; so every sequential run is one of the interleavings.
\<close>

lemma thread_alone:
  "Option.bind (driver_call E ev s) (run_driver E 8) = handle_event E ev s
    \<and> (legal s c \<longrightarrow> Option.bind (worker_take c s) (run_worker E 5) =
        worker_body (onComplete E (EventHandler_onUdpReceiveComplete E)) c (deliver c s))
    \<and> (handler_step E s t \<longrightarrow> (thread_step E)\<^sup>*\<^sup>* (DReady, WReady, s) (DReady, WReady, t))"
  by (intro conjI impI driver_alone_eq worker_alone_eq handler_step_threads)

section \<open>Two threads at work\<close>

text \<open>
  An endpoint whose connection to the proxy is being refused sends its next datagram: the driver's
  thread is about to send, the worker thread has taken the completion.
\<close>

definition example_call :: udp_send where
  "example_call = \<lparr>us_id = 7, us_remoteAddress = example_address, us_buf = [3], us_len = 1, us_options = None\<rparr>"

definition example_called :: event_handler where
  "example_called = unlock_guard handler_env (lock_guard handler_env example_proxied)"

definition example_race :: threads where
  "example_race = (DSend example_call, WComplete 3 0 0 1225, deliver example_refused example_called)"

lemma example_called_step:
  "event_ok (EvUdpSend 7 example_address [3] 1 None) example_proxied"
  "driver_call handler_env (EvUdpSend 7 example_address [3] 1 None) example_proxied = Some (DSend example_call, example_called)"
proof -
  from example_proxied_connected handler_reach_inv [OF example_proxied_reach] obtain ctx where
    "map_of (m_udpCtxMap example_proxied) 7 = Some ctx"
    unfolding handler_inv_def contexts_cover_def by (metis domD domI subsetD)
  then show "event_ok (EvUdpSend 7 example_address [3] 1 None) example_proxied"
    "driver_call handler_env (EvUdpSend 7 example_address [3] 1 None) example_proxied = Some (DSend example_call, example_called)"
    by (simp_all add: example_called_def example_call_def address_ok_def example_address_def options_ok_def Let_def)
qed

lemma example_called_legal: "legal example_called example_refused"
  by (simp add: legal_def example_refused_def example_called_def is_timeout_def WAIT_TIMEOUT_def example_proxied_fields)

lemma example_called_reach: "thread_reach handler_env (DSend example_call, WReady, example_called)"
  by (rule threads_run [OF threads_start [OF example_proxied_reach] driver_enters [OF example_called_step]])

lemma example_race_step: "thread_step handler_env (DSend example_call, WReady, example_called) example_race"
  unfolding example_race_def
  by (rule worker_takes [OF example_called_legal])
    (simp add: worker_take_def example_refused_def is_timeout_def WAIT_TIMEOUT_def)

lemma example_race_reach: "thread_reach handler_env example_race"
  by (rule threads_run [OF example_called_reach example_race_step])

section \<open>Properties\<close>

text \<open>
  C1: however the two threads of the plugin interleave, it faults in two places only, and there
  always. The driver's thread faults just when it sends an empty datagram on an established
  association (the address of the first byte of an empty vector is taken); the worker thread faults just
  when it takes an error that comes without a request, and with a packet the platform may deliver that
  happens only if the port could not be created (a null pointer is followed). Every other event, packet
  and step is defined: no freed object is used and no memory outside a block is touched.
\<close>

theorem threads_fault_sites:
  assumes "thread_reach E (d, w, s)"
  shows "(d = DReady \<longrightarrow> event_ok ev s \<longrightarrow> driver_call E ev s \<noteq> None)
    \<and> (d \<noteq> DReady \<longrightarrow> (driver_step E d s = None \<longleftrightarrow>
         (\<exists>u pd. d = DSend u \<and> us_len u \<le> 0 \<and> map_of (m_socketMap s) (us_id u) = Some pd \<and> proxyState pd = PS_CONNECTED)))
    \<and> (w = WReady \<longrightarrow> legal s c \<longrightarrow> (worker_take c s = None \<longleftrightarrow> port_error c) \<and> (worker_take c s = None \<longrightarrow> no_port s))
    \<and> (w \<noteq> WReady \<longrightarrow> worker_step E w s \<noteq> None)"
proof (intro conjI impI)
  note inv = thread_reach_inv [OF assms]
  show "driver_call E ev s \<noteq> None" if "d = DReady" "event_ok ev s"
    using driver_call_ok [of w s ev E] inv that by (auto simp: driver_moves_def)
  show "driver_step E d s = None \<longleftrightarrow> (\<exists>u pd. d = DSend u \<and> us_len u \<le> 0 \<and>
      map_of (m_socketMap s) (us_id u) = Some pd \<and> proxyState pd = PS_CONNECTED)" if "d \<noteq> DReady"
  proof -
    have "driver_step E d s = None \<longleftrightarrow> empty_send d s"
      using driver_step_ok [OF inv that, of E] empty_send_faults by (cases "empty_send d s") (auto simp: driver_moves_def)
    then show ?thesis by (cases d) (auto simp: sendable_def not_less)
  qed
  show "worker_step E w s \<noteq> None" if "w \<noteq> WReady"
    using worker_step_ok [OF inv that, of E] by (auto simp: worker_moves_def)
  assume "w = WReady" "legal s c"
  show take: "worker_take c s = None \<longleftrightarrow> port_error c"
    using worker_take_ok [of d s c] inv \<open>w = WReady\<close> \<open>legal s c\<close> port_error_taken [of c s]
    by (cases "port_error c") (auto simp: worker_moves_def)
  show "no_port s" if "worker_take c s = None" using legal_port [OF \<open>legal s c\<close>] that take by blast
qed

theorem threads_fault_sites_witness:
  "(\<exists>d t. driver_step handler_env (DSend example_call) (deliver example_refused example_called) = Some (d, t))
    \<and> (\<exists>w t. worker_step handler_env (WComplete 3 0 0 1225) (deliver example_refused example_called) = Some (w, t))"
  using threads_fault_sites [OF example_race_reach [unfolded example_race_def]]
  by (auto simp: example_call_def simp del: driver_step.simps worker_step.simps)

text \<open>
  C9: at every point of every interleaving each live request object has exactly one owner: the
  platform, the driver's thread or the worker thread; each open socket belongs to a connection or to
  the driver's thread; and every connection has a context but the one being created.
\<close>

theorem threads_ownership:
  assumes "thread_reach E (d, w, s)"
  shows "distinct (inflight s) \<and>
    dom (map_of (m_ovDataSet s)) = set (inflight s) \<union> driver_requests d \<union> worker_requests w \<and>
    set (inflight s) \<inter> (driver_requests d \<union> worker_requests w) = {} \<and> driver_requests d \<inter> worker_requests w = {} \<and>
    mset (opened_sockets (trace s)) = mset (closed_sockets (trace s)) + held_sockets s + driver_sockets d \<and>
    dom (map_of (m_socketMap s)) \<subseteq> dom (map_of (m_udpCtxMap s)) \<union> creating d"
proof -
  have inv: "shared_ok (driver_requests d \<union> worker_requests w) (creating d) (driver_sockets d) s"
    "driver_requests d \<inter> worker_requests w = {}"
    using thread_reach_inv [OF assms] by (simp_all add: threads_inv.simps)
  then have "proxy_inv (driver_requests d \<union> worker_requests w) s" by (simp add: shared_ok_def)
  then have "distinct (inflight s)"
    "dom (map_of (m_ovDataSet s)) = set (inflight s) \<union> (driver_requests d \<union> worker_requests w)"
    "set (inflight s) \<inter> (driver_requests d \<union> worker_requests w) = {}" unfolding proxy_inv_def by blast+
  with inv show ?thesis by (simp add: shared_ok_def sockets_owed_def Un_assoc)
qed

theorem threads_ownership_witness:
  "dom (map_of (m_ovDataSet (deliver example_refused example_called))) = set (inflight (deliver example_refused example_called)) \<union> {0}"
  using threads_ownership [OF example_race_reach [unfolded example_race_def]] by simp

text \<open>
  C10: the lock calls of the interleaved threads are legal: the mutex is never taken while it is
  held nor while a thread is inside the critical section, no lock is released that is not held, and
  between steps no thread is inside the critical section.
\<close>

theorem threads_mutual_exclusion:
  assumes "thread_step E (d, w, s) (d', w', t)"
  shows "\<exists>tr. trace t = trace s @ tr \<and> lock_run tr (0, holds_mutex d) = Some (0, holds_mutex d')"
  using thread_step_locks [OF assms] by (simp add: extends_def passes_def)

theorem threads_mutual_exclusion_witness:
  "\<exists>tr. trace (deliver example_refused example_called) = trace example_called @ tr \<and> lock_run tr (0, False) = Some (0, False)"
  using threads_mutual_exclusion [OF example_race_step [unfolded example_race_def]] by simp

text \<open>
  C11: there is no deadlock and no livelock: from every reachable state the threads end the
  operations they are in after at most 13 steps in any schedule, and no schedule gets stuck before
  both have ended, unless the driver's thread is at the one fault it has, an empty datagram on an
  established association.
\<close>

theorem threads_finish:
  assumes "thread_reach E (d, w, s)" "(busy_step E ^^ n) (d, w, s) (d', w', t)"
  shows "n \<le> 13 \<and> ((\<nexists>y. busy_step E (d', w', t) y) \<longrightarrow> (d' = DReady \<or> empty_send d' t) \<and> w' = WReady)"
proof -
  have "driver_rank d \<le> 8" "worker_rank w \<le> 5" by (cases d; simp) (cases w; simp)
  then have "n \<le> 13" using busy_steps_rank [OF assms(2)] by simp
  moreover have "thread_reach E (d', w', t)"
    by (rule busy_reach [OF assms(1)]) (rule relpowp_imp_rtranclp [OF assms(2)])
  from busy_progress [OF thread_reach_inv [OF this], of E] busy_progress_worker [OF thread_reach_inv [OF this], of E]
  have "(\<nexists>y. busy_step E (d', w', t) y) \<longrightarrow> (d' = DReady \<or> empty_send d' t) \<and> w' = WReady" by blast
  ultimately show ?thesis ..
qed

theorem threads_finish_witness: "\<exists>y. busy_step handler_env example_race y"
  using threads_finish [OF example_race_reach [unfolded example_race_def], of 0]
  by (auto simp: example_race_def example_call_def sendable_def)

end
