(* ===== verification/Handler_Stop.thy ===== *)
theory Handler_Stop
  imports Handler_Threads_Safety Plugin_Core
begin

text \<open>
  Stopping the plugin while its threads run: the host's thread in \<open>NetFilterCore::Stop\<close>, which is
  \<open>EventHandler::free\<close> (with \<open>UDPProxy::free\<close> and \<open>IOCPService::free\<close>) and then \<open>nf_free\<close>. The host's
  thread sets the stop event, waits for the worker thread, and empties the proxy's tables without a
  lock; it takes the mutex for the contexts only, and the driver is released last, so the driver's
  thread can call the handler all the time.

  Of the worker thread the model has the loop around the completion handlers too: it waits for a
  packet, handles it, and tests the stop event after each packet.
\<close>

section \<open>The host's thread\<close>

text \<open>
  \<open>HSignal\<close> and \<open>HJoin\<close> are \<open>IOCPService::free\<close>, before and after the wait for the worker; one step
  of \<open>HRequests\<close> and of \<open>HConnections\<close> is one turn of the loops of \<open>UDPProxy::free\<close>; \<open>HContexts\<close> is the
  section of \<open>EventHandler::free\<close> under the mutex and \<open>HRelease\<close> the call of \<open>nf_free\<close>.
\<close>

datatype host_pc = HSignal | HJoin | HRequests | HConnections | HContexts | HRelease | HDone

fun host_step :: "env \<Rightarrow> host_pc \<Rightarrow> event_handler \<Rightarrow> host_pc \<times> event_handler" where
  "host_step E HSignal s =
     (if m_h s OBJ_workerThread = INVALID_HANDLE_VALUE then (HRequests, s)
      else (HJoin, emit E (Sync (SetEvent (m_h s OBJ_stopEvent))) s))"
| "host_step E HJoin s =
     (let s = emit E (Sync (WaitForSingleObject (m_h s OBJ_workerThread))) s;
          s = Close E OBJ_workerThread s
      in (HRequests,
          if m_hIOCP s \<noteq> INVALID_HANDLE_VALUE
          then (emit E (Sync (CloseHandle (m_hIOCP s))) s)\<lparr>m_hIOCP := INVALID_HANDLE_VALUE\<rparr>
          else s))"
| "host_step E HRequests s =
     (case m_ovDataSet s of
        [] \<Rightarrow> (HConnections, s)
      | x # m \<Rightarrow> (HRequests, s\<lparr>m_ovDataSet := m\<rparr>))"
| "host_step E HConnections s =
     (case m_socketMap s of
        [] \<Rightarrow> (HContexts, s)
      | (k, pd) # m \<Rightarrow> (HConnections, (delete_PROXY_DATA E pd s)\<lparr>m_socketMap := m\<rparr>))"
| "host_step E HContexts s =
     (let s = lock_guard E s;
          s = s\<lparr>m_udpCtxMap := map (\<lambda>(k, v). (k, UDPContext_dtor v)) (m_udpCtxMap s)\<rparr>;
          s = s\<lparr>m_udpCtxMap := []\<rparr>
      in (HRelease, unlock_guard E s))"
| "host_step E HRelease s = (HDone, emit E (Nf Free) s)"
| "host_step E HDone s = (HDone, s)"

section \<open>The worker thread's loop\<close>

datatype worker_loop = WWait | WWork worker_pc | WTest | WEnded

fun worker_after :: "worker_pc \<Rightarrow> worker_loop" where
  "worker_after WReady = WTest"
| "worker_after w = WWork w"

fun loop_pc :: "worker_loop \<Rightarrow> worker_pc" where
  "loop_pc (WWork w) = w"
| "loop_pc l = WReady"

lemma loop_pc_after [simp]: "loop_pc (worker_after w) = w"
  by (cases w) simp_all

text \<open>The host's thread waits for the worker thread, and for the mutex.\<close>

fun host_waits :: "host_pc \<Rightarrow> driver_pc \<Rightarrow> worker_loop \<Rightarrow> bool" where
  "host_waits HJoin d l = (l \<noteq> WEnded)"
| "host_waits HContexts d l = holds_mutex d"
| "host_waits h d l = False"

section \<open>Three threads\<close>

type_synonym stopping = "host_pc \<times> driver_pc \<times> worker_loop \<times> event_handler"

text \<open>
  Steps of the host's thread and of the worker thread. The stop event is set while the host's thread
  is in \<open>HJoin\<close>; it leaves that point only when the worker thread has seen it and ended.
\<close>

inductive stop_step :: "env \<Rightarrow> stopping \<Rightarrow> stopping \<Rightarrow> bool" for E where
  host_goes_on: "h \<noteq> HDone \<Longrightarrow> \<not> host_waits h d l \<Longrightarrow> host_step E h s = (h', s') \<Longrightarrow>
    stop_step E (h, d, l, s) (h', d, l, s')"
| loop_takes: "legal s c \<Longrightarrow> worker_take c s = Some (w, s') \<Longrightarrow>
    stop_step E (h, d, WWait, s) (h, d, worker_after w, s')"
| loop_works: "\<not> (wants_mutex w \<and> holds_mutex d) \<Longrightarrow> worker_step E w s = Some (w', s') \<Longrightarrow>
    stop_step E (h, d, WWork w, s) (h, d, worker_after w', s')"
| loop_tests: "stop_step E (h, d, WTest, s) (h, d, if h = HJoin then WEnded else WWait, s)"

text \<open>The driver's thread joins in: it goes on with its operation, or calls the handler again.\<close>

inductive race_step :: "env \<Rightarrow> stopping \<Rightarrow> stopping \<Rightarrow> bool" for E where
  race_stop: "stop_step E x y \<Longrightarrow> race_step E x y"
| race_driver: "d \<noteq> DReady \<Longrightarrow> driver_step E d s = Some (d', s') \<Longrightarrow> race_step E (h, d, l, s) (h, d', l, s')"
| race_event: "h \<noteq> HDone \<Longrightarrow> event_ok ev s \<Longrightarrow> driver_call E ev s = Some (d', s') \<Longrightarrow>
    race_step E (h, DReady, l, s) (h, d', l, s')"

inductive_cases stop_stepE: "stop_step E (h, d, l, s) y"

text \<open>The stop begins: the host's thread enters while the worker thread is anywhere in its loop.\<close>

definition stop_start :: "env \<Rightarrow> worker_loop \<Rightarrow> event_handler \<Rightarrow> stopping" where
  "stop_start E l s = (let (h, t) = host_step E HSignal s in (h, DReady, l, t))"

definition worker_exists :: "event_handler \<Rightarrow> bool" where
  "worker_exists s \<longleftrightarrow> m_h s OBJ_workerThread \<noteq> INVALID_HANDLE_VALUE"

section \<open>The invariant of a stop\<close>

text \<open>
  While the driver's thread calls nothing: until the worker has ended the invariant of the threads
  holds; then the tables are emptied one after the other, and every open socket belongs to a
  connection that is still to be deleted.
\<close>

definition freeing :: "event_handler \<Rightarrow> bool" where
  "freeing s \<longleftrightarrow> m_h s OBJ_workerThread = INVALID_HANDLE_VALUE \<and> m_hIOCP s = INVALID_HANDLE_VALUE \<and>
     mset (opened_sockets (trace s)) = mset (closed_sockets (trace s)) + (\<Sum>(c, pd) \<leftarrow> m_socketMap s. conn_sockets pd) \<and>
     length (m_proxyAddress s) = NF_MAX_ADDRESS_LENGTH \<and> handler_own s"

fun emptied :: "host_pc \<Rightarrow> event_handler \<Rightarrow> bool" where
  "emptied HRequests s \<longleftrightarrow> True"
| "emptied HConnections s \<longleftrightarrow> m_ovDataSet s = []"
| "emptied HContexts s \<longleftrightarrow> m_ovDataSet s = [] \<and> m_socketMap s = []"
| "emptied HRelease s \<longleftrightarrow> m_ovDataSet s = [] \<and> m_socketMap s = [] \<and> m_udpCtxMap s = []"
| "emptied HDone s \<longleftrightarrow> m_ovDataSet s = [] \<and> m_socketMap s = [] \<and> m_udpCtxMap s = [] \<and> fst (last (trace s)) = Nf Free"
| "emptied h s \<longleftrightarrow> False"

fun stop_inv :: "stopping \<Rightarrow> bool" where
  "stop_inv (h, d, l, s) \<longleftrightarrow> d = DReady \<and>
     (if h = HJoin then threads_inv (DReady, loop_pc l, s) else l = WEnded \<and> freeing s \<and> emptied h s)"

lemma freeing_sync:
  assumes "freeing s" shows "freeing (emit E (Sync c) s)"
  using assms by (simp add: freeing_def emit_eq handler_own_def)

lemma threads_inv_sync:
  assumes "threads_inv (DReady, w, s)" shows "threads_inv (DReady, w, emit E (Sync c) s)"
proof -
  have inv: "shared_ok (worker_requests w) {} {#} s" "worker_assert w s" using assms by (simp_all add: threads_inv.simps)
  have "sockets_owed {#} (emit E (Sync c) s)" by (rule owed_emit) (use inv in \<open>simp_all add: shared_ok_def\<close>)
  from shared_ok_data [OF inv(1) _ _ this] have "shared_ok (worker_requests w) {} {#} (emit E (Sync c) s)"
    by (simp add: emit_eq proxy_data_def handler_data_def)
  moreover have "worker_assert w (emit E (Sync c) s)"
    by (rule worker_assert_same [OF inv(2)]) (simp add: emit_eq)
  ultimately show ?thesis by (simp add: threads_inv.simps)
qed

lemma start_inv:
  assumes "thread_reach E (DReady, loop_pc l, s)" "worker_exists s"
  shows "stop_inv (stop_start E l s)"
  using threads_inv_sync [OF thread_reach_inv [OF assms(1)]] assms(2)
  by (simp add: stop_start_def worker_exists_def)

lemma join_freeing:
  assumes "threads_inv (DReady, WReady, s)" shows "freeing (snd (host_step E HJoin s))"
proof -
  have inv: "shared_ok {} {} {#} s" using assms by (simp add: threads_inv.simps)
  then have "m_sorted (m_socketMap s)" by (simp add: shared_ok_def proxy_inv_def)
  from held_list [OF this refl] inv have
    "mset (opened_sockets (trace s)) = mset (closed_sockets (trace s)) + (\<Sum>(c, pd) \<leftarrow> m_socketMap s. conn_sockets pd)"
    "length (m_proxyAddress s) = NF_MAX_ADDRESS_LENGTH" "handler_own s"
    by (simp_all add: shared_ok_def sockets_owed_def proxy_inv_def)
  then show ?thesis by (simp add: freeing_def Close_def Let_def emit_eq handler_own_def)
qed

lemma delete_first_freeing:
  assumes "freeing s" "m_socketMap s = (k, pd) # m"
  shows "freeing ((delete_PROXY_DATA E pd s)\<lparr>m_socketMap := m\<rparr>)"
proof -
  have "udp_proxy.more (delete_PROXY_DATA E pd s) = udp_proxy.more s"
    "m_h (delete_PROXY_DATA E pd s) = m_h s" "m_hIOCP (delete_PROXY_DATA E pd s) = m_hIOCP s"
    "m_proxyAddress (delete_PROXY_DATA E pd s) = m_proxyAddress s"
    by (simp_all add: delete_PROXY_DATA_def Let_def emit_eq)
  moreover from this(1) have "handler_own (delete_PROXY_DATA E pd s)"
    using handler_own_same handler_data_more assms(1) unfolding freeing_def by blast
  ultimately show ?thesis
    using assms by (simp add: freeing_def delete_PROXY_DATA_sockets handler_own_def ac_simps)
qed

lemma host_step_inv:
  assumes "stop_inv (h, DReady, l, s)" "h \<noteq> HDone" "\<not> host_waits h DReady l" "host_step E h s = (h', t)"
  shows "stop_inv (h', DReady, l, t)"
proof (cases h)
  case HJoin
  with assms have "threads_inv (DReady, WReady, s)" "l = WEnded" "h' = HRequests" "t = snd (host_step E HJoin s)"
    by (auto simp: Let_def)
  with join_freeing show ?thesis by simp
next
  case HRequests
  with assms show ?thesis by (auto simp: freeing_def handler_own_def split: list.splits)
next
  case HConnections
  with assms delete_first_freeing [of s _ _ _ E] show ?thesis by (auto split: list.splits)
next
  case HContexts
  with assms show ?thesis by (auto simp: freeing_def handler_own_def emit_eq Let_def m_sorted_def)
next
  case HRelease
  with assms show ?thesis by (auto simp: freeing_def handler_own_def emit_eq)
qed (use assms in simp_all)

lemma stop_step_inv:
  assumes "stop_step E x y" "stop_inv x" shows "stop_inv y"
  using assms
proof (cases rule: stop_step.cases)
  case (host_goes_on h d l s h' s')
  with assms(2) have "d = DReady" by simp
  with host_goes_on assms(2) host_step_inv [of h l s E h' s'] show ?thesis by (simp del: stop_inv.simps)
next
  case (loop_takes s c w s' h d)
  then have "\<not> port_error c" using port_error_taken by force
  with loop_takes assms(2) worker_take_ok [of DReady s c] show ?thesis
    by (auto simp: worker_moves_def split: if_splits)
next
  case (loop_works w d s w' s' h)
  show ?thesis
  proof (cases "w = WReady")
    case False
    with loop_works assms(2) worker_step_ok [of DReady w s E] show ?thesis by (auto split: if_splits)
  qed (use loop_works assms(2) in \<open>auto split: if_splits\<close>)
next
  case (loop_tests h d s)
  with assms(2) show ?thesis by (auto split: if_splits)
qed

lemma stop_steps_inv: "(stop_step E)\<^sup>*\<^sup>* x y \<Longrightarrow> stop_inv x \<Longrightarrow> stop_inv y"
  by (induction rule: rtranclp_induct) (auto intro: stop_step_inv)

text \<open>No thread of a stop touches the table of the TCP connections.\<close>

lemma worker_step_links:
  assumes "worker_step E w s = Some (w', t)" shows "m_connInfoMap t = m_connInfoMap s"
proof -
  have "udp_proxy.more t = udp_proxy.more s"
  proof (cases w)
    case (WComplete sk n p err)
    with assms obtain d where "map_of (m_ovDataSet s) p = Some d" by (auto simp: bind_eq_Some_conv)
    with assms WComplete show ?thesis
      by (cases "ov_type d") (auto simp: Let_def bind_eq_Some_conv dest: more_tcp_reply more_handlers
          split: if_splits option.splits)
  next
    case (WForward sk p i b l a al)
    with assms handler_receiver_more [of E] show ?thesis by (auto dest: keeps_moreD split: if_splits)
  qed (use assms in \<open>auto simp: split_def Let_def bind_eq_Some_conv postCompletion_def\<close>)
  then have "handler_data t = handler_data s" by (rule handler_data_more)
  then show ?thesis by (simp add: handler_data_def)
qed

lemma host_step_links: "m_connInfoMap (snd (host_step E h s)) = m_connInfoMap s"
  by (cases h) (auto simp: Let_def Close_def emit_eq delete_PROXY_DATA_def split: list.split)

lemma stop_steps_links: "(stop_step E)\<^sup>*\<^sup>* (h, d, l, s) (h', d', l', t) \<Longrightarrow> m_connInfoMap t = m_connInfoMap s"
proof (induction "(h', d', l', t)" arbitrary: h' d' l' t rule: rtranclp_induct)
  case (step y)
  obtain h1 d1 l1 u where y: "y = (h1, d1, l1, u)" by (cases y)
  have "m_connInfoMap t = m_connInfoMap u"
    using step(2) unfolding y
  proof cases
    case host_goes_on
    then show ?thesis using host_step_links [of E h1 u] by simp
  next
    case (loop_takes c w)
    then show ?thesis
      by (auto simp: worker_take_def bind_eq_Some_conv deliver_def ov_upd_def split: if_splits option.splits)
  qed (use worker_step_links in auto)
  with step(3) y show ?case by simp
qed simp

section \<open>The end of a stop\<close>

fun host_stage :: "host_pc \<Rightarrow> nat" where
  "host_stage HSignal = 6"
| "host_stage HJoin = 5"
| "host_stage HRequests = 4"
| "host_stage HConnections = 3"
| "host_stage HContexts = 2"
| "host_stage HRelease = 1"
| "host_stage HDone = 0"

fun loop_rank :: "worker_loop \<Rightarrow> nat" where
  "loop_rank WWait = 8"
| "loop_rank (WWork w) = 2 + worker_rank w"
| "loop_rank WTest = 1"
| "loop_rank WEnded = 0"

text \<open>What is left of a stop: the host's stages, and in a stage the turns of its loop or the worker's steps.\<close>

fun turns :: "host_pc \<Rightarrow> worker_loop \<Rightarrow> event_handler \<Rightarrow> nat" where
  "turns HJoin l s = loop_rank l"
| "turns HRequests l s = length (m_ovDataSet s)"
| "turns HConnections l s = length (m_socketMap s)"
| "turns h l s = 0"

definition stop_left :: "stopping \<Rightarrow> nat \<times> nat" where
  "stop_left = (\<lambda>(h, d, l, s). (host_stage h, turns h l s))"

abbreviation less_left :: "((nat \<times> nat) \<times> (nat \<times> nat)) set" where
  "less_left \<equiv> less_than <*lex*> less_than"

lemma loop_rank_after: "loop_rank (worker_after w) \<le> 2 + worker_rank w" "w' = WReady \<or> worker_rank w' < worker_rank w \<Longrightarrow>
  loop_rank (worker_after w') < 2 + worker_rank w"
  by (cases w; simp) (cases w'; auto)

lemma stop_step_left:
  assumes "stop_step E x y" "stop_inv x" shows "(stop_left y, stop_left x) \<in> less_left"
  using assms
proof (cases rule: stop_step.cases)
  case (host_goes_on h d l s h' s')
  then show ?thesis
    by (cases h) (use assms(2) in \<open>auto simp: stop_left_def Let_def split: if_splits list.splits\<close>)
next
  case (loop_takes s c w s' h d)
  have "worker_rank w \<le> 5" by (cases w) simp_all
  with loop_rank_after(1) [of w] have "loop_rank (worker_after w) < 8" by linarith
  with loop_takes assms(2) show ?thesis by (auto simp: stop_left_def split: if_splits)
next
  case (loop_works w d s w' s' h)
  then have "w' = WReady \<or> worker_rank w' < worker_rank w"
    using worker_step_rank [of E w s w' s'] by (cases "w = WReady") auto
  with loop_rank_after(2) have "loop_rank (worker_after w') < 2 + worker_rank w" by blast
  with loop_works assms(2) show ?thesis by (auto simp: stop_left_def split: if_splits)
next
  case (loop_tests h d s)
  with assms(2) show ?thesis by (auto simp: stop_left_def split: if_splits)
qed

lemma stop_terminates:
  assumes "stop_inv (f 0)" shows "\<not> (\<forall>i. stop_step E (f i) (f (Suc i)))"
proof
  assume run: "\<forall>i. stop_step E (f i) (f (Suc i))"
  have "stop_inv (f i)" for i
    by (induction i) (use assms run stop_step_inv in blast)+
  with run have "(stop_left (f (Suc i)), stop_left (f i)) \<in> less_left" for i
    using stop_step_left by blast
  then show False
    using wf_no_infinite_down_chainE [OF wf_lex_prod [OF wf_less_than wf_less_than], of "\<lambda>i. stop_left (f i)"] by blast
qed

definition time_out :: completion where
  "time_out = \<lparr>cq_ok = False, cq_socket = 0, cq_transferred = 0, cq_overlapped = None, cq_error = WAIT_TIMEOUT,
     cq_data = [], cq_stop = False\<rparr>"

lemma time_out_taken: "legal s time_out" "worker_take time_out s = Some (WReady, s)"
  by (simp_all add: time_out_def legal_def is_timeout_def worker_take_def deliver_def)

lemma loop_idles: "stop_step E (h, d, WWait, s) (h, d, WTest, s)"
  using loop_takes [OF time_out_taken] by simp

lemma stop_progress:
  assumes "stop_inv (h, DReady, l, s)" "h \<noteq> HDone"
  shows "\<exists>y. stop_step E (h, DReady, l, s) y"
proof (cases "host_waits h DReady l")
  case False
  obtain h' s' where "host_step E h s = (h', s')" by (cases "host_step E h s")
  from host_goes_on [OF assms(2) False this] show ?thesis by blast
next
  case True
  then have h: "h = HJoin" "l \<noteq> WEnded" by (cases h; simp)+
  show ?thesis
  proof (cases l)
    case (WWork w)
    with assms(1) h have inv: "threads_inv (DReady, w, s)" by simp
    obtain w' t where "worker_step E w s = Some (w', t)"
      by (cases "w = WReady") (use worker_step_ok [OF inv, of E] in \<open>auto simp: worker_moves_def\<close>)
    from loop_works [OF _ this, of DReady h] WWork show ?thesis by fastforce
  qed (use h loop_idles loop_tests in blast)+
qed

lemma stop_runs: "stop_inv x \<Longrightarrow> \<exists>t. (stop_step E)\<^sup>*\<^sup>* x (HDone, DReady, WEnded, t)"
proof (induction "stop_left x" arbitrary: x rule: wf_induct_rule [OF wf_lex_prod [OF wf_less_than wf_less_than]])
  case (1 x)
  obtain h l s where x: "x = (h, DReady, l, s)" using "1.prems" by (cases x) simp
  show ?case
  proof (cases "h = HDone")
    case True
    with x "1.prems" show ?thesis by auto
  next
    case False
    with stop_progress [of h l s E] x "1.prems" obtain y where y: "stop_step E x y" by auto
    from "1.hyps" [OF stop_step_left [OF y "1.prems"] stop_step_inv [OF y "1.prems"]] y show ?thesis
      by (meson converse_rtranclp_into_rtranclp)
  qed
qed

section \<open>The host's thread on its own\<close>

fun run_host :: "env \<Rightarrow> nat \<Rightarrow> host_pc \<times> event_handler \<Rightarrow> host_pc \<times> event_handler" where
  "run_host E 0 x = x"
| "run_host E (Suc n) (h, s) = run_host E n (host_step E h s)"

lemma run_requests:
  "m_ovDataSet s = m \<Longrightarrow> run_host E (Suc (length m) + n) (HRequests, s) = run_host E n (HConnections, s\<lparr>m_ovDataSet := []\<rparr>)"
proof (induction m arbitrary: s)
  case Nil
  then show ?case by (cases s) simp
qed simp

lemma run_connections:
  "m_socketMap s = m \<Longrightarrow> run_host E (Suc (length m) + n) (HConnections, s) = run_host E n (HContexts, free_connections E m s)"
  by (induction m arbitrary: s) auto

lemma run_done: "run_host E n (HDone, s) = (HDone, s)"
  by (induction n) simp_all

lemma run_tables:
  assumes "m_ovDataSet s = q" "m_socketMap s = m"
  shows "run_host E (Suc (length q) + (Suc (length m) + Suc (Suc n))) (HRequests, s) =
    (HDone, emit E (Nf Free) (snd (host_step E HContexts (free_connections E m (s\<lparr>m_ovDataSet := []\<rparr>)))))"
  unfolding run_requests [OF assms(1)] using assms(2) by (subst run_connections) (simp_all add: run_done)

text \<open>
  The steps of the host's thread that is not interrupted are \<open>NetFilterCore::Stop\<close> of the sequential
  model, with one turn of its loops for each request object and each connection.
\<close>

lemma stop_alone:
  "run_host E (6 + length (m_ovDataSet s) + length (m_socketMap s)) (HSignal, s) = (HDone, NetFilterCore_Stop E s)"
proof -
  let ?q = "m_ovDataSet s" and ?m = "m_socketMap s"
  have same: "m_ovDataSet (IOCPService_free E s) = ?q" "m_socketMap (IOCPService_free E s) = ?m"
    by (simp_all add: IOCPService_free_def Close_def Let_def emit_eq)
  have stop: "NetFilterCore_Stop E s = emit E (Nf Free) (snd (host_step E HContexts
      (free_connections E ?m ((IOCPService_free E s)\<lparr>m_ovDataSet := []\<rparr>))))"
    by (simp add: NetFilterCore_Stop_def EventHandler_free_def UDPProxy_free_def same Let_def)
  have n: "6 + length ?q + length ?m = Suc (Suc (Suc (length ?q) + (Suc (length ?m) + Suc (Suc 0))))" by simp
  show ?thesis
  proof (cases "worker_exists s")
    case True
    then have "run_host E (Suc (Suc k)) (HSignal, s) = run_host E k (HRequests, IOCPService_free E s)" for k
      by (simp add: worker_exists_def IOCPService_free_def Let_def)
    then show ?thesis unfolding n stop by (simp only: run_tables [OF same])
  next
    case False
    then have "IOCPService_free E s = s" "run_host E (Suc k) (HSignal, s) = run_host E k (HRequests, s)" for k
      by (simp_all add: worker_exists_def IOCPService_free_def)
    then show ?thesis unfolding n stop using run_tables [OF refl refl, of E s 1] by (simp only: add_Suc_right One_nat_def)
  qed
qed

section \<open>A stop while the driver's thread is in an operation\<close>

lemma host_frees_requests: "(stop_step E)\<^sup>*\<^sup>* (HRequests, d, l, s) (HRequests, d, l, s\<lparr>m_ovDataSet := []\<rparr>)"
proof (induction "m_ovDataSet s" arbitrary: s)
  case Nil
  then show ?case by (cases s) simp
next
  case (Cons x m)
  then have "stop_step E (HRequests, d, l, s) (HRequests, d, l, s\<lparr>m_ovDataSet := m\<rparr>)"
    by (intro host_goes_on) (simp_all flip: Cons(2))
  with Cons(1) [of "s\<lparr>m_ovDataSet := m\<rparr>"] show ?case by (simp add: converse_rtranclp_into_rtranclp)
qed

lemma host_joins:
  assumes "worker_exists s"
  shows "\<exists>t. (stop_step E)\<^sup>*\<^sup>* (HSignal, d, WWait, s) (HRequests, d, WEnded, t)"
proof -
  have "stop_step E (HSignal, d, WWait, s) (HJoin, d, WWait, snd (host_step E HSignal s))"
    by (rule host_goes_on) (use assms in \<open>simp_all add: worker_exists_def\<close>)
  moreover note loop_idles [of E HJoin d "snd (host_step E HSignal s)"]
  moreover have "stop_step E (HJoin, d, WTest, t) (HJoin, d, WEnded, t)" for t
    using loop_tests [of E HJoin d t] by simp
  moreover have "stop_step E (HJoin, d, WEnded, t) (HRequests, d, WEnded, snd (host_step E HJoin t))" for t
    by (rule host_goes_on) (simp_all add: Let_def)
  ultimately show ?thesis by (meson rtranclp.rtrancl_refl rtranclp.rtrancl_into_rtrancl)
qed

lemma connect_handed_over:
  assumes "driver_step E (DConnect u tcp pov) s = Some (d, t)"
  shows "\<exists>a r. (Net (ConnectEx tcp a pov), r) \<in> set (drop (length (trace s)) (trace t))"
    "m_ovDataSet t = m_ovDataSet s" "d = DContext u \<longrightarrow> pov \<in> set (inflight t)"
  using assms by (auto simp: submit_def sys_def emit_eq Let_def split: if_splits)

section \<open>Stops of a concrete plugin\<close>

text \<open>The worker has just taken the completion of a connect request that was refused.\<close>

definition example_loop :: worker_loop where
  "example_loop = WWork (WComplete 3 0 0 1225)"

definition example_refusing :: event_handler where
  "example_refusing = deliver example_refused example_proxied"

lemma example_refusing_reach: "thread_reach handler_env (DReady, loop_pc example_loop, example_refusing)"
proof -
  have "legal example_proxied example_refused"
    by (simp add: legal_def example_refused_def is_timeout_def WAIT_TIMEOUT_def example_proxied_fields)
  from threads_run [OF threads_start [OF example_proxied_reach] worker_takes [OF this]] show ?thesis
    by (simp add: worker_take_def example_loop_def example_refusing_def example_refused_def is_timeout_def WAIT_TIMEOUT_def)
qed

lemma example_refusing_worker: "worker_exists example_refusing"
  by (simp add: worker_exists_def example_refusing_def deliver_def example_refused_def example_proxied_fields
      INVALID_HANDLE_VALUE_def ov_upd_def split: option.split)

lemma driver_reach:
  "thread_reach E (d, w, s) \<Longrightarrow> d \<noteq> DReady \<Longrightarrow> driver_step E d s = Some (d', t) \<Longrightarrow> thread_reach E (d', w, t)"
  by (rule threads_run [OF _ thread_goes_on [OF busy_step.driver_goes_on]])

text \<open>The driver's thread is creating the first connection.\<close>

lemma example_creating: "\<exists>u tcp pov s. thread_reach handler_env (DConnect u tcp pov, WReady, s) \<and> worker_exists s"
proof -
  let ?u = "\<lparr>us_id = 7, us_remoteAddress = example_address, us_buf = [1, 2], us_len = 2, us_options = None\<rparr>"
  let ?s = "lock_guard handler_env example_handler"
  let ?w = "\<lambda>t. m_h t OBJ_workerThread = (1 :: handle)"
  have "thread_reach handler_env (DSockets ?u, WReady, ?s)"
    by (rule threads_run [OF threads_start [OF example_handler_reach] driver_enters [OF example_datagram_ok]])
      (simp add: example_datagram_def Let_def example_handler_fields)
  moreover have "\<exists>t. driver_step handler_env (DSockets ?u) ?s = Some (DInsert ?u 3 4, t) \<and> ?w t"
    by (simp add: Let_def sys_def emit_eq fresh_env_def example_env_def example_handler_fields INVALID_SOCKET_def)
  ultimately obtain s1 where 1: "thread_reach handler_env (DInsert ?u 3 4, WReady, s1)" "?w s1"
    using driver_reach by blast
  have "\<exists>t. driver_step handler_env (DInsert ?u 3 4) s1 = Some (DRegister ?u 3 4, t) \<and> ?w t"
    using 1(2) by (simp add: Let_def emit_eq)
  with 1(1) obtain s2 where 2: "thread_reach handler_env (DRegister ?u 3 4, WReady, s2)" "?w s2"
    using driver_reach by blast
  have "\<exists>t. driver_step handler_env (DRegister ?u 3 4) s2 = Some (DRequest ?u 3, t) \<and> ?w t"
    using 2(2) by (simp add: Let_def registerSocket_def sys_def fresh_env_def example_env_def)
  with 2(1) obtain s3 where 3: "thread_reach handler_env (DRequest ?u 3, WReady, s3)" "?w s3"
    using driver_reach by blast
  have "\<exists>p t. driver_step handler_env (DRequest ?u 3) s3 = Some (DConnect ?u 3 p, t) \<and> ?w t"
    using 3(2) by (simp add: Let_def newOV_DATA_def ov_upd_def emit_eq split: option.split)
  with 3(1) obtain p s4 where "thread_reach handler_env (DConnect ?u 3 p, WReady, s4)" "?w s4"
    using driver_reach by blast
  moreover from this(2) have "worker_exists s4" by (simp add: worker_exists_def INVALID_HANDLE_VALUE_def)
  ultimately show ?thesis by blast
qed

section \<open>Properties\<close>

text \<open>
  C13: a stop waits for the worker thread and then closes everything, at whatever point of its loop
  the worker is and whatever it still does, if the driver's thread makes no call meanwhile: the
  tables of requests, connections and UDP contexts are emptied only after the worker has ended; at the end
  they are empty, every socket is closed exactly once, the thread and the port are closed, the driver is
  released last, and the plugin can be started again unless the platform still owns requests. The
  table of the redirected TCP connections is not emptied: it is what it was when the stop began.
\<close>

theorem stop_closes_everything:
  assumes "thread_reach E (DReady, loop_pc l, s)" "worker_exists s"
    and "(stop_step E)\<^sup>*\<^sup>* (stop_start E l s) (h, d, l', t)"
  shows "(l' = WEnded \<or> h = HJoin) \<and>
    (h = HDone \<longrightarrow> m_ovDataSet t = [] \<and> m_socketMap t = [] \<and> m_udpCtxMap t = [] \<and>
       mset (opened_sockets (trace t)) = mset (closed_sockets (trace t)) \<and>
       m_h t OBJ_workerThread = INVALID_HANDLE_VALUE \<and> m_hIOCP t = INVALID_HANDLE_VALUE \<and>
       fst (last (trace t)) = Nf Free \<and> (inflight t = [] \<longrightarrow> handler_idle t)) \<and>
    m_connInfoMap t = m_connInfoMap s"
proof -
  have "stop_inv (h, d, l', t)" by (rule stop_steps_inv [OF assms(3) start_inv [OF assms(1,2)]])
  moreover have "m_connInfoMap t = m_connInfoMap s"
    using stop_steps_links [OF assms(3) [unfolded stop_start_def split_def Let_def]] host_step_links by simp
  ultimately show ?thesis by (auto simp: freeing_def handler_own_def handler_idle_def proxy_idle_def split: if_splits)
qed

theorem stop_closes_everything_witness:
  "\<exists>t. (stop_step handler_env)\<^sup>*\<^sup>* (stop_start handler_env example_loop example_refusing) (HDone, DReady, WEnded, t) \<and>
    m_socketMap t = [] \<and> mset (opened_sockets (trace t)) = mset (closed_sockets (trace t))"
proof -
  from stop_runs [OF start_inv [OF example_refusing_reach example_refusing_worker]] obtain t where
    t: "(stop_step handler_env)\<^sup>*\<^sup>* (stop_start handler_env example_loop example_refusing) (HDone, DReady, WEnded, t)"
    by blast
  from stop_closes_everything [OF example_refusing_reach example_refusing_worker t] t show ?thesis by blast
qed

text \<open>
  C14: the stop comes to its end: from the moment the stop event is set no schedule of the host's thread and
  the worker thread runs for ever, and none is stuck before the worker has ended and the stop is done.
\<close>

theorem stop_finishes:
  assumes "thread_reach E (DReady, loop_pc l, s)" "worker_exists s"
  shows "(\<nexists>f. f 0 = stop_start E l s \<and> (\<forall>i. stop_step E (f i) (f (Suc i)))) \<and>
    (\<forall>y. (stop_step E)\<^sup>*\<^sup>* (stop_start E l s) y \<longrightarrow> (\<nexists>z. stop_step E y z) \<longrightarrow> (\<exists>t. y = (HDone, DReady, WEnded, t)))"
proof (intro conjI allI impI)
  note inv = start_inv [OF assms]
  show "\<nexists>f. f 0 = stop_start E l s \<and> (\<forall>i. stop_step E (f i) (f (Suc i)))"
    using stop_terminates inv by metis
  fix y assume y: "(stop_step E)\<^sup>*\<^sup>* (stop_start E l s) y" "\<nexists>z. stop_step E y z"
  obtain h d l' t where "y = (h, d, l', t)" by (cases y)
  with stop_steps_inv [OF y(1) inv] y(2) stop_progress [of h l' t E] show "\<exists>t. y = (HDone, DReady, WEnded, t)"
    by (cases "h = HDone") auto
qed

theorem stop_finishes_witness:
  "\<nexists>f. f 0 = stop_start handler_env example_loop example_refusing \<and> (\<forall>i. stop_step handler_env (f i) (f (Suc i)))"
  using stop_finishes [OF example_refusing_reach example_refusing_worker] by blast

text \<open>
  C34: the driver is released after the tables are emptied, so a stop can free the request object of
  a connection that the driver's thread is just creating: the object is gone when the thread hands
  it to the platform, which then owns memory that was freed.
\<close>

theorem stop_frees_request_in_use:
  assumes "thread_reach E (DConnect u tcp pov, WReady, s)" "worker_exists s"
  shows "(\<exists>q. map_of (m_ovDataSet s) pov = Some q) \<and>
    (\<exists>h t d t'. (race_step E)\<^sup>*\<^sup>* (HSignal, DConnect u tcp pov, WWait, s) (h, DConnect u tcp pov, WEnded, t) \<and>
       race_step E (h, DConnect u tcp pov, WEnded, t) (h, d, WEnded, t') \<and>
       (\<exists>a r. (Net (ConnectEx tcp a pov), r) \<in> set (drop (length (trace t)) (trace t'))) \<and>
       map_of (m_ovDataSet t') pov = None \<and> (d = DContext u \<longrightarrow> pov \<in> set (inflight t')))"
proof -
  let ?d = "DConnect u tcp pov"
  have "proxy_inv {pov} s" using thread_reach_inv [OF assms(1)] by (simp add: threads_inv.simps shared_ok_def)
  from proxy_inv_live [OF this] have live: "\<exists>q. map_of (m_ovDataSet s) pov = Some q" by auto
  from host_joins [OF assms(2)] obtain t where t: "(stop_step E)\<^sup>*\<^sup>* (HSignal, ?d, WWait, s) (HRequests, ?d, WEnded, t)"
    by blast
  let ?t = "t\<lparr>m_ovDataSet := []\<rparr>"
  have "(race_step E)\<^sup>*\<^sup>* (HSignal, ?d, WWait, s) (HRequests, ?d, WEnded, ?t)"
    by (rule mono_rtranclp [rule_format, OF race_stop, rotated]) (rule rtranclp_trans [OF t host_frees_requests])
  moreover obtain d t' where d: "driver_step E ?d ?t = Some (d, t')" by (auto simp: split_def Let_def)
  moreover have "race_step E (HRequests, ?d, WEnded, ?t) (HRequests, d, WEnded, t')"
    by (rule race_driver [OF _ d]) simp
  moreover have "map_of (m_ovDataSet t') pov = None" using connect_handed_over(2) [OF d] by simp
  ultimately show ?thesis using live connect_handed_over(1,3) [OF d] by blast
qed

theorem stop_frees_request_in_use_witness:
  "\<exists>u tcp pov s h t. thread_reach handler_env (DConnect u tcp pov, WReady, s) \<and>
    (race_step handler_env)\<^sup>*\<^sup>* (HSignal, DConnect u tcp pov, WWait, s) (h, DConnect u tcp pov, WEnded, t)"
proof -
  from example_creating obtain u tcp pov s where s: "thread_reach handler_env (DConnect u tcp pov, WReady, s)" "worker_exists s"
    by blast
  with stop_frees_request_in_use [OF s] show ?thesis by blast
qed

end
