(* ===== verification/Spec2Isabelle.thy ===== *)
theory Spec2Isabelle
  imports Utf8 Linked_List Thread_Pool Udp_Fragments Udp_Protocol Socks_Bytes Driver_Calls Tcp_Links Handler_Stop
begin

text \<open>
  Verification library of QvPlugin-Netfilter, a plugin that redirects the connections of a Windows
  machine to a local SOCKS proxy with the help of a filter driver.

  \<^bold>\<open>The program.\<close> The host program sends connection events to
  \<open>NetfilterPluginEventHandler\<close> (\<open>src/core/EventHandler.cpp\<close>), which starts and stops
  \<open>NetFilterCore\<close> (\<open>src/netfilter/SocksRedirector.cpp\<close>). Starting initialises the
  \<open>EventHandler\<close> (\<open>NFEventHandler.cpp\<close>) and gives the driver its rules. The driver then calls
  the event handler: TCP connections are redirected to the proxy and prefixed with a SOCKS4 request;
  UDP datagrams go through \<open>UDPProxy\<close> (\<open>UDPProxy.cpp\<close>, \<open>UdpProxy.h\<close>), which keeps one SOCKS5
  UDP association per endpoint. The proxy's sockets are asynchronous: a request object is handed to
  the platform, and a worker thread (\<open>iocp.h\<close>) takes the completions from a port and calls the
  proxy, which calls the event handler back with the datagrams it receives.

  \<^bold>\<open>The boundary.\<close> \<open>Platform\<close> models every call out of the program (Windows, Winsock, the C++
  thread primitives, the driver's library, the log function) as an element of the datatype
  \<open>api\<close>; its answer is chosen by a parameter \<open>env\<close> from all earlier calls, and the call is
  appended to the \<open>trace\<close> of the state. A theorem for all \<open>env\<close> covers every behaviour of the
  platform; where one relies on documented behaviour this is a named hypothesis
  (\<open>fresh_sockets\<close>: an open socket is not handed out again; \<open>conversions_fit\<close>: converted addresses
  have their declared size; \<open>inet_pton_documented\<close>; \<open>legal\<close>: a completion belongs to an accepted
  request, and a packet without one is a time-out or the error of a port that does not exist; \<open>event_ok\<close>: what the driver passes has its declared shape; \<open>accepts_tcp\<close>: the platform accepts what is sent
  over TCP). A result \<open>None\<close> of an operation is an access outside
  a memory block, the use of a freed object or a loop that does not end.

  \<^bold>\<open>The theories.\<close>
  \<^item> \<open>NF_Prelude\<close>: reading and writing byte blocks, little-endian words, sorted association lists
    for \<open>std::map\<close> and \<open>std::set\<close>, and the lemma collections \<open>size_simps\<close> and others.
  \<^item> \<open>NF_Types\<close> (\<open>include/nfdriver.h\<close>, \<open>include/nfevents.h\<close>): the driver's structures and flags that
    the plugin fills in or reads. \<open>Packed\<close> has the contracts of packed structures and the readers of
    their fields; \<open>NF_Layout\<close> the other codes and structures of \<open>nfdriver.h\<close> and the memory layout of
    every structure.
  \<^item> \<open>Platform\<close>: the boundary, socket addresses, and the replay of the lock calls of a trace.
  \<^item> \<open>Sync\<close> (\<open>sync.h\<close>): locks, scope guards and owning handles, with the invariant of ownership.
  \<^item> \<open>Thread_Pool\<close> (\<open>threadpool.h\<close>): a pool of threads; its loop is a partial function that is
    proved equal to an iteration, and the account of its handles is an invariant of its runs.
  \<^item> \<open>Iocp\<close> (\<open>iocp.h\<close>): the completion port service; its interface to a handler is the locale
    that the proxy interprets.
  \<^item> \<open>Socks\<close> (\<open>SOCKS.h\<close>): the packed messages, each an interpretation of the locale \<open>packed_struct\<close>.
  \<^item> \<open>Udp_Proxy\<close> (\<open>UDPProxy.cpp\<close>, \<open>UdpProxy.h\<close>): state and operations of the proxy.
    \<open>Udp_Proxy_Inv\<close> has the invariant (which request objects live, what each connection holds) and
    that every operation keeps it; \<open>Udp_Proxy_Connects\<close> follows a connection through its
    conversation; \<open>Udp_Proxy_Safety\<close> has the reachable states and what follows for them;
    \<open>Udp_Proxy_Trace\<close> what the operations do to the sockets and the locks, by monitors of the trace;
    \<open>Udp_Fifo\<close> has the contract of a connection as a queue of datagrams; \<open>Udp_Datagram\<close> is about the encapsulation;
    \<open>Udp_Conversation\<close> composes the handlers to the whole SOCKS5 conversation; \<open>Udp_Fragments\<close> has
    what they do with answers that are cut or late.
  \<^item> \<open>Udp_Context\<close> (\<open>UDPContext.hpp\<close>): the saved options of an endpoint.
  \<^item> \<open>Event_Handler\<close> (\<open>NFEventHandler.hpp\<close>, \<open>NFEventHandler.cpp\<close>): the driver's callbacks, over a
    state that extends the proxy's. \<open>Handler_Frame\<close> has what the proxy leaves alone of it;
    \<open>Handler_Inv\<close> interprets the proxy's receiver interface with the handler's callback and has the
    invariant of the whole plugin and its step relation; \<open>Handler_Safety\<close> and \<open>Handler_Events\<close> have
    the properties of its reachable states and of single events. \<open>Udp_Protocol\<close> shows that in those
    states the client's side of every TCP conversation is one the protocol allows.
    \<open>Handler_Monitor\<close> extends the monitors of the trace to the whole plugin; \<open>Tcp_Links\<close> uses one
    to refine the redirected TCP connections to an abstract machine with one link per endpoint, and
    derives the order of what is sent to the proxy for one connection. \<open>Socks_Bytes\<close> gives the messages
    of the proxy and the handler byte by byte, as the protocols write them.
  \<^item> \<open>Handler_Threads\<close>: the driver's thread and the worker thread as two programs of small steps.
    \<open>Handler_Threads_Inv\<close> has the invariant of their interleavings (who owns each request object and
    socket at each program point), \<open>Handler_Threads_Safety\<close> the properties: where they fault, mutual
    exclusion, no deadlock, and that an uninterrupted thread does what the whole operation does.
  \<^item> \<open>Redirector\<close> (\<open>SocksRedirector.cpp\<close>, \<open>src/core/Settings.hpp\<close>): settings, rules, start and stop,
    and the rule list the driver is left with.
  \<^item> \<open>Plugin_Core\<close> (\<open>src/core/EventHandler.cpp\<close>): host events, and sessions, the runs of the plugin
    from its construction through any number of connections. \<open>Handler_Stop\<close> adds the host's thread
    to the two others: a stop while the worker is anywhere in its loop, and a stop that races with
    the driver's thread. \<open>Driver_Calls\<close> shows that in every
    session what the driver is given has the layout of its structures.
  \<^item> \<open>Utf8\<close> (\<open>UTF-8.h\<close>) and \<open>Linked_List\<close> (\<open>linkedlist.h\<close>): the conversions and the list macros.

  \<^bold>\<open>Representation.\<close> C structures are records or the bytes of their packed layout; integers have
  their width (\<open>int\<close> parameters that the code only compares and copies are \<open>int\<close>, with the
  conversions written out where the code converts). Pointers to request objects are numbers, so that
  a freed one is a number with no entry in \<open>m_ovDataSet\<close>; handle objects live at addresses. The
  field \<open>inflight\<close> is a ledger of the requests the platform has accepted, which the code never
  reads. Loops are structural recursions over the data they consume; the flushing of a connection's
  queue and the loop of a pool thread are partial functions, the first proved total on reachable
  states, the second characterised by the waits that report a stop.

  \<^bold>\<open>Threads.\<close> The events of the host, the driver's callbacks and the completions are first
  interleaved as wholes (\<open>handler_step\<close>, \<open>session\<close>). \<open>Handler_Threads\<close> refines this: the operations
  of the driver's thread and of the worker thread are cut before and after each critical section
  and around each call that gives a request to the platform, and any interleaving of these steps is
  a run of \<open>thread_step\<close>. A step inside a critical section is not cut further, because the only
  other thread cannot be in one. There is one driver thread, the default of the driver's library.
  The thread that stops the plugin is the third (\<open>stop_step\<close>): it signals the worker, waits for it,
  and frees the tables turn by turn without a lock; \<open>race_step\<close> lets the driver's thread run
  meanwhile. What a stop guarantees is proved for a driver that makes no call during it; that the
  code does not ensure this is an error theorem. An event takes at most
  8 steps and a completion at most 5, so the 13 steps of the liveness theorem are enough for both.

  \<^bold>\<open>Faults.\<close> Two inputs make the code touch memory it must not, and the model faults there too
  (\<open>threads_fault_sites\<close>): an empty datagram on an established association, for which
  \<open>udpSend\<close> takes the address of the first byte of an empty vector, and an error of the port that comes
  without a request, which happens if the port could not be created. The lemmas on single operations
  exclude just these by \<open>sendable\<close> and \<open>port_error\<close>; the properties of reachable states need no such
  hypothesis, because a run that faults has no next state. The stop, too, has a fault of its own (\<open>race_step\<close>).

  \<^bold>\<open>Kept tables.\<close> Neither a stop nor a disconnection empties \<open>m_connInfoMap\<close>, the table of the redirected TCP
  connections: the code's \<open>free\<close> does not, and the theorems say that it is kept.

  \<^bold>\<open>Bounds.\<close> No operation is cut off by fuel; \<open>run_driver\<close> and \<open>run_worker\<close> count the steps of a
  thread that is not interrupted, and 8 and 5 are shown to be enough; the stopping thread needs 6 steps and one for each object it frees. A receive buffer has the code's
  65536 bytes, and the hypotheses that answers and datagrams fit into it are the platform's, which
  writes no more than the buffer it was given.

  \<^bold>\<open>Interfaces.\<close> \<open>packed_struct\<close> (wire formats) and \<open>packed_layout\<close> (blocks of memory), the
  completion handler of \<open>Iocp\<close>, the trace monitors of \<open>Udp_Proxy_Trace\<close> (\<open>monitor\<close>, with extensions
  for the calls that send, and \<open>handler_monitor\<close> for the whole plugin) and the receiver of datagrams (\<open>udp_receiver\<close>) are locales, interpreted by
  the components that provide them.

  \<^bold>\<open>Not modelled.\<close> The declarations of the driver's library for other platforms and of functions
  the plugin does not call (\<open>include/nfapi*.h\<close> but its flags, \<open>nfext_macos.h\<close>), and the macros of the control codes in
  \<open>nfdriver.h\<close>, which only the driver's own build defines: there is no code of the program behind
  them. The registration with the host, the JSON conversion of the settings (macros of a submodule)
  and the windows (\<open>NetfilterPlugin.*\<close>, \<open>src/ui\<close>): glue without logic of its own. Printing on
  failure and flushing the standard output. A second driver thread. The deletion of a table's
  entry and its removal from the table are one step of the stopping thread.
\<close>

end
